(* ===== verification/Prelude.thy ===== *)
theory Prelude
  imports Main "HOL-Library.List_Lexorder" "HOL-Library.Char_ord"
begin

text \<open>
  What every component shares: the Go runtime as the operator uses it.

  A Go function that performs effects is a function from a world to a result and a new
  world (\<open>go\<close>). A result is a value, a returned Go error, or a panic; \<open>go_bind\<close> is
  the usual \<^verbatim>\<open>if err != nil { return err }\<close>, \<open>go_try\<close> turns a returned error
  into a value for the functions that collect errors and go on, and \<open>for_each\<close> and
  \<open>fold_go\<close> are the range loops.

  Two generic ways to reason about such programs follow: \<open>safe R m\<close> (every run of
  \<open>m\<close> relates the first and the last world by \<open>R\<close>, whatever the outcome), whose
  rules are proved once in the locale \<open>effect_order\<close> for every reflexive and
  transitive \<open>R\<close>, and \<open>ok_post P m Q\<close> (from a world with \<open>P\<close>, a run that
  returns without error ends in \<open>Q\<close>). The last sections hold string and list helpers.
\<close>

section \<open>Errors, results, programs\<close>

text \<open>
  \<open>api_error\<close> is the status reason the Kubernetes API attaches to an error, the part
  the operator looks at; \<open>bq_error\<close> the same for BigQuery. \<open>JoinedError\<close> is what
  \<^verbatim>\<open>errors.Join\<close> returns.
\<close>

datatype api_error =
    NotFound
  | AlreadyExists
  | Conflict
  | OtherStatus string

datatype bq_error =
    GoogleApiError int
  | OtherBigQueryError string

datatype goerror =
    ApiError api_error
  | BigQueryError bq_error
  | SchemeError string
  | UnsupportedProtocol string
  | JoinedError "goerror list"

datatype 'a res = Ok 'a | Err goerror | Panic

type_synonym ('w, 'a) go = "'w \<Rightarrow> 'a res \<times> 'w"

definition IsNotFound :: "api_error \<Rightarrow> bool" where
  "IsNotFound e \<longleftrightarrow> e = NotFound"

definition IsAlreadyExists :: "api_error \<Rightarrow> bool" where
  "IsAlreadyExists e \<longleftrightarrow> e = AlreadyExists"

lemma IsNotFound_simps [simp]:
  "IsNotFound NotFound" "\<not> IsNotFound AlreadyExists" "\<not> IsNotFound Conflict"
  "\<not> IsNotFound (OtherStatus s)"
  by (simp_all add: IsNotFound_def)

lemma IsAlreadyExists_simps [simp]:
  "IsAlreadyExists AlreadyExists" "\<not> IsAlreadyExists NotFound" "\<not> IsAlreadyExists Conflict"
  "\<not> IsAlreadyExists (OtherStatus s)"
  by (simp_all add: IsAlreadyExists_def)

definition go_return :: "'a \<Rightarrow> ('w, 'a) go" where
  "go_return x = (\<lambda>w. (Ok x, w))"

definition go_err :: "goerror \<Rightarrow> ('w, 'a) go" where
  "go_err e = (\<lambda>w. (Err e, w))"

definition go_panic :: "('w, 'a) go" where
  "go_panic = (\<lambda>w. (Panic, w))"

definition go_lift :: "'a res \<Rightarrow> ('w, 'a) go" where
  "go_lift r = (\<lambda>w. (r, w))"

definition go_bind :: "('w, 'a) go \<Rightarrow> ('a \<Rightarrow> ('w, 'b) go) \<Rightarrow> ('w, 'b) go" where
  "go_bind m f = (\<lambda>w.
     case m w of
       (Ok x, w') \<Rightarrow> f x w'
     | (Err e, w') \<Rightarrow> (Err e, w')
     | (Panic, w') \<Rightarrow> (Panic, w'))"

definition go_seq :: "('w, unit) go \<Rightarrow> ('w, 'b) go \<Rightarrow> ('w, 'b) go" where
  "go_seq m k = go_bind m (\<lambda>_. k)"

text \<open>The error of a call as a value, for callers that inspect or collect it.\<close>

definition go_try :: "('w, 'a) go \<Rightarrow> ('w, goerror + 'a) go" where
  "go_try m = (\<lambda>w.
     case m w of
       (Ok x, w') \<Rightarrow> (Ok (Inr x), w')
     | (Err e, w') \<Rightarrow> (Ok (Inl e), w')
     | (Panic, w') \<Rightarrow> (Panic, w'))"

primrec fold_go :: "('a \<Rightarrow> 'b \<Rightarrow> ('w, 'b) go) \<Rightarrow> 'a list \<Rightarrow> 'b \<Rightarrow> ('w, 'b) go" where
  "fold_go f [] acc = go_return acc"
| "fold_go f (x # xs) acc = go_bind (f x acc) (fold_go f xs)"

primrec for_each :: "('a \<Rightarrow> ('w, unit) go) \<Rightarrow> 'a list \<Rightarrow> ('w, unit) go" where
  "for_each f [] = go_return ()"
| "for_each f (x # xs) = go_seq (f x) (for_each f xs)"

text \<open>\<^verbatim>\<open>return errors.Join(errs...)\<close>: no error when nothing was collected.\<close>

definition errors_Join :: "goerror list \<Rightarrow> ('w, unit) go" where
  "errors_Join errs = (if errs = [] then go_return () else go_err (JoinedError errs))"

named_theorems go_defs "the runtime's combinators, for evaluating a program"

lemmas go_run_defs [go_defs] =
  go_return_def go_err_def go_panic_def go_lift_def go_bind_def go_seq_def go_try_def
  errors_Join_def

subsection \<open>Monad laws and outcomes\<close>

lemma go_bind_return [simp]: "go_bind (go_return x) f = f x"
  by (simp add: go_defs)

lemma go_bind_err [simp]: "go_bind (go_err e) f = go_err e"
  by (simp add: go_defs)

lemma go_bind_assoc: "go_bind (go_bind m f) g = go_bind m (\<lambda>x. go_bind (f x) g)"
  by (rule ext) (simp add: go_defs split: prod.splits res.splits)

lemma go_bind_OkE:
  assumes "go_bind m f w = (Ok y, w')"
  obtains x w1 where "m w = (Ok x, w1)" "f x w1 = (Ok y, w')"
  using assms by (auto simp: go_bind_def split: prod.splits res.splits)

lemma go_seq_OkE:
  assumes "go_seq m k w = (Ok y, w')"
  obtains w1 where "m w = (Ok (), w1)" "k w1 = (Ok y, w')"
  using assms by (auto simp: go_seq_def elim: go_bind_OkE)

lemma go_return_Ok [simp]: "go_return x w = (Ok y, w') \<longleftrightarrow> y = x \<and> w' = w"
  by (auto simp: go_defs)

lemma go_err_Ok [simp]: "go_err e w \<noteq> (Ok y, w')"
  by (simp add: go_defs)

lemma go_panic_Ok [simp]: "go_panic w \<noteq> (Ok y, w')"
  by (simp add: go_defs)

lemma go_lift_Ok [simp]: "go_lift r w = (Ok y, w') \<longleftrightarrow> r = Ok y \<and> w' = w"
  by (auto simp: go_defs)

lemma errors_Join_Ok [simp]: "errors_Join errs w = (Ok u, w') \<longleftrightarrow> errs = [] \<and> w' = w"
  by (auto simp: errors_Join_def)

lemma for_each_append: "for_each f (xs @ ys) = go_seq (for_each f xs) (for_each f ys)"
  by (induction xs) (simp_all add: go_seq_def go_bind_assoc)

lemma for_each_concat: "for_each (\<lambda>x. for_each f (g x)) xs = for_each f (concat (map g xs))"
  by (induction xs) (simp_all add: for_each_append)

section \<open>Effects: what a program does to the world, on every outcome\<close>

definition safe :: "('w \<Rightarrow> 'w \<Rightarrow> bool) \<Rightarrow> ('w, 'a) go \<Rightarrow> bool" where
  "safe R m \<longleftrightarrow> (\<forall>w. R w (snd (m w)))"

lemma safeI: "(\<And>w. R w (snd (m w))) \<Longrightarrow> safe R m"
  by (simp add: safe_def)

lemma safeD: "safe R m \<Longrightarrow> m w = (r, w') \<Longrightarrow> R w w'"
  unfolding safe_def by (metis snd_conv)

lemma safe_mono: "safe R m \<Longrightarrow> (\<And>w w'. R w w' \<Longrightarrow> S w w') \<Longrightarrow> safe S m"
  by (auto simp: safe_def)

locale effect_order =
  fixes R :: "'w \<Rightarrow> 'w \<Rightarrow> bool"
  assumes refl: "R w w"
    and trans: "R w1 w2 \<Longrightarrow> R w2 w3 \<Longrightarrow> R w1 w3"
begin

lemma safe_return [intro!, simp]: "safe R (go_return x)"
  by (simp add: safe_def go_defs refl)

lemma safe_err [intro!, simp]: "safe R (go_err e)"
  by (simp add: safe_def go_defs refl)

lemma safe_panic [intro!, simp]: "safe R go_panic"
  by (simp add: safe_def go_defs refl)

lemma safe_lift [intro!, simp]: "safe R (go_lift r)"
  by (simp add: safe_def go_defs refl)

lemma safe_Join [intro!, simp]: "safe R (errors_Join errs)"
  by (simp add: errors_Join_def)

lemma safe_bind:
  assumes m: "safe R m" and f: "\<And>x. safe R (f x)"
  shows "safe R (go_bind m f)"
proof (rule safeI)
  fix w
  obtain r w1 where r: "m w = (r, w1)" by (cases "m w")
  with m have R1: "R w w1" by (rule safeD)
  show "R w (snd (go_bind m f w))"
  proof (cases r)
    case (Ok x)
    with f have "R w1 (snd (f x w1))" by (simp add: safe_def)
    with Ok r R1 show ?thesis by (auto simp: go_bind_def intro: trans)
  qed (use r R1 in \<open>simp_all add: go_bind_def\<close>)
qed

lemma safe_bind_Ok:
  assumes m: "safe R m" and f: "\<And>x w w'. m w = (Ok x, w') \<Longrightarrow> safe R (f x)"
  shows "safe R (go_bind m f)"
proof (rule safeI)
  fix w
  obtain r w1 where r: "m w = (r, w1)" by (cases "m w")
  with m have R1: "R w w1" by (rule safeD)
  show "R w (snd (go_bind m f w))"
  proof (cases r)
    case (Ok x)
    with f r have "R w1 (snd (f x w1))" by (auto simp: safe_def)
    with Ok r R1 show ?thesis by (auto simp: go_bind_def intro: trans)
  qed (use r R1 in \<open>simp_all add: go_bind_def\<close>)
qed

lemma safe_lift_bind:
  "(\<And>x. r = Ok x \<Longrightarrow> safe R (f x)) \<Longrightarrow> safe R (go_bind (go_lift r) f)"
  by (rule safe_bind_Ok) auto

lemma safe_seq: "safe R m \<Longrightarrow> safe R k \<Longrightarrow> safe R (go_seq m k)"
  unfolding go_seq_def by (rule safe_bind)

lemma safe_try: "safe R m \<Longrightarrow> safe R (go_try m)"
  by (auto simp: safe_def go_try_def split: prod.splits res.splits) (metis snd_conv)+

lemma safe_fold_go:
  "(\<And>x acc. x \<in> set xs \<Longrightarrow> safe R (f x acc)) \<Longrightarrow> safe R (fold_go f xs acc)"
  by (induction xs arbitrary: acc) (auto intro!: safe_bind)

lemma safe_for_each: "(\<And>x. x \<in> set xs \<Longrightarrow> safe R (f x)) \<Longrightarrow> safe R (for_each f xs)"
  by (induction xs) (auto intro!: safe_seq)

lemmas safe_rules = safe_lift_bind safe_bind safe_seq safe_try safe_fold_go safe_for_each

end

section \<open>Postconditions of runs that return without error\<close>

definition ok_post :: "('w \<Rightarrow> bool) \<Rightarrow> ('w, 'a) go \<Rightarrow> ('a \<Rightarrow> 'w \<Rightarrow> bool) \<Rightarrow> bool" where
  "ok_post P m Q \<longleftrightarrow> (\<forall>w x w'. P w \<longrightarrow> m w = (Ok x, w') \<longrightarrow> Q x w')"

lemma ok_postI: "(\<And>w x w'. P w \<Longrightarrow> m w = (Ok x, w') \<Longrightarrow> Q x w') \<Longrightarrow> ok_post P m Q"
  by (auto simp: ok_post_def)

lemma ok_postD: "ok_post P m Q \<Longrightarrow> P w \<Longrightarrow> m w = (Ok x, w') \<Longrightarrow> Q x w'"
  by (auto simp: ok_post_def)

lemma ok_post_weaken:
  "ok_post P m Q \<Longrightarrow> (\<And>w. P' w \<Longrightarrow> P w) \<Longrightarrow> (\<And>x w. Q x w \<Longrightarrow> Q' x w) \<Longrightarrow> ok_post P' m Q'"
  unfolding ok_post_def by blast

lemma ok_post_bind:
  "ok_post P m Q \<Longrightarrow> (\<And>x. ok_post (Q x) (f x) S) \<Longrightarrow> ok_post P (go_bind m f) S"
  unfolding ok_post_def by (metis go_bind_OkE)

lemma ok_post_seq:
  "ok_post P m (\<lambda>_. Q) \<Longrightarrow> ok_post Q k S \<Longrightarrow> ok_post P (go_seq m k) S"
  unfolding go_seq_def by (rule ok_post_bind)

lemma ok_post_seq_keep:
  assumes "ok_post (\<lambda>_. True) m (\<lambda>_. A)" and "ok_post (\<lambda>_. True) k (\<lambda>_. B)" and "safe R k"
    and "\<And>w w'. A w \<Longrightarrow> R w w' \<Longrightarrow> A w'"
  shows "ok_post (\<lambda>_. True) (go_seq m k) (\<lambda>_ w. A w \<and> B w)"
proof (rule ok_postI)
  fix w x w'
  assume "go_seq m k w = (Ok x, w')"
  then obtain w1 where w1: "m w = (Ok (), w1)" "k w1 = (Ok x, w')" by (rule go_seq_OkE)
  have "R w1 w'" using assms(3) w1(2) by (rule safeD)
  moreover have "A w1" using ok_postD [OF assms(1) TrueI w1(1)] .
  moreover have "B w'" using ok_postD [OF assms(2) TrueI w1(2)] .
  ultimately show "A w' \<and> B w'" using assms(4) by blast
qed

lemma ok_post_return [simp]: "ok_post P (go_return x) Q \<longleftrightarrow> (\<forall>w. P w \<longrightarrow> Q x w)"
  by (auto simp: ok_post_def)

lemma ok_post_err [simp]: "ok_post P (go_err e) Q"
  by (simp add: ok_post_def)

lemma ok_post_panic [simp]: "ok_post P go_panic Q"
  by (simp add: ok_post_def)

text \<open>
  A loop establishes a fact for every element when each body establishes it for its own
  element and no body destroys the facts of the others: \<open>R\<close> is what the bodies do to
  the world, and it preserves both.
\<close>

lemma ok_post_for_each:
  assumes body: "\<And>x. x \<in> set xs \<Longrightarrow> ok_post P (f x) (\<lambda>_. Q x)"
    and step: "\<And>x. x \<in> set xs \<Longrightarrow> safe R (f x)"
    and pre: "\<And>w w'. P w \<Longrightarrow> R w w' \<Longrightarrow> P w'"
    and keep: "\<And>x w w'. x \<in> set xs \<Longrightarrow> P w \<Longrightarrow> Q x w \<Longrightarrow> R w w' \<Longrightarrow> Q x w'"
  shows "ok_post P (for_each f xs) (\<lambda>_ w. P w \<and> (\<forall>x \<in> set xs. Q x w))"
  using assms
proof (induction xs)
  case Nil
  then show ?case by simp
next
  case (Cons x xs)
  note body = Cons.prems(1) and step = Cons.prems(2) and pre = Cons.prems(3)
    and keep = Cons.prems(4)
  have loop: "ok_post P (for_each f xs) (\<lambda>_ w. P w \<and> (\<forall>x \<in> set xs. Q x w))"
    by (rule Cons.IH) (auto intro: body step pre keep)
  have later: "Q x w'" if "P w" "Q x w" "for_each f xs w = (r, w')" for w w' r
    using that step
  proof (induction xs arbitrary: w)
    case Nil
    then show ?case by (simp add: go_defs)
  next
    case (Cons y ys)
    obtain r1 w1 where r1: "f y w = (r1, w1)" by (cases "f y w")
    from Cons.prems(4) r1 have R1: "R w w1" by (auto intro: safeD)
    with Cons.prems have "P w1" "Q x w1" by (auto intro: pre keep)
    with Cons r1 show ?case
      by (cases r1) (auto simp: go_seq_def go_bind_def)
  qed
  show ?case
  proof (rule ok_postI)
    fix w u w'
    assume "P w" and "for_each f (x # xs) w = (Ok u, w')"
    then obtain w1 where w1: "f x w = (Ok (), w1)" "for_each f xs w1 = (Ok u, w')"
      by (auto elim: go_seq_OkE)
    have "Q x w1" using ok_postD [OF body \<open>P w\<close> w1(1)] by simp
    moreover have "P w1" using safeD [OF step w1(1)] \<open>P w\<close> by (auto intro: pre)
    ultimately show "P w' \<and> (\<forall>x \<in> set (x # xs). Q x w')"
      using later w1(2) ok_postD [OF loop _ w1(2)] by auto
  qed
qed

text \<open>
  A loop that collects errors and goes on: if it ends with nothing collected, every body
  has established its fact, provided the later bodies keep it.
\<close>

lemma fold_go_collect_inv:
  assumes body: "\<And>x errs w errs' w'. x \<in> set xs \<Longrightarrow> I w \<Longrightarrow> f x errs w = (Ok errs', w')
      \<Longrightarrow> \<exists>es. errs' = errs @ es \<and> (es = [] \<longrightarrow> Q x w')"
    and step: "\<And>x errs. x \<in> set xs \<Longrightarrow> safe R (f x errs)"
    and inv: "\<And>w w'. I w \<Longrightarrow> R w w' \<Longrightarrow> I w'"
    and keep: "\<And>x w w'. Q x w \<Longrightarrow> R w w' \<Longrightarrow> Q x w'"
    and order: "effect_order R"
    and start: "I w"
    and run: "fold_go f xs errs w = (Ok errs', w')"
  shows "\<exists>es. errs' = errs @ es \<and> (es = [] \<longrightarrow> (\<forall>x \<in> set xs. Q x w'))"
  using body step start run
proof (induction xs arbitrary: errs w)
  case Nil
  then show ?case by simp
next
  case (Cons x xs)
  from Cons.prems(4) obtain errs1 w1 where
    first: "f x errs w = (Ok errs1, w1)" and rest: "fold_go f xs errs1 w1 = (Ok errs', w')"
    by (auto elim: go_bind_OkE)
  from Cons.prems(1) [OF _ Cons.prems(3) first] obtain es1 where
    es1: "errs1 = errs @ es1" "es1 = [] \<longrightarrow> Q x w1" by auto
  have "R w w1" using Cons.prems(2) first by (rule safeD) simp
  with inv Cons.prems(3) have "I w1" by blast
  then have "\<exists>es. errs' = errs1 @ es \<and> (es = [] \<longrightarrow> (\<forall>x \<in> set xs. Q x w'))"
    using rest by (rule Cons.IH [rotated 2]) (simp_all add: Cons.prems(1,2))
  then obtain es2 where es2: "errs' = errs1 @ es2" "es2 = [] \<longrightarrow> (\<forall>x \<in> set xs. Q x w')"
    by blast
  have "safe R (fold_go f xs errs1)"
    by (rule effect_order.safe_fold_go [OF order]) (simp add: Cons.prems(2))
  then have "R w1 w'" using rest by (rule safeD)
  with es1 es2 show ?case by (intro exI [of _ "es1 @ es2"]) (auto intro: keep)
qed

lemma fold_go_collect:
  assumes body: "\<And>x errs w errs' w'. x \<in> set xs \<Longrightarrow> f x errs w = (Ok errs', w')
      \<Longrightarrow> \<exists>es. errs' = errs @ es \<and> (es = [] \<longrightarrow> Q x w')"
    and step: "\<And>x errs. x \<in> set xs \<Longrightarrow> safe R (f x errs)"
    and keep: "\<And>x w w'. Q x w \<Longrightarrow> R w w' \<Longrightarrow> Q x w'"
    and order: "effect_order R"
    and run: "fold_go f xs errs w = (Ok errs', w')"
  shows "\<exists>es. errs' = errs @ es \<and> (es = [] \<longrightarrow> (\<forall>x \<in> set xs. Q x w'))"
  by (rule fold_go_collect_inv [where I = "\<lambda>_. True", OF body step _ keep order TrueI run])

section \<open>Strings, slices and maps of the Go standard library\<close>

text \<open>
  A Go string is a sequence of bytes: \<open>string\<close>. \<^verbatim>\<open>strings.ReplaceAll(s, ".", "-")\<close>
  replaces one byte by one byte, so it is a \<open>map\<close>. Strings are compared bytewise, which
  is the lexicographic order of \<open>HOL-Library.List_Lexorder\<close>.
\<close>

definition ReplaceDots :: "string \<Rightarrow> string" where
  "ReplaceDots s = map (\<lambda>c. if c = CHR ''.'' then CHR ''-'' else c) s"

lemma length_ReplaceDots [simp]: "length (ReplaceDots s) = length s"
  by (simp add: ReplaceDots_def)

lemma ReplaceDots_no_dot: "CHR ''.'' \<notin> set (ReplaceDots s)"
  by (auto simp: ReplaceDots_def split: if_splits)

lemma ReplaceDots_id: "CHR ''.'' \<notin> set s \<Longrightarrow> ReplaceDots s = s"
  by (induction s) (auto simp: ReplaceDots_def)

lemma ReplaceDots_inj:
  "ReplaceDots s = ReplaceDots t \<Longrightarrow> CHR ''-'' \<notin> set s \<Longrightarrow> CHR ''-'' \<notin> set t \<Longrightarrow> s = t"
  by (induction s arbitrary: t) (auto simp: ReplaceDots_def split: if_splits)

text \<open>\<^verbatim>\<open>m[k]\<close> on a \<^verbatim>\<open>map[string]string\<close>: the empty string when the key is absent.\<close>

type_synonym string_map = "string \<rightharpoonup> string"

definition map_get :: "string_map \<Rightarrow> string \<Rightarrow> string" where
  "map_get m k = (case m k of None \<Rightarrow> [] | Some v \<Rightarrow> v)"

text \<open>\<^verbatim>\<open>slices.Sort\<close> is \<open>sort\<close>, \<^verbatim>\<open>slices.Compact\<close> is \<open>remdups_adj\<close>.\<close>

lemma sorted_remdups_adj_sort: "sorted (remdups_adj (sort xs))"
  by (simp add: sorted_remdups_adj)

lemma distinct_remdups_adj_sorted: "sorted xs \<Longrightarrow> distinct (remdups_adj xs)"
  by (induction xs rule: remdups_adj.induct) (auto simp: order.antisym)

lemma distinct_remdups_adj_sort: "distinct (remdups_adj (sort xs))"
  by (simp add: distinct_remdups_adj_sorted)

lemma remdups_adj_sort_sorted_list_of_set:
  "remdups_adj (sort xs) = sorted_list_of_set (set xs)"
  by (intro sorted_distinct_set_unique)
    (simp_all add: sorted_remdups_adj_sort distinct_remdups_adj_sort)

text \<open>
  A string is cut at the first occurrence of a byte it does not hold before it: what a
  name built with a separator determines.
\<close>

lemma append_sep_eq:
  assumes "xs @ c # ys = xs' @ c # ys'" and "c \<notin> set xs" and "c \<notin> set xs'"
  shows "xs = xs' \<and> ys = ys'"
  using assms
proof (induction xs arbitrary: xs')
  case Nil
  then show ?case by (cases xs') auto
next
  case (Cons x xs)
  then show ?case by (cases xs') auto
qed

end
