(* ===== verification/ApiTypes.thy ===== *)
theory ApiTypes
  imports Prelude
begin

text \<open>
  The API group \<^verbatim>\<open>data.nav.no/v1alpha1\<close> (\<^verbatim>\<open>api/v1alpha1\<close>): the specification of a
  UnionTeamServiceAccounts resource, its object metadata, and the resource names derived
  from hosts and Cloud SQL addresses.

  Of the Kubernetes \<^verbatim>\<open>ObjectMeta\<close> the record holds the fields the operator reads or
  writes. Labels and annotations are partial maps; a nil map and an empty map are both
  \<open>Map.empty\<close>, since no code tells them apart in its effect. A time is a number whose
  zero is Go's zero time.
\<close>

section \<open>Kubernetes object metadata\<close>

record OwnerReference =
  ownerAPIVersion :: string
  ownerKind :: string
  ownerName :: string
  ownerUID :: string
  ownerController :: "bool option"
  ownerBlockOwnerDeletion :: "bool option"

record ObjectMeta =
  metaName :: string
  metaNamespace :: string
  metaUID :: string
  metaLabels :: string_map
  metaAnnotations :: string_map
  metaFinalizers :: "string list"
  metaOwnerReferences :: "OwnerReference list"
  metaCreationTimestamp :: int
  metaDeletionTimestamp :: "int option"

text \<open>The metadata of a composite literal that sets a name, a namespace and labels only.\<close>

definition zero_meta :: ObjectMeta where
  "zero_meta = \<lparr>metaName = [], metaNamespace = [], metaUID = [], metaLabels = Map.empty,
     metaAnnotations = Map.empty, metaFinalizers = [], metaOwnerReferences = [],
     metaCreationTimestamp = 0, metaDeletionTimestamp = None\<rparr>"

definition new_meta :: "string \<Rightarrow> string \<Rightarrow> string_map \<Rightarrow> ObjectMeta" where
  "new_meta name namespace labels =
     zero_meta\<lparr>metaName := name, metaNamespace := namespace, metaLabels := labels\<rparr>"

lemma new_meta_sel [simp]:
  "metaName (new_meta n ns l) = n"
  "metaNamespace (new_meta n ns l) = ns"
  "metaLabels (new_meta n ns l) = l"
  "metaAnnotations (new_meta n ns l) = Map.empty"
  "metaFinalizers (new_meta n ns l) = []"
  "metaOwnerReferences (new_meta n ns l) = []"
  "metaDeletionTimestamp (new_meta n ns l) = None"
  by (simp_all add: new_meta_def zero_meta_def)

text \<open>\<^verbatim>\<open>(*metav1.Time).IsZero\<close>: a nil pointer or the zero time.\<close>

definition Time_IsZero :: "int option \<Rightarrow> bool" where
  "Time_IsZero t = (case t of None \<Rightarrow> True | Some x \<Rightarrow> x = 0)"

section \<open>The UnionTeamServiceAccounts resource\<close>

record Host =
  hostHost :: string
  hostPaths :: "string list"

definition Host_Name :: "Host \<Rightarrow> string" where
  "Host_Name a = ReplaceDots (hostHost a)"

record CloudSQLInstance =
  sqlIP :: string

definition CloudSQL_Host :: "CloudSQLInstance \<Rightarrow> string" where
  "CloudSQL_Host c = ReplaceDots (sqlIP c) @ ''.cloudsql''"

definition CloudSQL_Name :: "CloudSQLInstance \<Rightarrow> string" where
  "CloudSQL_Name c = ''cloudsql-'' @ ReplaceDots (sqlIP c)"

record UnionServiceAccount =
  usaName :: string
  usaExternalAllowlist :: "Host list"
  usaInternalAllowlist :: "Host list"
  usaCloudSQL :: "CloudSQLInstance list"

record UnionTeamServiceAccountsSpec =
  specProject :: string
  specDomain :: string
  specServiceAccounts :: "UnionServiceAccount list"

record MetaCondition =
  mcType :: string
  mcStatus :: string
  mcObservedGeneration :: int
  mcLastTransitionTime :: int
  mcReason :: string
  mcMessage :: string

record UnionTeamServiceAccounts =
  utsaMeta :: ObjectMeta
  utsaSpec :: UnionTeamServiceAccountsSpec
  utsaStatusConditions :: "MetaCondition list"

section \<open>Names derived from hosts and addresses\<close>

lemma Host_Name_no_dot: "CHR ''.'' \<notin> set (Host_Name h)"
  by (simp add: Host_Name_def ReplaceDots_no_dot)

lemma CloudSQL_Name_no_dot: "CHR ''.'' \<notin> set (CloudSQL_Name c)"
  by (simp add: CloudSQL_Name_def ReplaceDots_no_dot)

text \<open>The address is recovered from the host name: an IPv4 address holds no dash.\<close>

lemma CloudSQL_Host_inj:
  assumes "CloudSQL_Host c = CloudSQL_Host d"
    and "CHR ''-'' \<notin> set (sqlIP c)" and "CHR ''-'' \<notin> set (sqlIP d)"
  shows "sqlIP c = sqlIP d"
  using assms by (auto simp: CloudSQL_Host_def intro: ReplaceDots_inj)

text \<open>A Cloud SQL host name is never the gateway's wildcard.\<close>

lemma CloudSQL_Host_not_wildcard: "CloudSQL_Host c \<noteq> ''*''"
  by (cases "ReplaceDots (sqlIP c)") (simp_all add: CloudSQL_Host_def)

end
