(* ===== verification/UnionTypes.thy ===== *)
theory UnionTypes
  imports ApiTypes Sha256
begin

text \<open>
  \<^verbatim>\<open>internal/types\<close>: the operator's configuration, the environment a team's resource
  describes (project, domain, Google project, owner), the names derived from it, and the
  Config Connector resources (IAMServiceAccount, IAMPolicyMember) of \<^verbatim>\<open>iam.go\<close>.

  The lemmas bound the length of every generated name and say what a name determines:
  the parts are joined by dashes, so a name determines them only when they hold none.
\<close>

section \<open>Configuration and on-premises hosts (\<^verbatim>\<open>types.go\<close>)\<close>

definition maxServiceAccountDisplayNameLength :: nat where
  "maxServiceAccountDisplayNameLength = 100"

definition akImagePullSecretName :: string where
  "akImagePullSecretName = ''ak-registry-pull-secret''"

record AllowlistHistoryConfig =
  ahProject :: string
  ahBigqueryDataset :: string
  ahTableName :: string

record UnionDataplaneConfig =
  cfgGCPProjectName :: string
  cfgFastRegistrationBucket :: string
  cfgDataBucket :: string
  cfgOnpremHostMapFilePath :: string
  cfgAllowlistHistory :: AllowlistHistoryConfig

record OnpremHost =
  onpremVIP :: "string list"
  onpremProtocol :: string

type_synonym OnpremHostMap = "string \<rightharpoonup> OnpremHost"

section \<open>The environment of a team's service accounts\<close>

record UTSAOwnerReference =
  uorAPIVersion :: string
  uorKind :: string
  uorName :: string
  uorUID :: string

text \<open>The owner reference is a pointer, nil where nobody set it.\<close>

record UnionEnv =
  envUTSAOwnerReference :: "UTSAOwnerReference option"
  envProject :: string
  envDomain :: string
  envGCPProjectName :: string

text \<open>\<^verbatim>\<open>type ServiceAccount struct { UnionServiceAccount; *UnionEnv }\<close>.\<close>

record ServiceAccount =
  saUnionServiceAccount :: UnionServiceAccount
  saUnionEnv :: UnionEnv

abbreviation saName :: "ServiceAccount \<Rightarrow> string" where
  "saName s \<equiv> usaName (saUnionServiceAccount s)"

abbreviation saProject :: "ServiceAccount \<Rightarrow> string" where
  "saProject s \<equiv> envProject (saUnionEnv s)"

abbreviation saDomain :: "ServiceAccount \<Rightarrow> string" where
  "saDomain s \<equiv> envDomain (saUnionEnv s)"

definition AKImagePullSecretName :: "ServiceAccount \<Rightarrow> string" where
  "AKImagePullSecretName s = akImagePullSecretName"

text \<open>Reading through a nil owner reference panics.\<close>

definition OwnerReferences :: "UnionEnv \<Rightarrow> OwnerReference list res" where
  "OwnerReferences s =
     (case envUTSAOwnerReference s of
        None \<Rightarrow> Panic
      | Some r \<Rightarrow> Ok
          [\<lparr>ownerAPIVersion = uorAPIVersion r, ownerKind = uorKind r, ownerName = uorName r,
            ownerUID = uorUID r, ownerController = Some True,
            ownerBlockOwnerDeletion = Some True\<rparr>])"

definition Namespace :: "UnionEnv \<Rightarrow> string" where
  "Namespace u = envProject u @ ''-'' @ envDomain u"

definition mkServiceAccount :: "UnionEnv \<Rightarrow> UnionServiceAccount \<Rightarrow> ServiceAccount" where
  "mkServiceAccount u sa = \<lparr>saUnionServiceAccount = sa, saUnionEnv = u\<rparr>"

definition ServiceAccountByName :: "UnionEnv \<Rightarrow> string \<Rightarrow> ServiceAccount" where
  "ServiceAccountByName u name = mkServiceAccount u
     \<lparr>usaName = name, usaExternalAllowlist = [], usaInternalAllowlist = [], usaCloudSQL = []\<rparr>"

definition GoogleServiceAccountName :: "ServiceAccount \<Rightarrow> string" where
  "GoogleServiceAccountName s =
     (let name = saName s @ ''-'' @ saDomain s @ ''-'' @ saProject s;
          hash = Sum256 (bytes_of_string name);
          prefixLength = min 22 (length name)
      in take prefixLength name @ ''-'' @ take 5 (EncodeToString hash))"

definition GoogleServiceAccountDisplayName :: "ServiceAccount \<Rightarrow> string" where
  "GoogleServiceAccountDisplayName s =
     (let displayName = ''Union service account (project: '' @ saProject s @ '', domain: ''
            @ saDomain s @ '') '' @ saName s
      in take (min maxServiceAccountDisplayNameLength (length displayName)) displayName)"

definition GoogleServiceAccountEmail :: "ServiceAccount \<Rightarrow> string" where
  "GoogleServiceAccountEmail s =
     GoogleServiceAccountName s @ ''@'' @ envGCPProjectName (saUnionEnv s)
       @ ''.iam.gserviceaccount.com''"

section \<open>Config Connector resources (\<^verbatim>\<open>iam.go\<close>)\<close>

record IAMCondition =
  condTitle :: string
  condDescription :: string
  condExpression :: string

record ResourceRef =
  refApiVersion :: string
  refExternal :: "string option"
  refKind :: string
  refName :: "string option"

record IAMPolicyMemberSpec =
  pmMember :: string
  pmRole :: string
  pmCondition :: "IAMCondition option"
  pmResourceRef :: ResourceRef

record IAMPolicyMemberStatus =
  pmsConditions :: "MetaCondition list"
  pmsObservedGeneration :: int

record IAMPolicyMember =
  pmMeta :: ObjectMeta
  pmSpec :: IAMPolicyMemberSpec
  pmStatus :: IAMPolicyMemberStatus

record IAMServiceAccount =
  iamMeta :: ObjectMeta
  iamDisplayName :: string

section \<open>Names\<close>

lemma mkServiceAccount_sel [simp]:
  "saUnionServiceAccount (mkServiceAccount u sa) = sa"
  "saUnionEnv (mkServiceAccount u sa) = u"
  by (simp_all add: mkServiceAccount_def)

lemma ServiceAccountByName_sel [simp]:
  "saName (ServiceAccountByName u n) = n"
  "saUnionEnv (ServiceAccountByName u n) = u"
  by (simp_all add: ServiceAccountByName_def)

lemma GoogleServiceAccountName_alt:
  "GoogleServiceAccountName s =
     (let name = saName s @ ''-'' @ saDomain s @ ''-'' @ saProject s
      in take 22 name @ ''-'' @ hash_suffix name)"
  by (simp add: GoogleServiceAccountName_def hash_suffix_def Let_def min_def)

text \<open>
  The name of a Google service account depends on the Kubernetes name and the
  environment's project and domain only: an account found by name in the cluster gets the
  same one as the account of the specification.
\<close>

lemma GoogleServiceAccountName_ByName:
  "GoogleServiceAccountName (ServiceAccountByName (saUnionEnv s) (saName s))
     = GoogleServiceAccountName s"
  by (simp add: GoogleServiceAccountName_def)

text \<open>
  C30. A generated Google service account name has the first 22 bytes of
  \<^verbatim>\<open>name-domain-project\<close>, a dash and five lower-case hexadecimal digits, so it has at
  most 28 bytes: it fits the 30-character limit of Google service account ids.
\<close>

theorem GoogleServiceAccountName_shape:
  "\<exists>prefix suffix. GoogleServiceAccountName s = prefix @ ''-'' @ suffix
     \<and> prefix = take 22 (saName s @ ''-'' @ saDomain s @ ''-'' @ saProject s)
     \<and> length suffix = 5 \<and> set suffix \<subseteq> set ''0123456789abcdef''
     \<and> length (GoogleServiceAccountName s) \<le> 28"
  using hash_suffix_alphabet
  by (auto simp: GoogleServiceAccountName_alt Let_def hex_digits_def)

text \<open>
  The display name is a prefix of the full text and never longer than Google's limit
  of 100 bytes; a text within the limit is kept whole.
\<close>

lemma GoogleServiceAccountDisplayName_bound:
  "\<exists>rest. ''Union service account (project: '' @ saProject s @ '', domain: '' @ saDomain s
       @ '') '' @ saName s = GoogleServiceAccountDisplayName s @ rest
     \<and> length (GoogleServiceAccountDisplayName s) \<le> 100
     \<and> (rest = [] \<or> length (GoogleServiceAccountDisplayName s) = 100)"
proof -
  define t where "t = ''Union service account (project: '' @ saProject s @ '', domain: ''
    @ saDomain s @ '') '' @ saName s"
  have d: "GoogleServiceAccountDisplayName s = take 100 t"
    by (simp add: GoogleServiceAccountDisplayName_def maxServiceAccountDisplayNameLength_def
        t_def Let_def min_def)
  show ?thesis
    unfolding t_def [symmetric] d
    by (rule exI [of _ "drop 100 t"]) (simp add: min_def)
qed

text \<open>
  A project without a dash and its domain are determined by the namespace.
\<close>

lemma Namespace_inj:
  assumes "Namespace u = Namespace v"
    and "CHR ''-'' \<notin> set (envProject u)" and "CHR ''-'' \<notin> set (envProject v)"
  shows "envProject u = envProject v \<and> envDomain u = envDomain v"
  using assms append_sep_eq [of "envProject u" "CHR ''-''" "envDomain u" "envProject v" "envDomain v"]
  by (simp add: Namespace_def)

lemma Namespace_inj_witness:
  "Namespace \<lparr>envUTSAOwnerReference = None, envProject = ''data'', envDomain = ''a-b'',
     envGCPProjectName = ''x''\<rparr>
     = Namespace \<lparr>envUTSAOwnerReference = None, envProject = ''data'', envDomain = ''a-b'',
     envGCPProjectName = ''y''\<rparr>
   \<and> ''data'' = ''data'' \<and> ''a-b'' = ''a-b''"
  using Namespace_inj
    [of "\<lparr>envUTSAOwnerReference = None, envProject = ''data'', envDomain = ''a-b'',
       envGCPProjectName = ''x''\<rparr>"
     "\<lparr>envUTSAOwnerReference = None, envProject = ''data'', envDomain = ''a-b'',
       envGCPProjectName = ''y''\<rparr>"]
  by (simp add: Namespace_def)

text \<open>
  The dashes do not separate the parts of a name safely: two different pairs of
  project and domain can share one namespace, and their accounts of the same name then
  get the same Google service account name, so two teams manage each other's resources.
\<close>

lemma names_collide:
  "\<exists>s t. (saProject s, saDomain s) \<noteq> (saProject t, saDomain t)
     \<and> saName s = saName t
     \<and> Namespace (saUnionEnv s) = Namespace (saUnionEnv t)
     \<and> GoogleServiceAccountName s = GoogleServiceAccountName t"
proof -
  define env where "env p d = \<lparr>envUTSAOwnerReference = None, envProject = p, envDomain = d,
    envGCPProjectName = []\<rparr>" for p d
  let ?s = "ServiceAccountByName (env ''x-x'' ''x'') ''sa''"
  let ?t = "ServiceAccountByName (env ''x'' ''x-x'') ''sa''"
  show ?thesis
    by (rule exI [of _ ?s], rule exI [of _ ?t])
      (simp add: env_def Namespace_def GoogleServiceAccountName_def)
qed

end
