(* ===== verification/IstioModels.thy ===== *)
theory IstioModels
  imports UnionTypes
begin

text \<open>
  \<^verbatim>\<open>internal/istio\<close>, the pure part: the constants, the Istio resources as records
  (the fields the operator sets or reads of the protobuf messages), and the functions
  that build a Gateway, ServiceEntry, VirtualService, DestinationRule and
  AuthorizationPolicy for an external host or a Cloud SQL address.

  The lemmas relate the resources to each other: every destination a VirtualService
  routes to is configured by one of the host's two DestinationRules, a policy names the
  account it was built for and nothing else, and names stay within the limits of
  Kubernetes.
\<close>

section \<open>Constants (\<^verbatim>\<open>constants.go\<close>)\<close>

definition EgressNamespace :: string where
  "EgressNamespace = ''istio-egress''"

definition externalGatewayHost :: string where
  "externalGatewayHost = ''istio-egressgateway-external.istio-egress.svc.cluster.local''"

definition externalGatewayName :: string where
  "externalGatewayName = ''istio-egressgateway-external''"

definition cloudSQLGatewayHost :: string where
  "cloudSQLGatewayHost = ''istio-egressgateway-cloudsql.istio-egress.svc.cluster.local''"

definition cloudSQLGatewayName :: string where
  "cloudSQLGatewayName = ''istio-egressgateway-cloudsql''"

definition meshGatewayName :: string where
  "meshGatewayName = ''mesh''"

definition istioGatewaySelector :: string where
  "istioGatewaySelector = ''egressgateway''"

definition egressToGatewayLabel :: string where
  "egressToGatewayLabel = ''egress-to-gateway''"

definition egressFromGatewayLabel :: string where
  "egressFromGatewayLabel = ''egress-from-gateway''"

definition httpsProtocol :: string where
  "httpsProtocol = ''HTTPS''"

definition tcpProtocol :: string where
  "tcpProtocol = ''TCP''"

definition tlsProtocol :: string where
  "tlsProtocol = ''TLS''"

definition hostTypeLabelExternal :: string where
  "hostTypeLabelExternal = ''external''"

definition hostTypeLabelInternal :: string where
  "hostTypeLabelInternal = ''internal''"

definition managedByLabel :: string where
  "managedByLabel = ''app.kubernetes.io/managed-by''"

definition managedByValue :: string where
  "managedByValue = ''union-operator''"

definition httpPort :: nat where
  "httpPort = 80"

definition httpsPort :: nat where
  "httpsPort = 443"

definition cloudSQLPort :: nat where
  "cloudSQLPort = 3307"

section \<open>Istio resources\<close>

record Port =
  portNumber :: nat
  portName :: string
  portProtocol :: string

datatype ServerTLSMode = PASSTHROUGH | SERVER_SIMPLE | MUTUAL | AUTO_PASSTHROUGH
  | SERVER_ISTIO_MUTUAL | OPTIONAL_MUTUAL

record Server =
  srvPort :: "Port option"
  srvHosts :: "string list"
  srvTls :: "ServerTLSMode option"

record Gateway =
  gwMeta :: ObjectMeta
  gwSelector :: string_map
  gwServers :: "Server list"

datatype Resolution = RESOLUTION_NONE | STATIC | DNS | DNS_ROUND_ROBIN

datatype Location = MESH_EXTERNAL | MESH_INTERNAL

record ServiceEntry =
  seMeta :: ObjectMeta
  seHosts :: "string list"
  seAddresses :: "string list"
  sePorts :: "Port list"
  seLocation :: Location
  seResolution :: Resolution
  seEndpoints :: "string list"
  seExportTo :: "string list"

record Destination =
  dstHost :: string
  dstSubset :: string
  dstPort :: nat

text \<open>\<^verbatim>\<open>HTTPMatchRequest\<close> and \<^verbatim>\<open>L4MatchAttributes\<close>: the gateways and the port matched.\<close>

record RouteMatch =
  matchGateways :: "string list"
  matchPort :: nat

record Route =
  routeMatch :: "RouteMatch list"
  routeDestinations :: "Destination list"

record VirtualService =
  vsMeta :: ObjectMeta
  vsHosts :: "string list"
  vsGateways :: "string list"
  vsHttp :: "Route list"
  vsTcp :: "Route list"

datatype ClientTLSMode = DISABLE | SIMPLE | CLIENT_MUTUAL | ISTIO_MUTUAL

record PortTrafficPolicy =
  ptpPort :: nat
  ptpTlsMode :: ClientTLSMode
  ptpSni :: string

record TrafficPolicy =
  tpPortLevelSettings :: "PortTrafficPolicy list"

record Subset =
  subsetName :: string
  subsetTrafficPolicy :: TrafficPolicy

record DestinationRule =
  drMeta :: ObjectMeta
  drHost :: string
  drTrafficPolicy :: "TrafficPolicy option"
  drSubsets :: "Subset list"

datatype AuthzAction = ALLOW | DENY | AUDIT | CUSTOM

record Operation =
  opHosts :: "string list"
  opPaths :: "string list"

record AuthzCondition =
  acKey :: string
  acValues :: "string list"

record Rule =
  ruleFrom :: "string list list"  \<comment> \<open>the principals of each \<^verbatim>\<open>Rule_From\<close>'s source\<close>
  ruleTo :: "Operation list"
  ruleWhen :: "AuthzCondition list"

record AuthorizationPolicy =
  apMeta :: ObjectMeta
  apAction :: AuthzAction
  apRules :: "Rule list"

section \<open>Gateways (\<^verbatim>\<open>gateway.go\<close>)\<close>

definition newGateway :: "string \<Rightarrow> string \<Rightarrow> Gateway" where
  "newGateway gatewayName host =
     \<lparr>gwMeta = new_meta gatewayName EgressNamespace [managedByLabel \<mapsto> managedByValue],
      gwSelector = [''istio'' \<mapsto> istioGatewaySelector],
      gwServers =
        [\<lparr>srvPort = Some \<lparr>portNumber = 80, portName = ''http-port-for-tls-origination'',
            portProtocol = ''HTTPS''\<rparr>,
          srvHosts = [host],
          srvTls = Some SERVER_ISTIO_MUTUAL\<rparr>]\<rparr>"

definition appendSortedCompact :: "string list \<Rightarrow> string \<Rightarrow> string list" where
  "appendSortedCompact xs val = remdups_adj (sort (xs @ [val]))"

section \<open>Service entries (\<^verbatim>\<open>serviceentry.go\<close>)\<close>

definition newHTTPSServiceEntry :: "Host \<Rightarrow> ServiceEntry" where
  "newHTTPSServiceEntry host =
     \<lparr>seMeta = new_meta (Host_Name host) EgressNamespace
        [''host'' \<mapsto> hostHost host, managedByLabel \<mapsto> managedByValue],
      seHosts = [hostHost host],
      seAddresses = [],
      sePorts =
        [\<lparr>portNumber = 80, portName = ''http'', portProtocol = ''HTTP''\<rparr>,
         \<lparr>portNumber = 443, portName = ''https'', portProtocol = ''HTTPS''\<rparr>],
      seLocation = MESH_EXTERNAL,
      seResolution = DNS,
      seEndpoints = [],
      seExportTo = [''*'']\<rparr>"

text \<open>The location is left unset, which is the enumeration's zero, MESH_EXTERNAL.\<close>

definition newCloudSQLServiceEntry :: "CloudSQLInstance \<Rightarrow> ServiceEntry" where
  "newCloudSQLServiceEntry cloudSQLInstance =
     \<lparr>seMeta = new_meta (CloudSQL_Name cloudSQLInstance) EgressNamespace
        [''host'' \<mapsto> CloudSQL_Host cloudSQLInstance, managedByLabel \<mapsto> managedByValue],
      seHosts = [CloudSQL_Host cloudSQLInstance],
      seAddresses = [sqlIP cloudSQLInstance],
      sePorts = [\<lparr>portNumber = 3307, portName = ''tcp-3307'', portProtocol = ''TCP''\<rparr>],
      seLocation = MESH_EXTERNAL,
      seResolution = STATIC,
      seEndpoints = [sqlIP cloudSQLInstance],
      seExportTo = [''*'']\<rparr>"

section \<open>Virtual services (\<^verbatim>\<open>virtualservice.go\<close>)\<close>

definition newVirtualServiceForExternalHost :: "Host \<Rightarrow> VirtualService" where
  "newVirtualServiceForExternalHost host =
     \<lparr>vsMeta = new_meta (Host_Name host) EgressNamespace
        [''host'' \<mapsto> hostHost host, managedByLabel \<mapsto> managedByValue],
      vsHosts = [hostHost host],
      vsGateways = [meshGatewayName, externalGatewayName],
      vsHttp =
        [\<lparr>routeMatch = [\<lparr>matchGateways = [meshGatewayName], matchPort = 80\<rparr>],
          routeDestinations =
            [\<lparr>dstHost = externalGatewayHost, dstSubset = Host_Name host, dstPort = 80\<rparr>]\<rparr>,
         \<lparr>routeMatch = [\<lparr>matchGateways = [externalGatewayName], matchPort = 80\<rparr>],
          routeDestinations =
            [\<lparr>dstHost = hostHost host, dstSubset = [], dstPort = 443\<rparr>]\<rparr>],
      vsTcp = []\<rparr>"

definition newVirtualServiceForCloudSQLHost :: "CloudSQLInstance \<Rightarrow> VirtualService" where
  "newVirtualServiceForCloudSQLHost cloudSQL =
     \<lparr>vsMeta = new_meta (CloudSQL_Name cloudSQL) EgressNamespace
        [''host'' \<mapsto> CloudSQL_Host cloudSQL, managedByLabel \<mapsto> managedByValue],
      vsHosts = [CloudSQL_Host cloudSQL],
      vsGateways = [meshGatewayName, cloudSQLGatewayName],
      vsHttp = [],
      vsTcp =
        [\<lparr>routeMatch = [\<lparr>matchGateways = [meshGatewayName], matchPort = 3307\<rparr>],
          routeDestinations =
            [\<lparr>dstHost = cloudSQLGatewayHost, dstSubset = CloudSQL_Name cloudSQL,
              dstPort = 3307\<rparr>]\<rparr>,
         \<lparr>routeMatch = [\<lparr>matchGateways = [cloudSQLGatewayName], matchPort = 3307\<rparr>],
          routeDestinations =
            [\<lparr>dstHost = CloudSQL_Host cloudSQL, dstSubset = [], dstPort = 3307\<rparr>]\<rparr>]\<rparr>"

section \<open>Destination rules (\<^verbatim>\<open>destinationrule.go\<close>)\<close>

definition destinationRuleObjectMeta :: "string \<Rightarrow> string \<Rightarrow> string \<Rightarrow> ObjectMeta" where
  "destinationRuleObjectMeta name gatewayLabel hostName =
     new_meta name EgressNamespace
       [''host'' \<mapsto> hostName, ''type'' \<mapsto> gatewayLabel, managedByLabel \<mapsto> managedByValue]"

definition portLevelTrafficPolicy :: "PortTrafficPolicy \<Rightarrow> TrafficPolicy" where
  "portLevelTrafficPolicy p = \<lparr>tpPortLevelSettings = [p]\<rparr>"

definition newDestinationRule ::
    "string \<Rightarrow> string \<Rightarrow> string \<Rightarrow> PortTrafficPolicy \<Rightarrow> DestinationRule" where
  "newDestinationRule name gatewayLabel host portTrafficPolicy =
     \<lparr>drMeta = destinationRuleObjectMeta name gatewayLabel host,
      drHost = host,
      drTrafficPolicy = Some (portLevelTrafficPolicy portTrafficPolicy),
      drSubsets = []\<rparr>"

definition newDestinationRuleWithSubset ::
    "string \<Rightarrow> string \<Rightarrow> string \<Rightarrow> string \<Rightarrow> string \<Rightarrow> PortTrafficPolicy \<Rightarrow> DestinationRule" where
  "newDestinationRuleWithSubset name gatewayLabel targetHost host hostName portTrafficPolicy =
     \<lparr>drMeta = destinationRuleObjectMeta name gatewayLabel host,
      drHost = targetHost,
      drTrafficPolicy = None,
      drSubsets =
        [\<lparr>subsetName = hostName,
          subsetTrafficPolicy = portLevelTrafficPolicy portTrafficPolicy\<rparr>]\<rparr>"

definition newExternalHostDestinationRuleToGateway :: "Host \<Rightarrow> DestinationRule" where
  "newExternalHostDestinationRuleToGateway host =
     newDestinationRuleWithSubset (Host_Name host @ ''-to-gateway'') egressToGatewayLabel
       externalGatewayHost (hostHost host) (Host_Name host)
       \<lparr>ptpPort = httpPort, ptpTlsMode = ISTIO_MUTUAL, ptpSni = hostHost host\<rparr>"

definition newExternalHostDestinationRuleFromGateway :: "Host \<Rightarrow> DestinationRule" where
  "newExternalHostDestinationRuleFromGateway host =
     newDestinationRule (Host_Name host @ ''-from-gateway'') egressFromGatewayLabel
       (hostHost host)
       \<lparr>ptpPort = httpsPort, ptpTlsMode = SIMPLE, ptpSni = hostHost host\<rparr>"

definition newCloudSQLDestinationRuleToGateway :: "CloudSQLInstance \<Rightarrow> DestinationRule" where
  "newCloudSQLDestinationRuleToGateway cloudSQL =
     newDestinationRuleWithSubset (CloudSQL_Name cloudSQL @ ''-to-gateway'')
       egressToGatewayLabel cloudSQLGatewayHost (CloudSQL_Host cloudSQL)
       (CloudSQL_Name cloudSQL)
       \<lparr>ptpPort = cloudSQLPort, ptpTlsMode = ISTIO_MUTUAL, ptpSni = sqlIP cloudSQL\<rparr>"

definition newCloudSQLDestinationRuleFromGateway :: "CloudSQLInstance \<Rightarrow> DestinationRule" where
  "newCloudSQLDestinationRuleFromGateway cloudSQL =
     newDestinationRule (CloudSQL_Name cloudSQL @ ''-from-gateway'') egressFromGatewayLabel
       (CloudSQL_Host cloudSQL)
       \<lparr>ptpPort = cloudSQLPort, ptpTlsMode = DISABLE, ptpSni = []\<rparr>"

section \<open>Authorization policies (\<^verbatim>\<open>authorizationpolicy.go\<close>)\<close>

record authPolicyData =
  apdHostName :: string
  apdHost :: string
  apdPaths :: "string list"

definition authPolicyData_Name :: "authPolicyData \<Rightarrow> ServiceAccount \<Rightarrow> string" where
  "authPolicyData_Name a sa =
     (let name = saProject sa @ ''-'' @ saDomain sa @ ''-'' @ saName sa @ ''-''
            @ ReplaceDots (apdHostName a);
          hash = Sum256 (bytes_of_string name);
          prefixLength = min 57 (length name)
      in take prefixLength name @ ''-'' @ take 5 (EncodeToString hash))"

text \<open>
  \<^verbatim>\<open>strings.ToUpper\<close>, whose result is only compared with ASCII words. Apart from the 26
  ASCII letters, two code points have an ASCII upper case: U+017F (long s, the bytes
  \<^verbatim>\<open>C5 BF\<close>) becomes \<^verbatim>\<open>S\<close> and U+0131 (dotless i, \<^verbatim>\<open>C4 B1\<close>) becomes \<^verbatim>\<open>I\<close>. Every other
  non-ASCII byte sequence stays non-ASCII, so it is left as it is.
\<close>

definition upper_char :: "char \<Rightarrow> char" where
  "upper_char c =
     (if 97 \<le> (of_char c :: nat) \<and> (of_char c :: nat) \<le> 122
      then char_of (of_char c - 32 :: nat) else c)"

fun ToUpper :: "string \<Rightarrow> string" where
  "ToUpper [] = []"
| "ToUpper [c] = [upper_char c]"
| "ToUpper (c # d # s) =
     (if c = CHR 0xC5 \<and> d = CHR 0xBF then CHR ''S'' # ToUpper s
      else if c = CHR 0xC4 \<and> d = CHR 0xB1 then CHR ''I'' # ToUpper s
      else upper_char c # ToUpper (d # s))"

definition sa_principal :: "ServiceAccount \<Rightarrow> string" where
  "sa_principal sa =
     ''cluster.local/ns/'' @ Namespace (saUnionEnv sa) @ ''/sa/'' @ saName sa"

definition newAuthorizationPolicy ::
    "ServiceAccount \<Rightarrow> authPolicyData \<Rightarrow> string \<Rightarrow> string \<Rightarrow> string \<Rightarrow> AuthorizationPolicy res" where
  "newAuthorizationPolicy sa apd parentHost protocol hostTypeLabel =
     (let build = (\<lambda>to when. Ok
            \<lparr>apMeta = new_meta (authPolicyData_Name apd sa) EgressNamespace
               [''project'' \<mapsto> saProject sa,
                ''domain'' \<mapsto> saDomain sa,
                ''service-account'' \<mapsto> saName sa,
                ''host'' \<mapsto> apdHostName apd,
                ''host-type'' \<mapsto> hostTypeLabel,
                ''parent-host'' \<mapsto> parentHost,
                managedByLabel \<mapsto> managedByValue],
             apAction = ALLOW,
             apRules =
               [\<lparr>ruleFrom = [[sa_principal sa]], ruleTo = to, ruleWhen = when\<rparr>]\<rparr>)
      in if ToUpper protocol = httpsProtocol then
           build [\<lparr>opHosts = [apdHost apd], opPaths = apdPaths apd\<rparr>] []
         else if ToUpper protocol = tcpProtocol then
           build [] [\<lparr>acKey = ''connection.sni'', acValues = [apdHost apd]\<rparr>]
         else Err (UnsupportedProtocol protocol))"

section \<open>Host lists of a gateway\<close>

lemma appendSortedCompact_eq:
  "appendSortedCompact xs val = sorted_list_of_set (insert val (set xs))"
  unfolding appendSortedCompact_def by (subst remdups_adj_sort_sorted_list_of_set) simp

lemma set_appendSortedCompact [simp]: "set (appendSortedCompact xs val) = insert val (set xs)"
  by (simp add: appendSortedCompact_def)

lemma appendSortedCompact_idem:
  assumes "val \<in> set xs" and "sorted xs" and "distinct xs"
  shows "appendSortedCompact xs val = xs"
  using assms by (simp only: appendSortedCompact_eq insert_absorb sorted_list_of_set.idem_if_sorted_distinct)

text \<open>
  C29. Adding a host to a gateway's list gives the sorted list without duplicates of the
  old hosts and the new one; the order and the repetitions of the old list do not matter,
  and adding a host that is there again changes nothing.
\<close>

theorem appendSortedCompact_spec:
  "appendSortedCompact xs val = sorted_list_of_set (insert val (set xs))
     \<and> sorted (appendSortedCompact xs val) \<and> distinct (appendSortedCompact xs val)
     \<and> set (appendSortedCompact xs val) = insert val (set xs)
     \<and> appendSortedCompact (appendSortedCompact xs val) val = appendSortedCompact xs val"
proof (intro conjI)
  show "appendSortedCompact xs val = sorted_list_of_set (insert val (set xs))"
    by (rule appendSortedCompact_eq)
  show "sorted (appendSortedCompact xs val)" and "distinct (appendSortedCompact xs val)"
    by (simp_all add: appendSortedCompact_def sorted_remdups_adj_sort distinct_remdups_adj_sort)
  then show "appendSortedCompact (appendSortedCompact xs val) val = appendSortedCompact xs val"
    by (intro appendSortedCompact_idem) simp_all
qed simp

section \<open>Routes and destination rules fit together\<close>

text \<open>
  A rule covers a destination when it configures its host and, at the level of the subset
  the destination names (or of the whole host when it names none), its port.
\<close>

definition policy_sets_port :: "nat \<Rightarrow> TrafficPolicy \<Rightarrow> bool" where
  "policy_sets_port p tp \<longleftrightarrow> p \<in> set (map ptpPort (tpPortLevelSettings tp))"

definition rule_covers :: "DestinationRule \<Rightarrow> Destination \<Rightarrow> bool" where
  "rule_covers dr d \<longleftrightarrow> drHost dr = dstHost d \<and>
     (if dstSubset d = [] then
        (case drTrafficPolicy dr of None \<Rightarrow> False | Some tp \<Rightarrow> policy_sets_port (dstPort d) tp)
      else (\<exists>sub \<in> set (drSubsets dr). subsetName sub = dstSubset d
              \<and> policy_sets_port (dstPort d) (subsetTrafficPolicy sub)))"

definition vs_destinations :: "VirtualService \<Rightarrow> Destination list" where
  "vs_destinations vs = concat (map routeDestinations (vsHttp vs @ vsTcp vs))"

definition routes_covered :: "VirtualService \<Rightarrow> DestinationRule list \<Rightarrow> bool" where
  "routes_covered vs drs \<longleftrightarrow>
     (\<forall>d \<in> set (vs_destinations vs). \<exists>dr \<in> set drs. rule_covers dr d)"

lemmas builder_defs =
  newGateway_def newHTTPSServiceEntry_def newCloudSQLServiceEntry_def
  newVirtualServiceForExternalHost_def newVirtualServiceForCloudSQLHost_def
  newExternalHostDestinationRuleToGateway_def newExternalHostDestinationRuleFromGateway_def
  newCloudSQLDestinationRuleToGateway_def newCloudSQLDestinationRuleFromGateway_def
  newDestinationRule_def newDestinationRuleWithSubset_def destinationRuleObjectMeta_def
  portLevelTrafficPolicy_def

lemmas covered_defs =
  routes_covered_def vs_destinations_def rule_covers_def policy_sets_port_def

lemma Host_Name_eq_Nil [simp]: "Host_Name h = [] \<longleftrightarrow> hostHost h = []"
  by (simp add: Host_Name_def ReplaceDots_def)

lemma CloudSQL_Name_not_Nil [simp]: "CloudSQL_Name c \<noteq> []"
  by (simp add: CloudSQL_Name_def)

text \<open>
  C27. For an external host that is neither empty nor the gateway's own name, each hop of the VirtualService (mesh to egress
  gateway, egress gateway to host) is configured by one of the two DestinationRules
  created with it, at the subset and port the hop uses: no route refers to a subset that
  is not defined, which Istio answers by dropping the traffic. The two rules are not
  interchangeable: without either of them a hop is left uncovered.
\<close>

theorem external_routes_covered:
  assumes "hostHost h \<noteq> []" and "hostHost h \<noteq> externalGatewayHost"
  shows "routes_covered (newVirtualServiceForExternalHost h)
           [newExternalHostDestinationRuleToGateway h, newExternalHostDestinationRuleFromGateway h]
       \<and> \<not> routes_covered (newVirtualServiceForExternalHost h)
           [newExternalHostDestinationRuleToGateway h]
       \<and> \<not> routes_covered (newVirtualServiceForExternalHost h)
           [newExternalHostDestinationRuleFromGateway h]"
  using assms by (auto simp: covered_defs builder_defs httpPort_def httpsPort_def)

theorem external_routes_covered_witness:
  "routes_covered (newVirtualServiceForExternalHost \<lparr>hostHost = ''vg.no'', hostPaths = []\<rparr>)
     [newExternalHostDestinationRuleToGateway \<lparr>hostHost = ''vg.no'', hostPaths = []\<rparr>,
      newExternalHostDestinationRuleFromGateway \<lparr>hostHost = ''vg.no'', hostPaths = []\<rparr>]"
  using external_routes_covered [of "\<lparr>hostHost = ''vg.no'', hostPaths = []\<rparr>"]
  by (simp add: externalGatewayHost_def)

text \<open>
  C28. The same for a Cloud SQL address, whatever its text, on port 3307 at every hop.
\<close>

theorem cloudsql_routes_covered:
  "routes_covered (newVirtualServiceForCloudSQLHost c)
     [newCloudSQLDestinationRuleToGateway c, newCloudSQLDestinationRuleFromGateway c]
   \<and> list_all (\<lambda>d. dstPort d = cloudSQLPort) (vs_destinations (newVirtualServiceForCloudSQLHost c))
   \<and> map portNumber (sePorts (newCloudSQLServiceEntry c)) = [cloudSQLPort]
   \<and> seHosts (newCloudSQLServiceEntry c) = vsHosts (newVirtualServiceForCloudSQLHost c)"
  by (simp add: covered_defs builder_defs cloudSQLPort_def)

text \<open>
  Resource names do not determine the host: the dot becomes a dash, so two different
  hosts can have the same VirtualService, DestinationRule and ServiceEntry names, while
  the gateway and the labels keep them apart.
\<close>

lemma host_names_collide:
  "\<exists>h h'. hostHost h \<noteq> hostHost h'
     \<and> metaName (vsMeta (newVirtualServiceForExternalHost h))
         = metaName (vsMeta (newVirtualServiceForExternalHost h'))
     \<and> metaName (drMeta (newExternalHostDestinationRuleToGateway h))
         = metaName (drMeta (newExternalHostDestinationRuleToGateway h'))
     \<and> metaName (seMeta (newHTTPSServiceEntry h)) = metaName (seMeta (newHTTPSServiceEntry h'))
     \<and> metaLabels (seMeta (newHTTPSServiceEntry h)) \<noteq> metaLabels (seMeta (newHTTPSServiceEntry h'))"
proof -
  let ?h = "\<lparr>hostHost = ''a.b'', hostPaths = []\<rparr>" and ?h' = "\<lparr>hostHost = ''a-b'', hostPaths = []\<rparr>"
  have "metaLabels (seMeta (newHTTPSServiceEntry ?h)) ''host''
      \<noteq> metaLabels (seMeta (newHTTPSServiceEntry ?h')) ''host''"
    by (simp add: builder_defs managedByLabel_def)
  then have "metaLabels (seMeta (newHTTPSServiceEntry ?h))
      \<noteq> metaLabels (seMeta (newHTTPSServiceEntry ?h'))"
    by metis
  then show ?thesis
    by (intro exI [of _ ?h] exI [of _ ?h'])
      (simp add: builder_defs Host_Name_def ReplaceDots_def)
qed

section \<open>Authorization policies\<close>

lemma length_take_min: "length (take (min n (length xs)) xs) \<le> n"
  by simp

text \<open>
  C31. A policy's name has at most 63 bytes, the limit for Kubernetes labels and DNS
  labels, and ends in a dash and five hexadecimal digits.
\<close>

theorem authPolicyData_Name_bound:
  "length (authPolicyData_Name a sa) \<le> 63
   \<and> (\<exists>suffix. authPolicyData_Name a sa
        = take 57 (saProject sa @ ''-'' @ saDomain sa @ ''-'' @ saName sa @ ''-''
             @ ReplaceDots (apdHostName a)) @ ''-'' @ suffix
      \<and> length suffix = 5 \<and> set suffix \<subseteq> set ''0123456789abcdef'')"
proof -
  define n where "n = saProject sa @ ''-'' @ saDomain sa @ ''-'' @ saName sa @ ''-''
    @ ReplaceDots (apdHostName a)"
  have eq: "authPolicyData_Name a sa = take 57 n @ ''-'' @ hash_suffix n"
    by (simp add: authPolicyData_Name_def n_def hash_suffix_def Let_def min_def)
  show ?thesis
    unfolding n_def [symmetric] eq using hash_suffix_alphabet [of n]
    by (auto simp: hex_digits_def)
qed

lemmas protocol_defs = httpsProtocol_def tcpProtocol_def

lemma newAuthorizationPolicy_Ok_cases:
  assumes "newAuthorizationPolicy sa a parent proto ht = Ok ap"
  obtains (https) "ToUpper proto = ''HTTPS''"
      "apRules ap = [\<lparr>ruleFrom = [[sa_principal sa]],
         ruleTo = [\<lparr>opHosts = [apdHost a], opPaths = apdPaths a\<rparr>], ruleWhen = []\<rparr>]"
    | (tcp) "ToUpper proto = ''TCP''"
      "apRules ap = [\<lparr>ruleFrom = [[sa_principal sa]], ruleTo = [],
         ruleWhen = [\<lparr>acKey = ''connection.sni'', acValues = [apdHost a]\<rparr>]\<rparr>]"
  using assms
  by (auto simp: newAuthorizationPolicy_def protocol_defs Let_def split: if_splits)

lemma newAuthorizationPolicy_meta:
  assumes "newAuthorizationPolicy sa a parent proto ht = Ok ap"
  shows "apMeta ap = new_meta (authPolicyData_Name a sa) EgressNamespace
      [''project'' \<mapsto> saProject sa, ''domain'' \<mapsto> saDomain sa, ''service-account'' \<mapsto> saName sa,
       ''host'' \<mapsto> apdHostName a, ''host-type'' \<mapsto> ht, ''parent-host'' \<mapsto> parent,
       managedByLabel \<mapsto> managedByValue]"
    and "apAction ap = ALLOW"
  using assms by (auto simp: newAuthorizationPolicy_def Let_def split: if_splits)

text \<open>
  How Istio evaluates an ALLOW policy, for the parts of a rule the operator writes: a rule
  matches when one of its sources, one of its operations and all of its conditions match,
  an absent list of sources or operations matching everything. The matching of one value
  against a pattern (exact, prefix, suffix or presence) is Istio's, hence the parameter
  \<open>m\<close>.
\<close>

record access =
  accPrincipal :: string
  accHost :: string
  accPath :: string
  accSni :: string

definition operation_matches :: "(string \<Rightarrow> string \<Rightarrow> bool) \<Rightarrow> access \<Rightarrow> Operation \<Rightarrow> bool" where
  "operation_matches m r op \<longleftrightarrow>
     (opHosts op = [] \<or> (\<exists>p \<in> set (opHosts op). m p (accHost r)))
     \<and> (opPaths op = [] \<or> (\<exists>p \<in> set (opPaths op). m p (accPath r)))"

definition condition_matches :: "(string \<Rightarrow> string \<Rightarrow> bool) \<Rightarrow> access \<Rightarrow> AuthzCondition \<Rightarrow> bool" where
  "condition_matches m r c \<longleftrightarrow>
     acKey c = ''connection.sni'' \<and> (\<exists>p \<in> set (acValues c). m p (accSni r))"

definition rule_matches :: "(string \<Rightarrow> string \<Rightarrow> bool) \<Rightarrow> access \<Rightarrow> Rule \<Rightarrow> bool" where
  "rule_matches m r rule \<longleftrightarrow>
     (ruleFrom rule = [] \<or> (\<exists>ps \<in> set (ruleFrom rule). \<exists>p \<in> set ps. m p (accPrincipal r)))
     \<and> (ruleTo rule = [] \<or> (\<exists>op \<in> set (ruleTo rule). operation_matches m r op))
     \<and> (\<forall>c \<in> set (ruleWhen rule). condition_matches m r c)"

definition policy_allows :: "(string \<Rightarrow> string \<Rightarrow> bool) \<Rightarrow> AuthorizationPolicy \<Rightarrow> access \<Rightarrow> bool" where
  "policy_allows m ap r \<longleftrightarrow> apAction ap = ALLOW \<and> (\<exists>rule \<in> set (apRules ap). rule_matches m r rule)"

lemmas policy_defs =
  policy_allows_def rule_matches_def operation_matches_def condition_matches_def

text \<open>
  C22. What a policy grants. A policy is built exactly for the protocols HTTPS and TCP, in
  any case; any other protocol is reported back as it was given. An HTTPS policy admits a
  request when and only when it comes from the account's principal, goes to the host and,
  if the allowlist names paths, to one of them; a TCP policy looks at the principal and
  the TLS server name only, so it takes no notice of paths.
\<close>

theorem newAuthorizationPolicy_grants:
  "case newAuthorizationPolicy sa a parent proto ht of
     Ok ap \<Rightarrow> ToUpper proto \<in> {''HTTPS'', ''TCP''}
       \<and> (\<forall>m r. policy_allows m ap r \<longleftrightarrow> m (sa_principal sa) (accPrincipal r)
            \<and> (if ToUpper proto = ''HTTPS''
               then m (apdHost a) (accHost r)
                 \<and> (apdPaths a = [] \<or> (\<exists>p \<in> set (apdPaths a). m p (accPath r)))
               else m (apdHost a) (accSni r)))
   | Err e \<Rightarrow> ToUpper proto \<notin> {''HTTPS'', ''TCP''} \<and> e = UnsupportedProtocol proto
   | Panic \<Rightarrow> False"
  by (auto simp: newAuthorizationPolicy_def protocol_defs policy_defs Let_def)

end
