(* ===== verification/Cluster.thy ===== *)
theory Cluster
  imports IstioModels
begin

text \<open>
  The Kubernetes API as the operator sees it: the objects it handles, the interface
  \<^verbatim>\<open>client.Client\<close> of controller-runtime, and the log of the calls made through it.

  The client is third-party code, so it is a parameter: a record of functions over a state
  \<open>'s\<close> of its own, about which nothing is assumed. Every wrapper \<open>k8s_*\<close> calls
  the client and appends the call with its reply to the log, so a theorem over the log
  holds for any client, however it answers.

  What the theorems about the cluster's contents need is the documented behaviour of the
  API server, stated in two locales. \<open>kube_api\<close> is what also holds for a client that
  reads from an informer cache: a write has its effect on its own object only, a failed
  write may have been applied or not, an object that is found is the current one, but a
  read may miss objects created recently. \<open>kube_fresh\<close> adds that reads are complete.
\<close>

section \<open>Objects\<close>

record K8sServiceAccount =
  ksaMeta :: ObjectMeta
  ksaImagePullSecrets :: "string list"

datatype kind = UTSAKind | ServiceAccountKind | IAMServiceAccountKind | IAMPolicyMemberKind
  | GatewayKind | ServiceEntryKind | VirtualServiceKind | DestinationRuleKind
  | AuthorizationPolicyKind

datatype object =
    UTSAObj UnionTeamServiceAccounts
  | ServiceAccountObj K8sServiceAccount
  | IAMServiceAccountObj IAMServiceAccount
  | IAMPolicyMemberObj IAMPolicyMember
  | GatewayObj Gateway
  | ServiceEntryObj ServiceEntry
  | VirtualServiceObj VirtualService
  | DestinationRuleObj DestinationRule
  | AuthorizationPolicyObj AuthorizationPolicy

fun kind_of :: "object \<Rightarrow> kind" where
  "kind_of (UTSAObj x) = UTSAKind"
| "kind_of (ServiceAccountObj x) = ServiceAccountKind"
| "kind_of (IAMServiceAccountObj x) = IAMServiceAccountKind"
| "kind_of (IAMPolicyMemberObj x) = IAMPolicyMemberKind"
| "kind_of (GatewayObj x) = GatewayKind"
| "kind_of (ServiceEntryObj x) = ServiceEntryKind"
| "kind_of (VirtualServiceObj x) = VirtualServiceKind"
| "kind_of (DestinationRuleObj x) = DestinationRuleKind"
| "kind_of (AuthorizationPolicyObj x) = AuthorizationPolicyKind"

fun meta_of :: "object \<Rightarrow> ObjectMeta" where
  "meta_of (UTSAObj x) = utsaMeta x"
| "meta_of (ServiceAccountObj x) = ksaMeta x"
| "meta_of (IAMServiceAccountObj x) = iamMeta x"
| "meta_of (IAMPolicyMemberObj x) = pmMeta x"
| "meta_of (GatewayObj x) = gwMeta x"
| "meta_of (ServiceEntryObj x) = seMeta x"
| "meta_of (VirtualServiceObj x) = vsMeta x"
| "meta_of (DestinationRuleObj x) = drMeta x"
| "meta_of (AuthorizationPolicyObj x) = apMeta x"

fun set_meta :: "ObjectMeta \<Rightarrow> object \<Rightarrow> object" where
  "set_meta m (UTSAObj x) = UTSAObj (x\<lparr>utsaMeta := m\<rparr>)"
| "set_meta m (ServiceAccountObj x) = ServiceAccountObj (x\<lparr>ksaMeta := m\<rparr>)"
| "set_meta m (IAMServiceAccountObj x) = IAMServiceAccountObj (x\<lparr>iamMeta := m\<rparr>)"
| "set_meta m (IAMPolicyMemberObj x) = IAMPolicyMemberObj (x\<lparr>pmMeta := m\<rparr>)"
| "set_meta m (GatewayObj x) = GatewayObj (x\<lparr>gwMeta := m\<rparr>)"
| "set_meta m (ServiceEntryObj x) = ServiceEntryObj (x\<lparr>seMeta := m\<rparr>)"
| "set_meta m (VirtualServiceObj x) = VirtualServiceObj (x\<lparr>vsMeta := m\<rparr>)"
| "set_meta m (DestinationRuleObj x) = DestinationRuleObj (x\<lparr>drMeta := m\<rparr>)"
| "set_meta m (AuthorizationPolicyObj x) = AuthorizationPolicyObj (x\<lparr>apMeta := m\<rparr>)"

lemma meta_of_set_meta [simp]: "meta_of (set_meta m ob) = m"
  by (cases ob) simp_all

lemma kind_of_set_meta [simp]: "kind_of (set_meta m ob) = kind_of ob"
  by (cases ob) simp_all

lemma set_meta_meta_of [simp]: "set_meta (meta_of ob) ob = ob"
  by (cases ob) simp_all

lemma set_meta_set_meta [simp]: "set_meta m (set_meta m' ob) = set_meta m ob"
  by (cases ob) simp_all

type_synonym key = "string \<times> string"  \<comment> \<open>namespace, name\<close>

type_synonym obj_ref = "kind \<times> key"

abbreviation name_of :: "object \<Rightarrow> string" where
  "name_of ob \<equiv> metaName (meta_of ob)"

abbreviation namespace_of :: "object \<Rightarrow> string" where
  "namespace_of ob \<equiv> metaNamespace (meta_of ob)"

abbreviation labels_of :: "object \<Rightarrow> string_map" where
  "labels_of ob \<equiv> metaLabels (meta_of ob)"

definition ref_of :: "object \<Rightarrow> obj_ref" where
  "ref_of ob = (kind_of ob, (namespace_of ob, name_of ob))"

lemma ref_of_set_meta:
  "metaName m = name_of ob \<Longrightarrow> metaNamespace m = namespace_of ob
     \<Longrightarrow> ref_of (set_meta m ob) = ref_of ob"
  by (simp add: ref_of_def)

text \<open>
  The typed variable a read decodes into: an object of another kind leaves it at its zero
  value.
\<close>

fun as_UTSA :: "object \<Rightarrow> UnionTeamServiceAccounts" where
  "as_UTSA (UTSAObj x) = x"
| "as_UTSA _ = \<lparr>utsaMeta = zero_meta,
     utsaSpec = \<lparr>specProject = [], specDomain = [], specServiceAccounts = []\<rparr>,
     utsaStatusConditions = []\<rparr>"

fun as_Gateway :: "object \<Rightarrow> Gateway" where
  "as_Gateway (GatewayObj x) = x"
| "as_Gateway _ = \<lparr>gwMeta = zero_meta, gwSelector = Map.empty, gwServers = []\<rparr>"

section \<open>The client\<close>

text \<open>List options: \<^verbatim>\<open>client.InNamespace\<close> and \<^verbatim>\<open>client.MatchingLabels\<close>.\<close>

record list_opts =
  loNamespace :: "string option"
  loLabels :: "(string \<times> string) list"

definition lo_matches :: "list_opts \<Rightarrow> object \<Rightarrow> bool" where
  "lo_matches lo ob \<longleftrightarrow>
     (case loNamespace lo of None \<Rightarrow> True | Some ns \<Rightarrow> namespace_of ob = ns)
     \<and> list_all (\<lambda>(k, v). labels_of ob k = Some v) (loLabels lo)"

text \<open>
  \<^verbatim>\<open>Update\<close> writes the server's answer back into its argument, so it returns an object.
  \<^verbatim>\<open>Patch\<close> gets the modified object and the base of \<^verbatim>\<open>client.MergeFrom\<close>.
  \<^verbatim>\<open>controllerutil.CreateOrUpdate\<close> is a function of the same library and gets the
  mutation as a function.
\<close>

record 's client =
  cGet :: "kind \<Rightarrow> key \<Rightarrow> 's \<Rightarrow> (api_error + object) \<times> 's"
  cList :: "kind \<Rightarrow> list_opts \<Rightarrow> 's \<Rightarrow> (api_error + object list) \<times> 's"
  cCreate :: "object \<Rightarrow> 's \<Rightarrow> api_error option \<times> 's"
  cUpdate :: "object \<Rightarrow> 's \<Rightarrow> (api_error + object) \<times> 's"
  cPatch :: "object \<Rightarrow> object \<Rightarrow> 's \<Rightarrow> api_error option \<times> 's"
  cDelete :: "object \<Rightarrow> 's \<Rightarrow> api_error option \<times> 's"
  cCreateOrUpdate :: "object \<Rightarrow> (object \<Rightarrow> object res) \<Rightarrow> 's \<Rightarrow> unit res \<times> 's"

text \<open>
  The log. The BigQuery calls are made by the allowlist persister; they are in the same
  log because their order with respect to the writes to the cluster matters.
\<close>

record AllowlistTableEntry =
  ateTeam :: string
  ateEnvironment :: string
  ateServiceAccount :: string
  ateInternalAllowlist :: "string list"
  ateExternalAllowlist :: "string list"
  ateCloudSQLAllowlist :: "string list"
  ateGithubActor :: string
  ateGithubRepo :: string
  ateGithubHash :: string
  ateCreatedTimestamp :: "int option"  \<comment> \<open>\<^verbatim>\<open>bigquery.NullTimestamp\<close>: None is not valid\<close>

datatype bq_type = StringFieldType | TimestampFieldType

record bq_field =
  fieldName :: string
  fieldType :: bq_type
  fieldRequired :: bool
  fieldRepeated :: bool

datatype event =
    EGet kind key "api_error + object"
  | EList kind list_opts "api_error + object list"
  | ECreate object "api_error option"
  | EUpdate object "api_error + object"
  | EPatch object object "api_error option"
  | EDelete object "api_error option"
  | ECreateOrUpdate object "object \<Rightarrow> object res" "unit res"
  | EBQNewClient string "bq_error option"
  | EBQCreateTable string string string "bq_field list" "bq_error option"
  | EBQPut string string string AllowlistTableEntry "bq_error option"
  | EBQClose "bq_error option"

record 's world =
  ext :: 's
  events :: "event list"

definition call :: "('s \<Rightarrow> 'r \<times> 's) \<Rightarrow> ('r \<Rightarrow> event) \<Rightarrow> ('s world, 'r) go" where
  "call f ev = (\<lambda>w. case f (ext w) of
     (r, s') \<Rightarrow> (Ok r, w\<lparr>ext := s', events := events w @ [ev r]\<rparr>))"

definition k8s_Get :: "'s client \<Rightarrow> kind \<Rightarrow> key \<Rightarrow> ('s world, api_error + object) go" where
  "k8s_Get c k key = call (cGet c k key) (EGet k key)"

definition k8s_List :: "'s client \<Rightarrow> kind \<Rightarrow> list_opts \<Rightarrow> ('s world, api_error + object list) go" where
  "k8s_List c k lo = call (cList c k lo) (EList k lo)"

definition k8s_Create :: "'s client \<Rightarrow> object \<Rightarrow> ('s world, api_error option) go" where
  "k8s_Create c ob = call (cCreate c ob) (ECreate ob)"

definition k8s_Update :: "'s client \<Rightarrow> object \<Rightarrow> ('s world, api_error + object) go" where
  "k8s_Update c ob = call (cUpdate c ob) (EUpdate ob)"

definition k8s_Patch :: "'s client \<Rightarrow> object \<Rightarrow> object \<Rightarrow> ('s world, api_error option) go" where
  "k8s_Patch c ob base = call (cPatch c ob base) (EPatch ob base)"

definition k8s_Delete :: "'s client \<Rightarrow> object \<Rightarrow> ('s world, api_error option) go" where
  "k8s_Delete c ob = call (cDelete c ob) (EDelete ob)"

definition k8s_CreateOrUpdate ::
    "'s client \<Rightarrow> object \<Rightarrow> (object \<Rightarrow> object res) \<Rightarrow> ('s world, unit) go" where
  "k8s_CreateOrUpdate c ob f =
     go_bind (call (cCreateOrUpdate c ob f) (ECreateOrUpdate ob f)) go_lift"

text \<open>\<^verbatim>\<open>if err != nil { return err }\<close> on a reply.\<close>

definition check_reply :: "api_error + 'a \<Rightarrow> ('w, 'a) go" where
  "check_reply r = (case r of Inl e \<Rightarrow> go_err (ApiError e) | Inr x \<Rightarrow> go_return x)"

definition check_error :: "api_error option \<Rightarrow> ('w, unit) go" where
  "check_error r = (case r of Some e \<Rightarrow> go_err (ApiError e) | None \<Rightarrow> go_return ())"

lemmas call_defs =
  k8s_Get_def k8s_List_def k8s_Create_def k8s_Update_def k8s_Patch_def k8s_Delete_def
  k8s_CreateOrUpdate_def call_def check_reply_def check_error_def

lemma check_reply_Ok [simp]: "check_reply r w = (Ok x, w') \<longleftrightarrow> r = Inr x \<and> w' = w"
  by (auto simp: check_reply_def split: sum.splits)

lemma check_error_Ok [simp]: "check_error r w = (Ok u, w') \<longleftrightarrow> r = None \<and> w' = w"
  by (auto simp: check_error_def split: option.splits)

section \<open>Effects on the log\<close>

text \<open>The events of a run, all satisfying \<open>P\<close>.\<close>

definition emits_rel :: "(event \<Rightarrow> bool) \<Rightarrow> 's world \<Rightarrow> 's world \<Rightarrow> bool" where
  "emits_rel P w w' \<longleftrightarrow> (\<exists>es. events w' = events w @ es \<and> list_all P es)"

interpretation emits: effect_order "emits_rel P" for P
proof unfold_locales
  show "emits_rel P w w" for w by (simp add: emits_rel_def)
  show "emits_rel P w1 w2 \<Longrightarrow> emits_rel P w2 w3 \<Longrightarrow> emits_rel P w1 w3" for w1 w2 w3
    by (auto simp: emits_rel_def)
qed

abbreviation emits :: "(event \<Rightarrow> bool) \<Rightarrow> ('s world, 'a) go \<Rightarrow> bool" where
  "emits P m \<equiv> safe (emits_rel P) m"

lemma emits_mono: "emits P m \<Longrightarrow> (\<And>e. P e \<Longrightarrow> Q e) \<Longrightarrow> emits Q m"
  by (erule safe_mono) (auto simp: emits_rel_def list_all_iff)

lemma emits_conj: "emits P m \<Longrightarrow> emits Q m \<Longrightarrow> emits (\<lambda>e. P e \<and> Q e) m"
  unfolding safe_def emits_rel_def list_all_iff by (metis same_append_eq)

lemma emits_call: "(\<And>r. P (ev r)) \<Longrightarrow> emits P (call f ev)"
  by (auto simp: safe_def call_def emits_rel_def split: prod.splits)

lemma emits_check [intro!, simp]: "emits P (check_reply r)" "emits P (check_error u)"
  by (auto simp: check_reply_def check_error_def split: sum.splits option.splits)

lemma emits_Get: "(\<And>r. P (EGet k key r)) \<Longrightarrow> emits P (k8s_Get c k key)"
  unfolding k8s_Get_def by (rule emits_call)

lemma emits_List: "(\<And>r. P (EList k lo r)) \<Longrightarrow> emits P (k8s_List c k lo)"
  unfolding k8s_List_def by (rule emits_call)

lemma emits_Create: "(\<And>r. P (ECreate ob r)) \<Longrightarrow> emits P (k8s_Create c ob)"
  unfolding k8s_Create_def by (rule emits_call)

lemma emits_Update: "(\<And>r. P (EUpdate ob r)) \<Longrightarrow> emits P (k8s_Update c ob)"
  unfolding k8s_Update_def by (rule emits_call)

lemma emits_Patch: "(\<And>r. P (EPatch ob base r)) \<Longrightarrow> emits P (k8s_Patch c ob base)"
  unfolding k8s_Patch_def by (rule emits_call)

lemma emits_Delete: "(\<And>r. P (EDelete ob r)) \<Longrightarrow> emits P (k8s_Delete c ob)"
  unfolding k8s_Delete_def by (rule emits_call)

lemma emits_CreateOrUpdate:
  "(\<And>r. P (ECreateOrUpdate ob f r)) \<Longrightarrow> emits P (k8s_CreateOrUpdate c ob f)"
  unfolding k8s_CreateOrUpdate_def by (intro emits.safe_bind emits_call) auto

lemmas emits_rules =
  emits.safe_rules emits_Get emits_List emits_Create emits_Update emits_Patch emits_Delete
  emits_CreateOrUpdate

text \<open>The kinds of call an event records.\<close>

fun is_write :: "event \<Rightarrow> bool" where
  "is_write (ECreate _ _) = True"
| "is_write (EUpdate _ _) = True"
| "is_write (EPatch _ _ _) = True"
| "is_write (EDelete _ _) = True"
| "is_write (ECreateOrUpdate _ _ _) = True"
| "is_write _ = False"

fun is_bigquery :: "event \<Rightarrow> bool" where
  "is_bigquery (EBQNewClient _ _) = True"
| "is_bigquery (EBQCreateTable _ _ _ _ _) = True"
| "is_bigquery (EBQPut _ _ _ _ _) = True"
| "is_bigquery (EBQClose _) = True"
| "is_bigquery _ = False"

end
