(* ===== verification/ApiContract.thy ===== *)
theory ApiContract
  imports Cluster
begin

text \<open>
  The documented behaviour of the Kubernetes API, as laws over the contents of the
  cluster: a partial map from references (kind, namespace, name) to objects. \<open>kube_api\<close>
  and \<open>kube_fresh\<close> are the interfaces the components' theorems about the cluster rest
  on; nobody else writes to the cluster during a run. \<open>MemStore\<close> interprets both.
\<close>

section \<open>The effect of a write on the contents\<close>

type_synonym contents = "obj_ref \<rightharpoonup> object"

text \<open>
  The server sets the UID and the creation time of an object. It removes an object marked
  for deletion once its last finalizer is gone, so no such object is ever stored.
\<close>

definition unstamp :: "object \<Rightarrow> object" where
  "unstamp ob = set_meta ((meta_of ob)\<lparr>metaUID := [], metaCreationTimestamp := 0\<rparr>) ob"

definition stamped :: "object \<Rightarrow> object \<Rightarrow> bool" where
  "stamped ob ob' \<longleftrightarrow> unstamp ob = unstamp ob'"

definition removable :: "object \<Rightarrow> bool" where
  "removable ob \<longleftrightarrow> metaDeletionTimestamp (meta_of ob) \<noteq> None \<and> metaFinalizers (meta_of ob) = []"

definition stored_as :: "object \<Rightarrow> contents \<Rightarrow> contents \<Rightarrow> bool" where
  "stored_as ob m m' \<longleftrightarrow>
     (\<exists>ob'. stamped ob ob' \<and> m' = m(ref_of ob \<mapsto> ob'))"

definition created :: "object \<Rightarrow> contents \<Rightarrow> contents \<Rightarrow> bool" where
  "created ob m m' \<longleftrightarrow> m (ref_of ob) = None \<and> stored_as ob m m'"

definition updated :: "object \<Rightarrow> object \<Rightarrow> contents \<Rightarrow> contents \<Rightarrow> bool" where
  "updated ob ob' m m' \<longleftrightarrow> m (ref_of ob) \<noteq> None \<and> stamped ob ob'
     \<and> m' = (if removable ob then m(ref_of ob := None) else m(ref_of ob \<mapsto> ob'))"

definition patched :: "object \<Rightarrow> object \<Rightarrow> contents \<Rightarrow> contents \<Rightarrow> bool" where
  "patched ob base m m' \<longleftrightarrow>
     (\<exists>old ob'. m (ref_of ob) = Some old \<and> ref_of ob' = ref_of ob
        \<and> (stamped base old \<longrightarrow> stamped ob ob') \<and> m' = m(ref_of ob \<mapsto> ob'))"

definition terminating :: "int \<Rightarrow> object \<Rightarrow> object" where
  "terminating t ob = set_meta ((meta_of ob)\<lparr>metaDeletionTimestamp := Some t\<rparr>) ob"

definition deleted :: "object \<Rightarrow> contents \<Rightarrow> contents \<Rightarrow> bool" where
  "deleted ob m m' \<longleftrightarrow>
     (\<exists>old. m (ref_of ob) = Some old
        \<and> (if metaFinalizers (meta_of old) = [] then m' = m(ref_of ob := None)
           else \<exists>t. m' = m(ref_of ob \<mapsto> terminating t old)))"

text \<open>\<^verbatim>\<open>CreateOrUpdate\<close> applies the mutation to the stored object, or to the template.\<close>

definition upserted :: "object \<Rightarrow> (object \<Rightarrow> object res) \<Rightarrow> contents \<Rightarrow> contents \<Rightarrow> bool" where
  "upserted ob f m m' \<longleftrightarrow>
     (\<exists>ob1. f (case m (ref_of ob) of None \<Rightarrow> ob | Some old \<Rightarrow> old) = Ok ob1
        \<and> ref_of ob1 = ref_of ob \<and> \<not> removable ob1 \<and> stored_as ob1 m m')"

section \<open>The interfaces\<close>

locale kube_api =
  fixes c :: "'s client" and store :: "'s \<Rightarrow> contents"
  assumes store_ref: "store s ref = Some ob \<Longrightarrow> ref_of ob = ref"
    and store_live: "store s ref = Some ob \<Longrightarrow> \<not> removable ob"
    and get: "cGet c k key s = (r_g, s') \<Longrightarrow> store s' = store s
      \<and> (\<forall>ob. r_g = Inr ob \<longrightarrow> store s (k, key) = Some ob)"
    and list: "cList c k lo s = (r_l, s') \<Longrightarrow> store s' = store s
      \<and> (\<forall>obs. r_l = Inr obs \<longrightarrow>
           (\<forall>ob \<in> set obs. kind_of ob = k \<and> lo_matches lo ob \<and> store s (ref_of ob) = Some ob))"
    and create: "cCreate c ob s = (r_cr, s') \<Longrightarrow> (case r_cr of
        None \<Rightarrow> created ob (store s) (store s')
      | Some e \<Rightarrow> (if IsAlreadyExists e then store s' = store s \<and> store s (ref_of ob) \<noteq> None
                   else store s' = store s \<or> created ob (store s) (store s')))"
    and update: "cUpdate c ob s = (r_u, s') \<Longrightarrow> (case r_u of
        Inr ob' \<Rightarrow> updated ob ob' (store s) (store s')
      | Inl e \<Rightarrow> store s' = store s \<or> (\<exists>ob'. updated ob ob' (store s) (store s')))"
    and patch: "cPatch c ob base s = (r_p, s') \<Longrightarrow> (case r_p of
        None \<Rightarrow> patched ob base (store s) (store s')
      | Some e \<Rightarrow> store s' = store s \<or> patched ob base (store s) (store s'))"
    and delete: "cDelete c ob s = (r_d, s') \<Longrightarrow> (case r_d of
        None \<Rightarrow> deleted ob (store s) (store s')
      | Some e \<Rightarrow> (if IsNotFound e then store s' = store s \<and> store s (ref_of ob) = None
                   else store s' = store s \<or> deleted ob (store s) (store s')))"
    and upsert: "cCreateOrUpdate c ob f s = (r_up, s') \<Longrightarrow> (case r_up of
        Ok u \<Rightarrow> upserted ob f (store s) (store s')
      | _ \<Rightarrow> store s' = store s \<or> upserted ob f (store s) (store s'))"

locale kube_fresh = kube_api c store for c :: "'s client" and store :: "'s \<Rightarrow> contents" +
  assumes get_complete:
      "cGet c k key s = (Inl e, s') \<Longrightarrow> IsNotFound e \<Longrightarrow> store s (k, key) = None"
    and list_complete:
      "cList c k lo s = (Inr obs, s') \<Longrightarrow> store s ref = Some ob \<Longrightarrow> kind_of ob = k
         \<Longrightarrow> lo_matches lo ob \<Longrightarrow> ob \<in> set obs"

section \<open>Consequences\<close>

lemma unstamp_sel [simp]:
  "kind_of (unstamp ob) = kind_of ob"
  "name_of (unstamp ob) = name_of ob"
  "namespace_of (unstamp ob) = namespace_of ob"
  "labels_of (unstamp ob) = labels_of ob"
  "metaAnnotations (meta_of (unstamp ob)) = metaAnnotations (meta_of ob)"
  "metaFinalizers (meta_of (unstamp ob)) = metaFinalizers (meta_of ob)"
  "metaDeletionTimestamp (meta_of (unstamp ob)) = metaDeletionTimestamp (meta_of ob)"
  "metaOwnerReferences (meta_of (unstamp ob)) = metaOwnerReferences (meta_of ob)"
  by (simp_all add: unstamp_def)

lemma stamped_refl [simp]: "stamped ob ob"
  by (simp add: stamped_def)

lemma stamped_sym: "stamped ob ob' \<Longrightarrow> stamped ob' ob"
  by (simp add: stamped_def)

lemma stamped_trans: "stamped a b \<Longrightarrow> stamped b c \<Longrightarrow> stamped a c"
  by (simp add: stamped_def)

lemma stampedD:
  assumes "stamped ob ob'"
  shows "kind_of ob' = kind_of ob" "name_of ob' = name_of ob"
    "namespace_of ob' = namespace_of ob" "labels_of ob' = labels_of ob"
    "metaAnnotations (meta_of ob') = metaAnnotations (meta_of ob)"
    "metaFinalizers (meta_of ob') = metaFinalizers (meta_of ob)"
    "metaDeletionTimestamp (meta_of ob') = metaDeletionTimestamp (meta_of ob)"
    "metaOwnerReferences (meta_of ob') = metaOwnerReferences (meta_of ob)"
  using assms unfolding stamped_def by (metis unstamp_sel)+

lemma stamped_ref: "stamped ob ob' \<Longrightarrow> ref_of ob' = ref_of ob"
  by (simp add: ref_of_def stampedD)

lemma stamped_matches: "stamped ob ob' \<Longrightarrow> lo_matches lo ob' = lo_matches lo ob"
  by (simp add: lo_matches_def stampedD cong: option.case_cong)

lemma stamped_removable: "stamped ob ob' \<Longrightarrow> removable ob' = removable ob"
  by (simp add: removable_def stampedD)

text \<open>The specification part of a gateway, which no server writes.\<close>

lemma Gateway_meta_update_eq:
  "g\<lparr>gwMeta := a\<rparr> = h\<lparr>gwMeta := b\<rparr> \<Longrightarrow> gwServers g = gwServers h \<and> gwSelector g = gwSelector h"
  by (cases g, cases h) simp

lemma stamped_GatewayD:
  assumes "stamped (GatewayObj g) ob'"
  obtains g' where "ob' = GatewayObj g'" "gwServers g' = gwServers g" "gwSelector g' = gwSelector g"
  using assms
  by (cases ob') (auto simp: stamped_def unstamp_def dest!: Gateway_meta_update_eq)

section \<open>Programs and the contents of the cluster\<close>

text \<open>A relation between contents, lifted to worlds.\<close>

definition on_store :: "('s \<Rightarrow> contents) \<Rightarrow> (contents \<Rightarrow> contents \<Rightarrow> bool) \<Rightarrow> 's world \<Rightarrow> 's world \<Rightarrow> bool"
  where "on_store store S w w' \<longleftrightarrow> S (store (ext w)) (store (ext w'))"

lemma effect_order_on_store:
  "(\<And>m. S m m) \<Longrightarrow> (\<And>m m' m''. S m m' \<Longrightarrow> S m' m'' \<Longrightarrow> S m m'')
     \<Longrightarrow> effect_order (on_store store S)"
  by unfold_locales (auto simp: on_store_def)

context kube_api
begin

text \<open>What each call does to the contents, on every outcome.\<close>

lemma safe_Get: "(\<And>m. S m m) \<Longrightarrow> safe (on_store store S) (k8s_Get c k key)"
  by (auto simp: safe_def call_defs on_store_def dest: get split: prod.splits)

lemma safe_List: "(\<And>m. S m m) \<Longrightarrow> safe (on_store store S) (k8s_List c k lo)"
  by (auto simp: safe_def call_defs on_store_def dest: list split: prod.splits)

lemma safe_Create:
  "(\<And>m. S m m) \<Longrightarrow> (\<And>m m'. created ob m m' \<Longrightarrow> S m m')
     \<Longrightarrow> safe (on_store store S) (k8s_Create c ob)"
  by (auto simp: safe_def call_defs on_store_def dest!: create
      split: prod.splits option.splits if_splits)

lemma safe_Update:
  "(\<And>m. S m m) \<Longrightarrow> (\<And>m m' ob'. updated ob ob' m m' \<Longrightarrow> S m m')
     \<Longrightarrow> safe (on_store store S) (k8s_Update c ob)"
  by (auto simp: safe_def call_defs on_store_def dest!: update
      split: prod.splits sum.splits)

lemma safe_Patch:
  "(\<And>m. S m m) \<Longrightarrow> (\<And>m m'. patched ob base m m' \<Longrightarrow> S m m')
     \<Longrightarrow> safe (on_store store S) (k8s_Patch c ob base)"
  by (auto simp: safe_def call_defs on_store_def dest!: patch
      split: prod.splits option.splits)

lemma safe_Delete:
  "(\<And>m. S m m) \<Longrightarrow> (\<And>m m'. deleted ob m m' \<Longrightarrow> S m m')
     \<Longrightarrow> safe (on_store store S) (k8s_Delete c ob)"
  by (auto simp: safe_def call_defs on_store_def dest!: delete
      split: prod.splits option.splits if_splits)

lemma safe_CreateOrUpdate:
  "(\<And>m. S m m) \<Longrightarrow> (\<And>m m'. upserted ob f m m' \<Longrightarrow> S m m')
     \<Longrightarrow> safe (on_store store S) (k8s_CreateOrUpdate c ob f)"
  by (auto simp: safe_def call_defs on_store_def go_defs dest!: upsert
      split: prod.splits res.splits)

lemma safe_check [simp]:
  "(\<And>m. S m m) \<Longrightarrow> safe (on_store store S) (check_reply r)"
  "(\<And>m. S m m) \<Longrightarrow> safe (on_store store S) (check_error u)"
  by (auto simp: safe_def check_reply_def check_error_def on_store_def go_defs
      split: sum.splits option.splits)

text \<open>What each call establishes when it returns.\<close>

lemma Get_OkD:
  assumes "k8s_Get c k key w = (r, w')"
  obtains x where "r = Ok x" "store (ext w') = store (ext w)"
    "\<And>ob. x = Inr ob \<Longrightarrow> store (ext w) (k, key) = Some ob"
  using assms by (auto simp: call_defs dest: get split: prod.splits)

lemma List_OkD:
  assumes "k8s_List c k lo w = (r, w')"
  obtains x where "r = Ok x" "store (ext w') = store (ext w)"
    "\<And>obs ob. x = Inr obs \<Longrightarrow> ob \<in> set obs
       \<Longrightarrow> kind_of ob = k \<and> lo_matches lo ob \<and> store (ext w) (ref_of ob) = Some ob"
  using assms by (auto simp: call_defs dest: list split: prod.splits)

lemma Create_OkD:
  assumes "k8s_Create c ob w = (Ok x, w')"
  shows "x = None \<Longrightarrow> created ob (store (ext w)) (store (ext w'))"
    and "x = Some e \<Longrightarrow> IsAlreadyExists e
       \<Longrightarrow> store (ext w') = store (ext w) \<and> store (ext w) (ref_of ob) \<noteq> None"
  using assms by (auto simp: call_defs dest!: create split: prod.splits)

lemma Update_OkD:
  assumes "k8s_Update c ob w = (Ok (Inr ob'), w')"
  shows "updated ob ob' (store (ext w)) (store (ext w'))"
  using assms by (auto simp: call_defs dest!: update split: prod.splits)

lemma Patch_OkD:
  assumes "k8s_Patch c ob base w = (Ok None, w')"
  shows "patched ob base (store (ext w)) (store (ext w'))"
  using assms by (auto simp: call_defs dest!: patch split: prod.splits)

lemma Delete_OkD:
  assumes "k8s_Delete c ob w = (Ok x, w')"
  shows "x = None \<Longrightarrow> deleted ob (store (ext w)) (store (ext w'))"
    and "x = Some e \<Longrightarrow> IsNotFound e
       \<Longrightarrow> store (ext w') = store (ext w) \<and> store (ext w) (ref_of ob) = None"
  using assms by (auto simp: call_defs dest!: delete split: prod.splits)

lemma CreateOrUpdate_OkD:
  assumes "k8s_CreateOrUpdate c ob f w = (Ok x, w')"
  shows "upserted ob f (store (ext w)) (store (ext w'))"
  using assms by (auto simp: call_defs go_defs dest!: upsert split: prod.splits res.splits)

text \<open>After a read that found an object, the contents still hold it.\<close>

lemma safe_Get_bind:
  assumes order: "effect_order (on_store store S)"
    and missing: "\<And>e. safe (on_store store S) (f (Inl e))"
    and found: "\<And>ob w. store (ext w) (k, key) = Some ob \<Longrightarrow> on_store store S w (snd (f (Inr ob) w))"
    and S: "\<And>m. S m m"
  shows "safe (on_store store S) (go_bind (k8s_Get c k key) f)"
proof (rule safeI)
  fix w
  obtain r w1 where get: "k8s_Get c k key w = (r, w1)" by (cases "k8s_Get c k key w")
  then obtain x where x: "r = Ok x" and same: "store (ext w1) = store (ext w)"
    and ob: "\<And>ob. x = Inr ob \<Longrightarrow> store (ext w) (k, key) = Some ob" by (rule Get_OkD) blast
  have "on_store store S w1 (snd (f x w1))"
  proof (cases x)
    case (Inl e)
    with missing show ?thesis by (simp add: safe_def)
  next
    case (Inr ob1)
    with found [of w1 ob1] ob same show ?thesis by simp
  qed
  with get x same show "on_store store S w (snd (go_bind (k8s_Get c k key) f w))"
    by (simp add: go_bind_def on_store_def)
qed

lemma stored_refD: "store s r = Some ob \<Longrightarrow> r = ref_of ob"
  by (simp add: store_ref)

lemma stored_kind: "store s (k, key) = Some ob \<Longrightarrow> kind_of ob = k"
  by (drule store_ref) (simp add: ref_of_def)

end

context kube_fresh
begin

lemma Get_NotFoundD:
  assumes "k8s_Get c k key w = (Ok (Inl e), w')" and "IsNotFound e"
  shows "store (ext w) (k, key) = None"
  using assms by (auto simp: call_defs dest: get_complete split: prod.splits)

lemma List_completeD:
  assumes "k8s_List c k lo w = (Ok (Inr obs), w')"
    and "store (ext w) r = Some ob" and "kind_of ob = k" and "lo_matches lo ob"
  shows "ob \<in> set obs"
  using assms by (auto simp: call_defs dest: list_complete split: prod.splits)

end

section \<open>Frames, and objects that go away\<close>

text \<open>Two contents agree off a set of references.\<close>

definition same_off :: "obj_ref set \<Rightarrow> contents \<Rightarrow> contents \<Rightarrow> bool" where
  "same_off F m m' \<longleftrightarrow> (\<forall>r. r \<notin> F \<longrightarrow> m' r = m r)"

interpretation frame: effect_order "on_store store (same_off F)" for store F
  by (rule effect_order_on_store) (simp_all add: same_off_def)

lemma same_off_refl [simp]: "same_off F m m"
  by (simp add: same_off_def)

lemma same_offD: "same_off F m m' \<Longrightarrow> r \<notin> F \<Longrightarrow> m' r = m r"
  unfolding same_off_def by blast

lemma same_off_mono: "same_off F m m' \<Longrightarrow> F \<subseteq> G \<Longrightarrow> same_off G m m'"
  by (auto simp: same_off_def)

lemma safe_same_off_mono:
  "safe (on_store store (same_off F)) m \<Longrightarrow> F \<subseteq> G \<Longrightarrow> safe (on_store store (same_off G)) m"
  by (erule safe_mono) (auto simp: on_store_def intro: same_off_mono)

lemma deleted_same_off: "deleted ob m m' \<Longrightarrow> ref_of ob \<in> F \<Longrightarrow> same_off F m m'"
  by (auto simp: deleted_def same_off_def split: if_splits)

text \<open>Gone, or marked for deletion and waiting for its finalizers.\<close>

definition gone :: "contents \<Rightarrow> obj_ref \<Rightarrow> bool" where
  "gone m r \<longleftrightarrow> (\<forall>ob. m r = Some ob \<longrightarrow> metaDeletionTimestamp (meta_of ob) \<noteq> None)"

lemma deleted_gone: "deleted ob m m' \<Longrightarrow> gone m' (ref_of ob)"
  by (auto simp: deleted_def gone_def terminating_def split: if_splits)

definition shrinks :: "contents \<Rightarrow> contents \<Rightarrow> bool" where
  "shrinks m m' \<longleftrightarrow> (\<forall>r. gone m r \<longrightarrow> gone m' r)"

interpretation shrink: effect_order "on_store store shrinks" for store
  by (rule effect_order_on_store) (simp_all add: shrinks_def)

lemma shrinks_refl [simp]: "shrinks m m"
  by (simp add: shrinks_def)

lemma shrinksD:
  "on_store store shrinks w w' \<Longrightarrow> gone (store (ext w)) r \<Longrightarrow> gone (store (ext w')) r"
  unfolding on_store_def shrinks_def by blast

lemma deleted_shrinks: "deleted ob m m' \<Longrightarrow> shrinks m m'"
  by (auto simp: deleted_def shrinks_def gone_def terminating_def split: if_splits)

context kube_api
begin

lemma shrink_Delete [intro]: "safe (on_store store shrinks) (k8s_Delete c ob)"
  by (rule safe_Delete) (auto intro: deleted_shrinks)

lemma shrink_Get [intro]: "safe (on_store store shrinks) (k8s_Get c k key)"
  by (rule safe_Get) simp

lemma gone_None: "m r = None \<Longrightarrow> gone m r"
  by (simp add: gone_def)

lemma Delete_gone:
  assumes run: "k8s_Delete c ob w = (Ok err, w')"
    and err: "err = None \<or> (\<exists>e. err = Some e \<and> IsNotFound e)"
  shows "gone (store (ext w')) (ref_of ob)"
  using err
proof
  assume "err = None"
  with Delete_OkD(1) [OF run] show ?thesis by (auto intro: deleted_gone)
next
  assume "\<exists>e. err = Some e \<and> IsNotFound e"
  with Delete_OkD(2) [OF run] show ?thesis by (auto intro: gone_None)
qed

end

context kube_fresh
begin

text \<open>Reading an object and deleting it, without an error to collect, makes it go.\<close>

lemma Get_Delete_gone:
  assumes "k8s_Get c k key w = (Ok (Inr ob), w1)" and run: "k8s_Delete c ob w1 = (Ok err, w')"
    and err: "err = None \<or> (\<exists>e. err = Some e \<and> IsNotFound e)"
  shows "gone (store (ext w')) (k, key)"
proof -
  from assms(1) have "store (ext w) (k, key) = Some ob" by (auto elim: Get_OkD)
  then have "ref_of ob = (k, key)" by (auto dest: store_ref)
  with Delete_gone [OF run err] show ?thesis by simp
qed

lemma Get_NotFound_gone:
  assumes "k8s_Get c k key w = (Ok (Inl e), w')" and "IsNotFound e"
  shows "gone (store (ext w')) (k, key)"
proof -
  from assms(1) have "store (ext w') = store (ext w)" by (auto elim: Get_OkD)
  with Get_NotFoundD [OF assms] show ?thesis by (simp add: gone_None)
qed

end

end
