(* ===== verification/MemStore.thy ===== *)
theory MemStore
  imports ApiContract
begin

text \<open>
  An in-memory API server: a list of objects behind the client interface, with a script of
  server errors to inject and a number of newest objects that reads do not see yet, which
  is how an informer cache lags behind. It is a provider of the contracts of
  \<open>ApiContract\<close>, so they can hold, and the client the witnesses run the operator
  against. It is not a model of code of the repository.
\<close>

record mem =
  memObjs :: "object list"             \<comment> \<open>newest first\<close>
  memFaults :: "string option list"    \<comment> \<open>for each coming call, the error to return\<close>

text \<open>The stored objects: the first of each reference, none that is due for removal.\<close>

fun live :: "obj_ref list \<Rightarrow> object list \<Rightarrow> object list" where
  "live seen [] = []"
| "live seen (ob # obs) =
     (if ref_of ob \<in> set seen \<or> removable ob then live seen obs
      else ob # live (ref_of ob # seen) obs)"

definition mem_objects :: "mem \<Rightarrow> object list" where
  "mem_objects s = live [] (memObjs s)"

definition mem_store :: "mem \<Rightarrow> contents" where
  "mem_store s = map_of (map (\<lambda>ob. (ref_of ob, ob)) (mem_objects s))"

definition find_ref :: "obj_ref \<Rightarrow> object list \<Rightarrow> object option" where
  "find_ref r obs = find (\<lambda>ob. ref_of ob = r) obs"

definition remove_ref :: "obj_ref \<Rightarrow> object list \<Rightarrow> object list" where
  "remove_ref r obs = filter (\<lambda>ob. ref_of ob \<noteq> r) obs"

definition replace_ref :: "object \<Rightarrow> object list \<Rightarrow> object list" where
  "replace_ref ob obs = map (\<lambda>x. if ref_of x = ref_of ob then ob else x) obs"

text \<open>Every call first looks at the script.\<close>

definition with_faults :: "(string \<Rightarrow> 'r) \<Rightarrow> (mem \<Rightarrow> 'r \<times> mem) \<Rightarrow> mem \<Rightarrow> 'r \<times> mem" where
  "with_faults err f s =
     (case memFaults s of
        [] \<Rightarrow> f s
      | None # fs \<Rightarrow> f (s\<lparr>memFaults := fs\<rparr>)
      | Some msg # fs \<Rightarrow> (err msg, s\<lparr>memFaults := fs\<rparr>))"

definition mem_client :: "nat \<Rightarrow> mem client" where
  "mem_client lag =
     \<lparr>cGet = (\<lambda>k key. with_faults (\<lambda>msg. Inl (OtherStatus msg)) (\<lambda>s.
        (case find_ref (k, key) (drop lag (mem_objects s)) of
           None \<Rightarrow> Inl NotFound | Some ob \<Rightarrow> Inr ob, s))),
      cList = (\<lambda>k lo. with_faults (\<lambda>msg. Inl (OtherStatus msg)) (\<lambda>s.
        (Inr (filter (\<lambda>ob. kind_of ob = k \<and> lo_matches lo ob) (drop lag (mem_objects s))), s))),
      cCreate = (\<lambda>ob. with_faults (\<lambda>msg. Some (OtherStatus msg)) (\<lambda>s.
        if removable ob then (Some (OtherStatus ''invalid''), s)
        else case find_ref (ref_of ob) (mem_objects s) of
          Some _ \<Rightarrow> (Some AlreadyExists, s)
        | None \<Rightarrow> (None, s\<lparr>memObjs := ob # mem_objects s\<rparr>))),
      cUpdate = (\<lambda>ob. with_faults (\<lambda>msg. Inl (OtherStatus msg)) (\<lambda>s.
        case find_ref (ref_of ob) (mem_objects s) of
          None \<Rightarrow> (Inl NotFound, s)
        | Some _ \<Rightarrow> (Inr ob, s\<lparr>memObjs :=
            (if removable ob then remove_ref (ref_of ob) (mem_objects s)
             else replace_ref ob (mem_objects s))\<rparr>))),
      cPatch = (\<lambda>ob base. with_faults (\<lambda>msg. Some (OtherStatus msg)) (\<lambda>s.
        if removable ob then (Some (OtherStatus ''invalid''), s)
        else case find_ref (ref_of ob) (mem_objects s) of
          None \<Rightarrow> (Some NotFound, s)
        | Some _ \<Rightarrow> (None, s\<lparr>memObjs := replace_ref ob (mem_objects s)\<rparr>))),
      cDelete = (\<lambda>ob. with_faults (\<lambda>msg. Some (OtherStatus msg)) (\<lambda>s.
        case find_ref (ref_of ob) (mem_objects s) of
          None \<Rightarrow> (Some NotFound, s)
        | Some old \<Rightarrow> (None, s\<lparr>memObjs :=
            (if metaFinalizers (meta_of old) = [] then remove_ref (ref_of ob) (mem_objects s)
             else replace_ref (terminating 1 old) (mem_objects s))\<rparr>))),
      cCreateOrUpdate = (\<lambda>ob f. with_faults (\<lambda>msg. Err (ApiError (OtherStatus msg))) (\<lambda>s.
        case f (case find_ref (ref_of ob) (mem_objects s) of None \<Rightarrow> ob | Some old \<Rightarrow> old) of
          Err e \<Rightarrow> (Err e, s)
        | Panic \<Rightarrow> (Panic, s)
        | Ok ob1 \<Rightarrow>
            (if ref_of ob1 \<noteq> ref_of ob \<or> removable ob1
             then (Err (ApiError (OtherStatus ''invalid'')), s)
             else (Ok (), s\<lparr>memObjs :=
               (case find_ref (ref_of ob) (mem_objects s) of
                  None \<Rightarrow> ob1 # mem_objects s
                | Some _ \<Rightarrow> replace_ref ob1 (mem_objects s))\<rparr>))))\<rparr>"

text \<open>The store is well formed: references are distinct and nothing is removable.\<close>

definition wf_objects :: "object list \<Rightarrow> bool" where
  "wf_objects obs \<longleftrightarrow> distinct (map ref_of obs) \<and> (\<forall>ob \<in> set obs. \<not> removable ob)"

lemma live_unseen: "ob \<in> set (live seen obs) \<Longrightarrow> ref_of ob \<notin> set seen \<and> \<not> removable ob"
  by (induction seen obs rule: live.induct) (auto split: if_splits)

lemma live_wf: "wf_objects (live seen obs)"
proof (induction seen obs rule: live.induct)
  case (2 seen ob obs)
  have "ref_of ob \<notin> ref_of ` set (live (ref_of ob # seen) obs)"
    using live_unseen by fastforce
  then have "wf_objects (live (ref_of ob # seen) obs) \<Longrightarrow> \<not> removable ob
      \<Longrightarrow> wf_objects (ob # live (ref_of ob # seen) obs)"
    by (simp add: wf_objects_def)
  with 2 show ?case by simp
qed (simp add: wf_objects_def)

lemma live_id: "wf_objects obs \<Longrightarrow> set (map ref_of obs) \<inter> set seen = {} \<Longrightarrow> live seen obs = obs"
proof (induction seen obs rule: live.induct)
  case (2 seen ob obs)
  then have "wf_objects obs" and "set (map ref_of obs) \<inter> set (ref_of ob # seen) = {}"
    and "ref_of ob \<notin> set seen" and "\<not> removable ob"
    by (auto simp: wf_objects_def)
  with 2 show ?case by simp
qed simp

lemma mem_objects_wf: "wf_objects (mem_objects s)"
  by (simp add: mem_objects_def live_wf)

lemma mem_objects_update:
  "wf_objects obs \<Longrightarrow> mem_objects (s\<lparr>memObjs := obs\<rparr>) = obs"
  by (simp add: mem_objects_def live_id)

lemma mem_objects_faults [simp]: "mem_objects (s\<lparr>memFaults := fs\<rparr>) = mem_objects s"
  by (simp add: mem_objects_def)

lemma mem_store_faults [simp]: "mem_store (s\<lparr>memFaults := fs\<rparr>) = mem_store s"
  by (simp add: mem_store_def)

lemma map_of_refs:
  "wf_objects obs \<Longrightarrow>
     map_of (map (\<lambda>ob. (ref_of ob, ob)) obs) r = Some ob \<longleftrightarrow> ob \<in> set obs \<and> ref_of ob = r"
proof (induction obs)
  case (Cons a obs)
  then have "ref_of a \<notin> ref_of ` set obs" and "wf_objects obs"
    by (auto simp: wf_objects_def)
  with Cons.IH show ?case by (auto simp: image_iff)
qed simp

lemma mem_store_iff: "mem_store s r = Some ob \<longleftrightarrow> ob \<in> set (mem_objects s) \<and> ref_of ob = r"
  unfolding mem_store_def by (rule map_of_refs [OF mem_objects_wf])

lemma find_ref_store: "find_ref r (mem_objects s) = mem_store s r"
proof -
  have "find (\<lambda>ob. ref_of ob = r) obs = map_of (map (\<lambda>ob. (ref_of ob, ob)) obs) r" for obs
    by (induction obs) auto
  then show ?thesis by (simp add: find_ref_def mem_store_def)
qed

lemma wf_Cons:
  "wf_objects obs \<Longrightarrow> \<not> removable ob \<Longrightarrow> map_of (map (\<lambda>ob. (ref_of ob, ob)) obs) (ref_of ob) = None
     \<Longrightarrow> wf_objects (ob # obs)"
  by (auto simp: wf_objects_def map_of_eq_None_iff image_image)

lemma wf_remove: "wf_objects obs \<Longrightarrow> wf_objects (remove_ref r obs)"
  by (auto simp: wf_objects_def remove_ref_def distinct_map inj_on_def)

lemma wf_replace: "wf_objects obs \<Longrightarrow> \<not> removable ob \<Longrightarrow> wf_objects (replace_ref ob obs)"
proof -
  have "map ref_of (replace_ref ob obs) = map ref_of obs"
    by (simp add: replace_ref_def)
  moreover have "set (replace_ref ob obs) \<subseteq> insert ob (set obs)"
    by (auto simp: replace_ref_def)
  ultimately show "wf_objects obs \<Longrightarrow> \<not> removable ob \<Longrightarrow> wf_objects (replace_ref ob obs)"
    unfolding wf_objects_def by (metis insertE subsetD)
qed

lemma map_of_remove_ref:
  "map_of (map (\<lambda>ob. (ref_of ob, ob)) (remove_ref r obs))
     = (map_of (map (\<lambda>ob. (ref_of ob, ob)) obs))(r := None)"
  by (induction obs) (auto simp: remove_ref_def)

lemma map_of_replace_ref:
  "map_of (map (\<lambda>ob. (ref_of ob, ob)) obs) (ref_of ob) \<noteq> None \<Longrightarrow>
   map_of (map (\<lambda>ob. (ref_of ob, ob)) (replace_ref ob obs))
     = (map_of (map (\<lambda>ob. (ref_of ob, ob)) obs))(ref_of ob \<mapsto> ob)"
proof (induction obs)
  case (Cons a obs)
  show ?case
  proof (cases "map_of (map (\<lambda>ob. (ref_of ob, ob)) obs) (ref_of ob) = None")
    case True
    then have "replace_ref ob obs = obs"
      by (auto simp: replace_ref_def map_of_eq_None_iff image_image image_iff intro!: map_idI)
    with True Cons.prems show ?thesis by (auto simp: replace_ref_def)
  next
    case False
    with Cons.IH show ?thesis by (auto simp: replace_ref_def)
  qed
qed simp

lemma mem_store_Cons:
  "\<not> removable ob \<Longrightarrow> mem_store s (ref_of ob) = None
     \<Longrightarrow> mem_store (s\<lparr>memObjs := ob # mem_objects s\<rparr>) = (mem_store s)(ref_of ob \<mapsto> ob)"
  using mem_objects_wf [of s]
  by (auto simp: mem_store_def mem_objects_update wf_Cons)

lemma mem_store_remove:
  "mem_store (s\<lparr>memObjs := remove_ref r (mem_objects s)\<rparr>) = (mem_store s)(r := None)"
  using mem_objects_wf [of s]
  by (simp add: mem_store_def mem_objects_update wf_remove map_of_remove_ref)

lemma mem_store_replace:
  "\<not> removable ob \<Longrightarrow> mem_store s (ref_of ob) \<noteq> None
     \<Longrightarrow> mem_store (s\<lparr>memObjs := replace_ref ob (mem_objects s)\<rparr>) = (mem_store s)(ref_of ob \<mapsto> ob)"
  using mem_objects_wf [of s]
  by (simp add: mem_store_def mem_objects_update wf_replace map_of_replace_ref)

lemma find_ref_drop:
  "find_ref r (drop lag (mem_objects s)) = Some ob \<Longrightarrow> mem_store s r = Some ob"
  by (auto simp: find_ref_def mem_store_iff find_Some_iff dest: in_set_dropD intro: nth_mem)

lemma with_faults_cases:
  assumes "with_faults err f s = (r, s')"
  obtains (fault) msg where "r = err msg" "mem_store s' = mem_store s"
    | (run) s0 where "f s0 = (r, s')" "mem_store s0 = mem_store s" "mem_objects s0 = mem_objects s"
      "\<And>obs. mem_store (s0\<lparr>memObjs := obs\<rparr>) = mem_store (s\<lparr>memObjs := obs\<rparr>)"
proof (cases "memFaults s")
  case Nil
  with assms show ?thesis by (intro run [of s]) (simp_all add: with_faults_def)
next
  case (Cons x fs)
  show ?thesis
  proof (cases x)
    case None
    with assms Cons show ?thesis
      by (intro run [of "s\<lparr>memFaults := fs\<rparr>"])
        (simp_all add: with_faults_def mem_store_def mem_objects_def)
  next
    case (Some msg)
    with assms Cons show ?thesis by (auto simp: with_faults_def intro: fault)
  qed
qed

section \<open>It provides the contracts\<close>

lemma mem_get:
  assumes "cGet (mem_client lag) k key s = (r, s')"
  shows "mem_store s' = mem_store s \<and> (\<forall>ob. r = Inr ob \<longrightarrow> mem_store s (k, key) = Some ob)"
  using assms
  by (auto simp: mem_client_def elim!: with_faults_cases split: option.splits dest: find_ref_drop)

lemma mem_list:
  assumes "cList (mem_client lag) k lo s = (r, s')"
  shows "mem_store s' = mem_store s \<and> (\<forall>obs. r = Inr obs \<longrightarrow>
    (\<forall>ob \<in> set obs. kind_of ob = k \<and> lo_matches lo ob \<and> mem_store s (ref_of ob) = Some ob))"
  using assms
  by (auto simp: mem_client_def mem_store_iff elim!: with_faults_cases dest: in_set_dropD)

lemma createdI: "m (ref_of ob) = None \<Longrightarrow> created ob m (m(ref_of ob \<mapsto> ob))"
  unfolding created_def stored_as_def by (intro conjI exI [of _ ob]) simp_all

lemma mem_create:
  assumes "cCreate (mem_client lag) ob s = (r, s')"
  shows "case r of
      None \<Rightarrow> created ob (mem_store s) (mem_store s')
    | Some e \<Rightarrow> (if IsAlreadyExists e then mem_store s' = mem_store s \<and> mem_store s (ref_of ob) \<noteq> None
                 else mem_store s' = mem_store s \<or> created ob (mem_store s) (mem_store s'))"
  using assms
  by (auto simp: mem_client_def find_ref_store mem_store_Cons createdI
      elim!: with_faults_cases split: option.splits if_splits)

lemma mem_update:
  assumes "cUpdate (mem_client lag) ob s = (r, s')"
  shows "case r of
      Inr ob' \<Rightarrow> updated ob ob' (mem_store s) (mem_store s')
    | Inl e \<Rightarrow> mem_store s' = mem_store s \<or> (\<exists>ob'. updated ob ob' (mem_store s) (mem_store s'))"
  using assms
  by (auto simp: mem_client_def find_ref_store mem_store_remove mem_store_replace updated_def
      elim!: with_faults_cases split: option.splits if_splits)

lemma patchedI: "m (ref_of ob) = Some old \<Longrightarrow> patched ob base m (m(ref_of ob \<mapsto> ob))"
  unfolding patched_def by (intro exI [of _ old] exI [of _ ob]) simp

lemma mem_patch:
  assumes "cPatch (mem_client lag) ob base s = (r, s')"
  shows "case r of
      None \<Rightarrow> patched ob base (mem_store s) (mem_store s')
    | Some e \<Rightarrow> mem_store s' = mem_store s \<or> patched ob base (mem_store s) (mem_store s')"
  using assms
  by (auto simp: mem_client_def find_ref_store mem_store_replace patchedI
      elim!: with_faults_cases split: option.splits if_splits)

lemma ref_of_terminating [simp]: "ref_of (terminating t ob) = ref_of ob"
  by (simp add: terminating_def ref_of_def)

lemma terminating_removable:
  "metaFinalizers (meta_of ob) \<noteq> [] \<Longrightarrow> \<not> removable (terminating t ob)"
  by (simp add: terminating_def removable_def)

lemma mem_store_terminating:
  assumes "mem_store s r = Some old" and "metaFinalizers (meta_of old) \<noteq> []"
  shows "mem_store (s\<lparr>memObjs := replace_ref (terminating t old) (mem_objects s)\<rparr>)
    = (mem_store s)(r \<mapsto> terminating t old)"
proof -
  have "ref_of old = r" using assms(1) by (simp add: mem_store_iff)
  with assms mem_store_replace [of "terminating t old" s] show ?thesis
    by (simp add: terminating_removable)
qed

lemma deletedI:
  "m (ref_of ob) = Some old \<Longrightarrow> metaFinalizers (meta_of old) = [] \<Longrightarrow> deleted ob m (m(ref_of ob := None))"
  "m (ref_of ob) = Some old \<Longrightarrow> metaFinalizers (meta_of old) \<noteq> []
     \<Longrightarrow> deleted ob m (m(ref_of ob \<mapsto> terminating t old))"
  by (auto simp: deleted_def)

lemma mem_delete:
  assumes "cDelete (mem_client lag) ob s = (r, s')"
  shows "case r of
      None \<Rightarrow> deleted ob (mem_store s) (mem_store s')
    | Some e \<Rightarrow> (if IsNotFound e then mem_store s' = mem_store s \<and> mem_store s (ref_of ob) = None
                 else mem_store s' = mem_store s \<or> deleted ob (mem_store s) (mem_store s'))"
  using assms
  by (auto simp: mem_client_def find_ref_store mem_store_remove mem_store_terminating deletedI
      elim!: with_faults_cases split: option.splits if_splits)

lemma mem_upsert:
  assumes "cCreateOrUpdate (mem_client lag) ob f s = (r, s')"
  shows "case r of
      Ok u \<Rightarrow> upserted ob f (mem_store s) (mem_store s')
    | _ \<Rightarrow> mem_store s' = mem_store s \<or> upserted ob f (mem_store s) (mem_store s')"
proof -
  have stored: "stored_as ob1 (mem_store s0)
      (mem_store (s0\<lparr>memObjs := (case mem_store s0 (ref_of ob1) of
         None \<Rightarrow> ob1 # mem_objects s0 | Some _ \<Rightarrow> replace_ref ob1 (mem_objects s0))\<rparr>))"
    if "\<not> removable ob1" for ob1 s0
    using that
    by (auto simp: stored_as_def mem_store_Cons mem_store_replace split: option.splits
        intro!: exI [of _ ob1])
  show ?thesis
    using assms stored
    by (auto simp: mem_client_def find_ref_store upserted_def
        elim!: with_faults_cases split: res.splits if_splits) (metis | fastforce)+
qed

interpretation mem_api: kube_api "mem_client lag" mem_store for lag
  using mem_get mem_list mem_create mem_update mem_patch mem_delete mem_upsert mem_objects_wf
  by unfold_locales (auto simp: mem_store_iff wf_objects_def)

interpretation mem_fresh: kube_fresh "mem_client 0" mem_store
proof unfold_locales
  show "mem_store s (k, key) = None"
    if "cGet (mem_client 0) k key s = (Inl e, s')" and "IsNotFound e" for k key s e s'
    using that
    by (auto simp: mem_client_def find_ref_store elim!: with_faults_cases split: option.splits)
  show "ob \<in> set obs"
    if "cList (mem_client 0) k lo s = (Inr obs, s')" and "mem_store s r = Some ob"
      and "kind_of ob = k" and "lo_matches lo ob" for k lo s obs s' r ob
    using that
    by (auto simp: mem_client_def mem_store_iff elim!: with_faults_cases)
qed

text \<open>Running a program against the in-memory client, for the witnesses.\<close>

lemmas mem_eval =
  mem_client_def with_faults_def mem_objects_def find_ref_def remove_ref_def replace_ref_def
  removable_def ref_of_def lo_matches_def call_defs go_defs

text \<open>A team's environment, and a world to start from.\<close>

definition example_env :: UnionEnv where
  "example_env =
     \<lparr>envUTSAOwnerReference = Some \<lparr>uorAPIVersion = ''data.nav.no/v1alpha1'',
        uorKind = ''UnionTeamServiceAccounts'', uorName = ''team'', uorUID = ''42''\<rparr>,
      envProject = ''proj'', envDomain = ''dev'', envGCPProjectName = ''gcp''\<rparr>"

definition example_world :: "object list \<Rightarrow> mem world" where
  "example_world obs = \<lparr>ext = \<lparr>memObjs = obs, memFaults = []\<rparr>, events = []\<rparr>"

end
