(* ===== verification/Responsive.thy ===== *)
theory Responsive
  imports MemStore
begin

text \<open>
  Servers that answer. \<open>kube_api\<close> says what an answer means but lets every call fail;
  here the failures are counted. \<open>outages s\<close> is the number of calls that will still fail
  for a reason outside the contract (a timeout, throttling, a conflict), and a call that
  uses up none of them does what it is asked to, where the API allows it.

  \<open>progress P m Q\<close> is total correctness up to outages: from contents in \<open>P\<close> the program
  \<open>m\<close> either meets an outage or returns a value and contents in \<open>Q\<close>. There is a rule for
  every construct of the runtime and for every call, from which the precondition of a
  program is computed backwards.
\<close>

section \<open>Total correctness up to outages\<close>

definition progress ::
    "('s \<Rightarrow> nat) \<Rightarrow> ('s \<Rightarrow> contents) \<Rightarrow> (contents \<Rightarrow> bool) \<Rightarrow> ('s world, 'a) go
       \<Rightarrow> ('a \<Rightarrow> contents \<Rightarrow> bool) \<Rightarrow> bool" where
  "progress d store P m Q \<longleftrightarrow>
     (\<forall>w. d (ext (snd (m w))) \<le> d (ext w)
        \<and> (P (store (ext w)) \<longrightarrow> d (ext (snd (m w))) < d (ext w)
             \<or> (\<exists>x w'. m w = (Ok x, w') \<and> Q x (store (ext w')))))"

lemma progressI:
  "(\<And>w r w'. m w = (r, w') \<Longrightarrow> d (ext w') \<le> d (ext w))
     \<Longrightarrow> (\<And>w r w'. m w = (r, w') \<Longrightarrow> P (store (ext w)) \<Longrightarrow> d (ext w') = d (ext w)
            \<Longrightarrow> \<exists>x. r = Ok x \<and> Q x (store (ext w')))
     \<Longrightarrow> progress d store P m Q"
  unfolding progress_def by (metis le_neq_implies_less surjective_pairing)

lemma progress_mono: "progress d store P m Q \<Longrightarrow> m w = (r, w') \<Longrightarrow> d (ext w') \<le> d (ext w)"
  unfolding progress_def by (metis snd_conv)

lemma progressD:
  "progress d store P m Q \<Longrightarrow> m w = (r, w') \<Longrightarrow> P (store (ext w)) \<Longrightarrow> d (ext w') = d (ext w)
     \<Longrightarrow> \<exists>x. r = Ok x \<and> Q x (store (ext w'))"
  unfolding progress_def by (metis fst_conv less_irrefl snd_conv)

lemma progress_pre: "progress d store P m Q \<Longrightarrow> (\<And>c. P' c \<Longrightarrow> P c) \<Longrightarrow> progress d store P' m Q"
  unfolding progress_def by blast

lemma progress_post: "progress d store P m Q \<Longrightarrow> (\<And>x c. Q x c \<Longrightarrow> Q' x c) \<Longrightarrow> progress d store P m Q'"
  unfolding progress_def by blast

lemma progress_pure: "progress d store P m Q \<Longrightarrow> progress d store (\<lambda>c. A \<and> P c) m (\<lambda>x c. A \<and> Q x c)"
  unfolding progress_def by blast

lemma wp_return: "progress d store (Q x) (go_return x) Q"
  by (simp add: progress_def go_defs)

lemma wp_err: "progress d store (\<lambda>_. False) (go_err e) Q"
  by (simp add: progress_def go_defs)

lemma wp_panic: "progress d store (\<lambda>_. False) go_panic Q"
  by (simp add: progress_def go_defs)

lemma wp_lift: "progress d store (\<lambda>c. \<exists>x. r = Ok x \<and> Q x c) (go_lift r) Q"
  by (auto simp: progress_def go_defs)

lemma wp_Join: "progress d store (\<lambda>c. errs = [] \<and> Q () c) (errors_Join errs) Q"
  by (auto simp: progress_def go_defs)

lemma wp_bind:
  assumes f: "\<And>x. progress d store (R x) (f x) Q" and m: "progress d store P m R"
  shows "progress d store P (go_bind m f) Q"
proof (rule progressI)
  fix w r w'
  assume run: "go_bind m f w = (r, w')"
  obtain r1 w1 where r1: "m w = (r1, w1)" by (cases "m w")
  note m_mono = progress_mono [OF m r1] and m_ok = progressD [OF m r1]
  have "d (ext w') \<le> d (ext w) \<and> (P (store (ext w)) \<longrightarrow> d (ext w') = d (ext w)
      \<longrightarrow> (\<exists>x. r = Ok x \<and> Q x (store (ext w'))))"
  proof (cases r1)
    case (Ok x)
    with run r1 have rest: "f x w1 = (r, w')" by (simp add: go_bind_def)
    from progress_mono [OF f rest] progressD [OF f rest] m_mono m_ok Ok show ?thesis by auto
  qed (use run r1 m_mono m_ok in \<open>auto simp: go_bind_def\<close>)
  then show "d (ext w') \<le> d (ext w)"
    and "P (store (ext w)) \<Longrightarrow> d (ext w') = d (ext w) \<Longrightarrow> \<exists>x. r = Ok x \<and> Q x (store (ext w'))"
    by simp_all
qed

lemma wp_seq:
  "progress d store R k Q \<Longrightarrow> progress d store P m (\<lambda>_. R) \<Longrightarrow> progress d store P (go_seq m k) Q"
  unfolding go_seq_def by (rule wp_bind)

lemma wp_try: "progress d store P m (\<lambda>x. Q (Inr x)) \<Longrightarrow> progress d store P (go_try m) Q"
  unfolding progress_def go_try_def by (auto split: prod.splits res.splits) (metis fst_conv snd_conv res.distinct res.inject)+

lemma wp_branches:
  "progress d store P m Q \<Longrightarrow> progress d store P' m' Q
     \<Longrightarrow> progress d store (\<lambda>c. if b then P c else P' c) (if b then m else m') Q"
  "progress d store P m Q \<Longrightarrow> (\<And>x. progress d store (R x) (f x) Q)
     \<Longrightarrow> progress d store (\<lambda>c. case y of None \<Rightarrow> P c | Some x \<Rightarrow> R x c) (case y of None \<Rightarrow> m | Some x \<Rightarrow> f x) Q"
  "(\<And>e. progress d store (S e) (g e) Q) \<Longrightarrow> (\<And>x. progress d store (R x) (f x) Q)
     \<Longrightarrow> progress d store (\<lambda>c. case z of Inl e \<Rightarrow> S e c | Inr x \<Rightarrow> R x c) (case z of Inl e \<Rightarrow> g e | Inr x \<Rightarrow> f x) Q"
  "progress d store P m Q \<Longrightarrow> (\<And>x xs. progress d store (T x xs) (h x xs) Q)
     \<Longrightarrow> progress d store (\<lambda>c. case l of [] \<Rightarrow> P c | x # xs \<Rightarrow> T x xs c) (case l of [] \<Rightarrow> m | x # xs \<Rightarrow> h x xs) Q"
  by (simp_all split: option.splits sum.splits list.splits)

lemma progress_for_each:
  "(\<And>x. x \<in> set xs \<Longrightarrow> progress d store I (f x) (\<lambda>_. I)) \<Longrightarrow> progress d store I (for_each f xs) (\<lambda>_. I)"
  by (induction xs) (auto intro: wp_return wp_seq)

text \<open>A loop that collects errors collects none.\<close>

lemma progress_fold_go:
  "(\<And>x errs. x \<in> set xs \<Longrightarrow> progress d store (\<lambda>c. errs = [] \<and> I c) (f x errs) (\<lambda>errs c. errs = [] \<and> I c))
     \<Longrightarrow> progress d store (\<lambda>c. errs = [] \<and> I c) (fold_go f xs errs) (\<lambda>errs c. errs = [] \<and> I c)"
  by (induction xs arbitrary: errs) (auto intro!: wp_bind progress_pre [OF wp_return])

lemma progress_collect:
  assumes "\<And>x errs. x \<in> set xs
    \<Longrightarrow> progress d store (\<lambda>c. errs = [] \<and> I c) (f x errs) (\<lambda>errs c. errs = [] \<and> I c)"
  shows "progress d store I (go_bind (fold_go f xs []) errors_Join) (\<lambda>_. I)"
  by (rule wp_bind, rule wp_Join, rule progress_pre, rule progress_fold_go) (use assms in auto)

text \<open>What a program leaves alone on every outcome it also leaves alone when it returns.\<close>

lemma progress_frame:
  assumes m: "progress d store P m Q" and frame: "safe (on_store store S) m"
    and J: "\<And>c c'. S c c' \<Longrightarrow> J c \<Longrightarrow> J c'"
  shows "progress d store (\<lambda>c. P c \<and> J c) m (\<lambda>x c. Q x c \<and> J c)"
proof (rule progressI)
  fix w r w'
  assume run: "m w = (r, w')"
  with m show "d (ext w') \<le> d (ext w)" by (rule progress_mono)
  have "S (store (ext w)) (store (ext w'))" using safeD [OF frame run] by (simp add: on_store_def)
  then show "\<exists>x. r = Ok x \<and> Q x (store (ext w')) \<and> J (store (ext w'))"
    if "P (store (ext w)) \<and> J (store (ext w))" "d (ext w') = d (ext w)"
    using that progressD [OF m run] J by blast
qed

section \<open>The interface\<close>

text \<open>
  What is sent with the metadata the object is stored with, up to its finalizers: such an
  object is not stale, so the server does not refuse it for a conflict.
\<close>

definition same_meta :: "object \<Rightarrow> object \<Rightarrow> bool" where
  "same_meta old ob \<longleftrightarrow>
     (meta_of old)\<lparr>metaFinalizers := []\<rparr> = (meta_of ob)\<lparr>metaFinalizers := []\<rparr>"

text \<open>
  \<open>accepts\<close> is what validation and admission let through. As documented: a valid new
  object is created unless its name is taken, an existing object can be updated, patched
  and deleted, and a read of what is not there is answered by \<open>NotFound\<close>.
\<close>

locale kube_serves = kube_fresh c store for c :: "'s client" and store :: "'s \<Rightarrow> contents" +
  fixes outages :: "'s \<Rightarrow> nat" and accepts :: "object \<Rightarrow> bool"
  assumes get_serves: "cGet c k key s = (r_g, s') \<Longrightarrow> outages s' \<le> outages s \<and>
      (outages s' = outages s \<longrightarrow> (\<forall>e. r_g = Inl e \<longrightarrow> IsNotFound e))"
    and list_serves: "cList c k lo s = (r_l, s') \<Longrightarrow> outages s' \<le> outages s \<and>
      (outages s' = outages s \<longrightarrow> (\<exists>obs. r_l = Inr obs \<and> distinct (map ref_of obs)))"
    and create_serves: "cCreate c ob s = (r_cr, s') \<Longrightarrow> outages s' \<le> outages s \<and>
      (outages s' = outages s \<longrightarrow> accepts ob \<longrightarrow> \<not> removable ob
         \<longrightarrow> (\<forall>e. r_cr = Some e \<longrightarrow> IsAlreadyExists e))"
    and update_serves: "cUpdate c ob s = (r_u, s') \<Longrightarrow> outages s' \<le> outages s \<and>
      (outages s' = outages s \<longrightarrow> accepts ob
         \<longrightarrow> (\<exists>old. store s (ref_of ob) = Some old \<and> same_meta old ob) \<longrightarrow> (\<exists>ob'. r_u = Inr ob'))"
    and patch_serves: "cPatch c ob base s = (r_p, s') \<Longrightarrow> outages s' \<le> outages s \<and>
      (outages s' = outages s \<longrightarrow> accepts ob \<longrightarrow> \<not> removable ob
         \<longrightarrow> store s (ref_of ob) \<noteq> None \<longrightarrow> r_p = None)"
    and delete_serves: "cDelete c ob s = (r_d, s') \<Longrightarrow> outages s' \<le> outages s \<and>
      (outages s' = outages s \<longrightarrow> (\<forall>e. r_d = Some e \<longrightarrow> IsNotFound e))"
    and upsert_serves: "cCreateOrUpdate c ob f s = (r_up, s') \<Longrightarrow> outages s' \<le> outages s \<and>
      (outages s' = outages s
         \<longrightarrow> (\<exists>ob1. f (case store s (ref_of ob) of None \<Rightarrow> ob | Some old \<Rightarrow> old) = Ok ob1
               \<and> accepts ob1 \<and> ref_of ob1 = ref_of ob \<and> \<not> removable ob1)
         \<longrightarrow> r_up = Ok ())"
begin

lemma wp_Get: "progress outages store
    (\<lambda>m. case m (k, key) of
       None \<Rightarrow> \<forall>e. IsNotFound e \<longrightarrow> Q (Inl e) m
     | Some ob \<Rightarrow> ref_of ob = (k, key) \<longrightarrow> \<not> removable ob \<longrightarrow> Q (Inr ob) m)
    (k8s_Get c k key) Q"
proof (rule progressI)
  fix w r w'
  assume "k8s_Get c k key w = (r, w')"
  then obtain x where x: "cGet c k key (ext w) = (x, ext w')" "r = Ok x"
    by (auto simp: call_defs split: prod.splits)
  then show "outages (ext w') \<le> outages (ext w)" using get_serves by blast
  assume pre: "case store (ext w) (k, key) of None \<Rightarrow> \<forall>e. IsNotFound e \<longrightarrow> Q (Inl e) (store (ext w))
      | Some ob \<Rightarrow> ref_of ob = (k, key) \<longrightarrow> \<not> removable ob \<longrightarrow> Q (Inr ob) (store (ext w))"
    and same: "outages (ext w') = outages (ext w)"
  show "\<exists>x. r = Ok x \<and> Q x (store (ext w'))"
  proof (cases x)
    case (Inl e)
    with x same get_serves have "IsNotFound e" by blast
    with Inl x pre get [OF x(1)] get_complete show ?thesis by fastforce
  next
    case (Inr ob)
    with x get [OF x(1)] have "store (ext w) (k, key) = Some ob" by blast
    with Inr x pre get [OF x(1)] store_ref store_live show ?thesis by auto
  qed
qed

lemma wp_List: "progress outages store
    (\<lambda>m. \<forall>obs. distinct (map ref_of obs)
        \<longrightarrow> (\<forall>ob. ob \<in> set obs \<longleftrightarrow> kind_of ob = k \<and> lo_matches lo ob \<and> m (ref_of ob) = Some ob)
        \<longrightarrow> Q obs m)
    (go_bind (k8s_List c k lo) check_reply) Q"
proof (rule progressI)
  fix w r w'
  assume run: "go_bind (k8s_List c k lo) check_reply w = (r, w')"
  then obtain x where x: "cList c k lo (ext w) = (x, ext w')"
    "r = (case x of Inl e \<Rightarrow> Err (ApiError e) | Inr obs \<Rightarrow> Ok obs)"
    by (auto simp: call_defs check_reply_def go_defs split: prod.splits sum.splits)
  then show "outages (ext w') \<le> outages (ext w)" using list_serves by blast
  assume pre: "\<forall>obs. distinct (map ref_of obs)
        \<longrightarrow> (\<forall>ob. ob \<in> set obs \<longleftrightarrow> kind_of ob = k \<and> lo_matches lo ob \<and> store (ext w) (ref_of ob) = Some ob)
        \<longrightarrow> Q obs (store (ext w))"
    and "outages (ext w') = outages (ext w)"
  with x list_serves obtain obs where obs: "x = Inr obs" "distinct (map ref_of obs)" by blast
  have "ob \<in> set obs \<longleftrightarrow> kind_of ob = k \<and> lo_matches lo ob \<and> store (ext w) (ref_of ob) = Some ob" for ob
  proof
    show "ob \<in> set obs \<Longrightarrow> kind_of ob = k \<and> lo_matches lo ob \<and> store (ext w) (ref_of ob) = Some ob"
      using list [OF x(1)] obs(1) by blast
    show "kind_of ob = k \<and> lo_matches lo ob \<and> store (ext w) (ref_of ob) = Some ob \<Longrightarrow> ob \<in> set obs"
      using list_complete [OF x(1) [unfolded obs(1)]] by blast
  qed
  with pre obs(2) have "Q obs (store (ext w))" by blast
  moreover have "store (ext w') = store (ext w)" using list [OF x(1)] by blast
  ultimately show "\<exists>x. r = Ok x \<and> Q x (store (ext w'))" using x(2) obs(1) by simp
qed

lemma wp_Create: "progress outages store
    (\<lambda>m. accepts ob \<and> \<not> removable ob
       \<and> (if m (ref_of ob) = None then \<forall>m'. created ob m m' \<longrightarrow> Q None m'
          else \<forall>e. IsAlreadyExists e \<longrightarrow> Q (Some e) m))
    (k8s_Create c ob) Q"
proof (rule progressI)
  fix w r w'
  assume "k8s_Create c ob w = (r, w')"
  then obtain x where x: "cCreate c ob (ext w) = (x, ext w')" "r = Ok x"
    by (auto simp: call_defs split: prod.splits)
  then show "outages (ext w') \<le> outages (ext w)" using create_serves by blast
  assume "outages (ext w') = outages (ext w)"
    and "accepts ob \<and> \<not> removable ob \<and> (if store (ext w) (ref_of ob) = None
      then \<forall>m'. created ob (store (ext w)) m' \<longrightarrow> Q None m' else \<forall>e. IsAlreadyExists e \<longrightarrow> Q (Some e) (store (ext w)))"
  moreover from this create_serves [OF x(1)] have "x = Some e \<Longrightarrow> IsAlreadyExists e" for e by blast
  ultimately show "\<exists>x. r = Ok x \<and> Q x (store (ext w'))"
    using create [OF x(1)] x(2) by (auto simp: created_def split: option.splits if_splits)
qed

lemma wp_Update: "progress outages store
    (\<lambda>m. accepts ob \<and> (\<exists>old. m (ref_of ob) = Some old \<and> same_meta old ob)
       \<and> (\<forall>ob' m'. updated ob ob' m m' \<longrightarrow> Q (Inr ob') m'))
    (k8s_Update c ob) Q"
proof (rule progressI)
  fix w r w'
  assume "k8s_Update c ob w = (r, w')"
  then obtain x where x: "cUpdate c ob (ext w) = (x, ext w')" "r = Ok x"
    by (auto simp: call_defs split: prod.splits)
  then show "outages (ext w') \<le> outages (ext w)" using update_serves by blast
  assume "outages (ext w') = outages (ext w)"
    and pre: "accepts ob \<and> (\<exists>old. store (ext w) (ref_of ob) = Some old \<and> same_meta old ob)
       \<and> (\<forall>ob' m'. updated ob ob' (store (ext w)) m' \<longrightarrow> Q (Inr ob') m')"
  with update_serves [OF x(1)] obtain ob' where "x = Inr ob'" by blast
  with update [OF x(1)] pre x(2) show "\<exists>x. r = Ok x \<and> Q x (store (ext w'))" by auto
qed

lemma wp_Patch: "progress outages store
    (\<lambda>m. accepts ob \<and> \<not> removable ob \<and> m (ref_of ob) \<noteq> None \<and> (\<forall>m'. patched ob base m m' \<longrightarrow> Q None m'))
    (k8s_Patch c ob base) Q"
proof (rule progressI)
  fix w r w'
  assume "k8s_Patch c ob base w = (r, w')"
  then obtain x where x: "cPatch c ob base (ext w) = (x, ext w')" "r = Ok x"
    by (auto simp: call_defs split: prod.splits)
  then show "outages (ext w') \<le> outages (ext w)" using patch_serves by blast
  assume "outages (ext w') = outages (ext w)"
    and pre: "accepts ob \<and> \<not> removable ob \<and> store (ext w) (ref_of ob) \<noteq> None
      \<and> (\<forall>m'. patched ob base (store (ext w)) m' \<longrightarrow> Q None m')"
  with patch_serves [OF x(1)] have "x = None" by blast
  with patch [OF x(1)] pre x(2) show "\<exists>x. r = Ok x \<and> Q x (store (ext w'))" by auto
qed

lemma wp_Delete: "progress outages store
    (\<lambda>m. if m (ref_of ob) = None then \<forall>e. IsNotFound e \<longrightarrow> Q (Some e) m
       else \<forall>m'. deleted ob m m' \<longrightarrow> Q None m')
    (k8s_Delete c ob) Q"
proof (rule progressI)
  fix w r w'
  assume "k8s_Delete c ob w = (r, w')"
  then obtain x where x: "cDelete c ob (ext w) = (x, ext w')" "r = Ok x"
    by (auto simp: call_defs split: prod.splits)
  then show "outages (ext w') \<le> outages (ext w)" using delete_serves by blast
  assume "outages (ext w') = outages (ext w)"
    and pre: "if store (ext w) (ref_of ob) = None then \<forall>e. IsNotFound e \<longrightarrow> Q (Some e) (store (ext w))
       else \<forall>m'. deleted ob (store (ext w)) m' \<longrightarrow> Q None m'"
  with delete_serves [OF x(1)] have "x = Some e \<Longrightarrow> IsNotFound e" for e by blast
  with delete [OF x(1)] pre x(2) show "\<exists>x. r = Ok x \<and> Q x (store (ext w'))"
    by (auto simp: deleted_def split: option.splits if_splits)
qed

lemma wp_CreateOrUpdate: "progress outages store
    (\<lambda>m. (\<forall>old. m (ref_of ob) = Some old \<longrightarrow> ref_of old = ref_of ob \<longrightarrow> \<not> removable old
         \<longrightarrow> (\<exists>ob1. f old = Ok ob1 \<and> accepts ob1 \<and> ref_of ob1 = ref_of ob \<and> \<not> removable ob1))
       \<and> (m (ref_of ob) = None
         \<longrightarrow> (\<exists>ob1. f ob = Ok ob1 \<and> accepts ob1 \<and> ref_of ob1 = ref_of ob \<and> \<not> removable ob1))
       \<and> (\<forall>m'. upserted ob f m m' \<longrightarrow> Q () m'))
    (k8s_CreateOrUpdate c ob f) Q"
proof (rule progressI)
  fix w r w'
  assume "k8s_CreateOrUpdate c ob f w = (r, w')"
  then obtain x where x: "cCreateOrUpdate c ob f (ext w) = (x, ext w')" "r = x"
    by (auto simp: call_defs go_defs split: prod.splits res.splits)
  then show "outages (ext w') \<le> outages (ext w)" using upsert_serves by blast
  assume "outages (ext w') = outages (ext w)"
    and "(\<forall>old. store (ext w) (ref_of ob) = Some old \<longrightarrow> ref_of old = ref_of ob \<longrightarrow> \<not> removable old
         \<longrightarrow> (\<exists>ob1. f old = Ok ob1 \<and> accepts ob1 \<and> ref_of ob1 = ref_of ob \<and> \<not> removable ob1))
       \<and> (store (ext w) (ref_of ob) = None
         \<longrightarrow> (\<exists>ob1. f ob = Ok ob1 \<and> accepts ob1 \<and> ref_of ob1 = ref_of ob \<and> \<not> removable ob1))
       \<and> (\<forall>m'. upserted ob f (store (ext w)) m' \<longrightarrow> Q () m')"
  moreover from this upsert_serves [OF x(1)] store_ref store_live have "x = Ok ()"
    by (cases "store (ext w) (ref_of ob)") auto
  ultimately show "\<exists>x. r = Ok x \<and> Q x (store (ext w'))" using upsert [OF x(1)] x(2) by simp
qed

lemma wp_check: "progress outages store (\<lambda>m. err = None \<and> Q () m) (check_error err) Q"
  by (auto simp: check_error_def progress_def go_defs split: option.splits)

lemmas wp_rules =
  wp_List wp_Get wp_Create wp_Update wp_Patch wp_Delete wp_CreateOrUpdate wp_check
  wp_return wp_err wp_panic wp_lift wp_Join wp_seq wp_try wp_branches wp_bind

end

section \<open>The in-memory server serves\<close>

definition mem_outages :: "mem \<Rightarrow> nat" where
  "mem_outages s = length (filter (\<lambda>fault. fault \<noteq> None) (memFaults s))"

lemma mem_outages_with_faults:
  assumes run: "with_faults err f s = (r, s')" and f: "\<And>s. memFaults (snd (f s)) = memFaults s"
  shows "mem_outages s' \<le> mem_outages s \<and> (mem_outages s' = mem_outages s
    \<longrightarrow> (\<exists>s0. f s0 = (r, s') \<and> mem_objects s0 = mem_objects s))"
proof (cases "memFaults s")
  case Nil
  with run f [of s] show ?thesis by (auto simp: with_faults_def mem_outages_def)
next
  case (Cons x fs)
  show ?thesis
  proof (cases x)
    case None
    with Cons run have "f (s\<lparr>memFaults := fs\<rparr>) = (r, s')" by (simp add: with_faults_def)
    moreover from this f [of "s\<lparr>memFaults := fs\<rparr>"] None Cons have "mem_outages s' = mem_outages s"
      by (simp add: mem_outages_def)
    ultimately show ?thesis by (intro conjI impI exI [of _ "s\<lparr>memFaults := fs\<rparr>"]) simp_all
  next
    case (Some msg)
    with Cons run have "s' = s\<lparr>memFaults := fs\<rparr>" by (simp add: with_faults_def)
    with Some Cons show ?thesis by (simp add: mem_outages_def)
  qed
qed

lemma find_ref_some: "find_ref r (mem_objects s) = Some ob \<Longrightarrow> mem_store s r = Some ob"
  by (simp add: find_ref_store)

interpretation mem_serves: kube_serves "mem_client 0" mem_store mem_outages "\<lambda>_. True"
proof unfold_locales
  show "mem_outages s' \<le> mem_outages s \<and> (mem_outages s' = mem_outages s \<longrightarrow> (\<forall>e. r = Inl e \<longrightarrow> IsNotFound e))"
    if "cGet (mem_client 0) k key s = (r, s')" for k key s r s'
    using that unfolding mem_client_def
    by simp (drule mem_outages_with_faults; force split: option.splits)
  show "mem_outages s' \<le> mem_outages s \<and> (mem_outages s' = mem_outages s
      \<longrightarrow> (\<exists>obs. r = Inr obs \<and> distinct (map ref_of obs)))"
    if "cList (mem_client 0) k lo s = (r, s')" for k lo s r s'
    using that mem_objects_wf [of s] unfolding mem_client_def
    by simp (drule mem_outages_with_faults; force simp: wf_objects_def distinct_map_filter)
  show "mem_outages s' \<le> mem_outages s \<and> (mem_outages s' = mem_outages s \<longrightarrow> True \<longrightarrow> \<not> removable ob
      \<longrightarrow> (\<forall>e. r = Some e \<longrightarrow> IsAlreadyExists e))"
    if "cCreate (mem_client 0) ob s = (r, s')" for ob s r s'
    using that unfolding mem_client_def
    by simp (drule mem_outages_with_faults; force split: option.splits)
  show "mem_outages s' \<le> mem_outages s \<and> (mem_outages s' = mem_outages s \<longrightarrow> True
      \<longrightarrow> (\<exists>old. mem_store s (ref_of ob) = Some old \<and> same_meta old ob) \<longrightarrow> (\<exists>ob'. r = Inr ob'))"
    if "cUpdate (mem_client 0) ob s = (r, s')" for ob s r s'
    using that unfolding mem_client_def find_ref_store [symmetric]
    by simp (drule mem_outages_with_faults; force split: option.splits)
  show "mem_outages s' \<le> mem_outages s \<and> (mem_outages s' = mem_outages s \<longrightarrow> True \<longrightarrow> \<not> removable ob
      \<longrightarrow> mem_store s (ref_of ob) \<noteq> None \<longrightarrow> r = None)"
    if "cPatch (mem_client 0) ob base s = (r, s')" for ob base s r s'
    using that unfolding mem_client_def find_ref_store [symmetric]
    by simp (drule mem_outages_with_faults; force split: option.splits)
  show "mem_outages s' \<le> mem_outages s \<and> (mem_outages s' = mem_outages s \<longrightarrow> (\<forall>e. r = Some e \<longrightarrow> IsNotFound e))"
    if "cDelete (mem_client 0) ob s = (r, s')" for ob s r s'
    using that unfolding mem_client_def
    by simp (drule mem_outages_with_faults; force split: option.splits)
  show "mem_outages s' \<le> mem_outages s \<and> (mem_outages s' = mem_outages s
      \<longrightarrow> (\<exists>ob1. f (case mem_store s (ref_of ob) of None \<Rightarrow> ob | Some old \<Rightarrow> old) = Ok ob1
             \<and> True \<and> ref_of ob1 = ref_of ob \<and> \<not> removable ob1) \<longrightarrow> r = Ok ())"
    if "cCreateOrUpdate (mem_client 0) ob f s = (r, s')" for ob f s r s'
    using that unfolding mem_client_def find_ref_store [symmetric]
    by simp (drule mem_outages_with_faults; force split: option.splits res.splits)
qed

end
