(* ===== verification/ServiceAccounts.thy ===== *)
theory ServiceAccounts
  imports MemStore
begin

text \<open>
  \<^verbatim>\<open>internal/serviceaccount\<close>: the reconciler of Kubernetes service accounts, their Google
  service accounts (IAMServiceAccount) and the IAM policy members that connect them.

  \<open>CreateOrUpdateServiceAccounts\<close> makes them exist for every account of the
  specification; \<open>cleanupServiceAccount\<close> and the loops above it delete what belongs to
  accounts no longer in it. Errors of a cleanup are collected and joined; everywhere else
  the first error is returned.
\<close>

section \<open>The reconciler and its metadata (\<^verbatim>\<open>reconciler.go\<close>)\<close>

definition UnionProjectLabel :: string where
  "UnionProjectLabel = ''union.nav.no/project''"

definition UnionDomainLabel :: string where
  "UnionDomainLabel = ''union.nav.no/domain''"

record 's SAReconciler =
  sarClient :: "'s client"
  sarFastRegistrationBucket :: string
  sarDataBucket :: string

definition setUnionMetadata :: "object \<Rightarrow> UnionEnv \<Rightarrow> string_map \<Rightarrow> object res" where
  "setUnionMetadata obj unionEnv annotations =
     (case OwnerReferences unionEnv of
        Ok refs \<Rightarrow>
          Ok (set_meta ((meta_of obj)
            \<lparr>metaLabels := (labels_of obj)(UnionProjectLabel \<mapsto> envProject unionEnv,
                UnionDomainLabel \<mapsto> envDomain unionEnv),
             metaAnnotations := metaAnnotations (meta_of obj) ++ annotations,
             metaOwnerReferences := refs\<rparr>) obj)
      | Err e \<Rightarrow> Err e
      | Panic \<Rightarrow> Panic)"

section \<open>Policy members (\<^verbatim>\<open>iam.go\<close>)\<close>

record IAMPolicyMemberOpts =
  optName :: string
  optRole :: string
  optKind :: string
  optExternal :: string
  optCondition :: "IAMCondition option"
  optMember :: string
  optAPIVersion :: string

definition quoted :: "string \<Rightarrow> string" where
  "quoted s = [CHR 0x22] @ s @ [CHR 0x22]"

definition data_bucket_expression :: "string \<Rightarrow> string \<Rightarrow> string \<Rightarrow> string" where
  "data_bucket_expression bucket project domain =
     ''resource.name.startsWith('' @ quoted (''projects/_/buckets/'' @ bucket
         @ ''/objects/metadata/v2/union-nav/'' @ project @ ''/'' @ domain @ ''/'') @ '') ||''
     @ [CHR 0x0A] @ ''resource.name == '' @ quoted (''projects/_/buckets/'' @ bucket) @ '' ||''
     @ [CHR 0x0A] @ ''resource.name.extract('' @ quoted (''projects/_/buckets/'' @ bucket
         @ ''/objects/{hash}/union-nav/'' @ project @ ''/'' @ domain @ ''/'') @ '') != ''
     @ quoted []"

definition workloadIdentity :: "ServiceAccount \<Rightarrow> IAMPolicyMemberOpts" where
  "workloadIdentity sa =
     \<lparr>optName = saName sa @ ''-workload-identity-user'',
      optRole = ''roles/iam.workloadIdentityUser'',
      optKind = ''IAMServiceAccount'',
      optExternal = ''projects/'' @ envGCPProjectName (saUnionEnv sa) @ ''/serviceAccounts/''
        @ GoogleServiceAccountEmail sa,
      optCondition = None,
      optMember = envGCPProjectName (saUnionEnv sa) @ ''.svc.id.goog['' @ Namespace (saUnionEnv sa)
        @ ''/'' @ saName sa @ '']'',
      optAPIVersion = ''iam.cnrm.cloud.google.com/v1beta1''\<rparr>"

definition dataBucket :: "'s SAReconciler \<Rightarrow> ServiceAccount \<Rightarrow> IAMPolicyMemberOpts" where
  "dataBucket r sa =
     \<lparr>optName = saName sa @ ''-union-data-bucket-object-admin'',
      optRole = ''roles/storage.objectAdmin'',
      optKind = ''StorageBucket'',
      optExternal = sarDataBucket r,
      optCondition = Some
        \<lparr>condTitle = ''UnionDataBucketAccess'',
         condDescription = ''Allow access to project '' @ saProject sa @ '', domain ''
           @ saDomain sa @ '' in Union data bucket'',
         condExpression = data_bucket_expression (sarDataBucket r) (saProject sa) (saDomain sa)\<rparr>,
      optMember = GoogleServiceAccountEmail sa,
      optAPIVersion = ''storage.cnrm.cloud.google.com/v1beta1''\<rparr>"

definition dataBucketViewer :: "'s SAReconciler \<Rightarrow> ServiceAccount \<Rightarrow> IAMPolicyMemberOpts" where
  "dataBucketViewer r sa =
     \<lparr>optName = saName sa @ ''-union-data-bucket-viewer'',
      optRole = ''roles/storage.bucketViewer'',
      optKind = ''StorageBucket'',
      optExternal = sarDataBucket r,
      optCondition = None,
      optMember = GoogleServiceAccountEmail sa,
      optAPIVersion = ''storage.cnrm.cloud.google.com/v1beta1''\<rparr>"

definition fastRegistrationBucket :: "'s SAReconciler \<Rightarrow> ServiceAccount \<Rightarrow> IAMPolicyMemberOpts" where
  "fastRegistrationBucket r sa =
     \<lparr>optName = saName sa @ ''-union-fast-registration-bucket-viewer'',
      optRole = ''roles/storage.objectViewer'',
      optKind = ''StorageBucket'',
      optExternal = sarFastRegistrationBucket r,
      optCondition = None,
      optMember = GoogleServiceAccountEmail sa,
      optAPIVersion = ''storage.cnrm.cloud.google.com/v1beta1''\<rparr>"

definition policyMembers :: "'s SAReconciler \<Rightarrow> ServiceAccount \<Rightarrow> IAMPolicyMemberOpts list" where
  "policyMembers r sa =
     [workloadIdentity sa, dataBucket r sa, dataBucketViewer r sa, fastRegistrationBucket r sa]"

definition newIAMPolicyMember :: "UnionEnv \<Rightarrow> IAMPolicyMemberOpts \<Rightarrow> object" where
  "newIAMPolicyMember unionEnv opts = IAMPolicyMemberObj
     \<lparr>pmMeta = (new_meta (optName opts) (Namespace unionEnv) Map.empty)
        \<lparr>metaAnnotations :=
           [''cnrm.cloud.google.com/project-id'' \<mapsto> envGCPProjectName unionEnv]\<rparr>,
      pmSpec = \<lparr>pmMember = ''serviceAccount:'' @ optMember opts, pmRole = optRole opts,
        pmCondition = optCondition opts,
        pmResourceRef = \<lparr>refApiVersion = optAPIVersion opts, refExternal = Some (optExternal opts),
          refKind = optKind opts, refName = None\<rparr>\<rparr>,
      pmStatus = \<lparr>pmsConditions = [], pmsObservedGeneration = 0\<rparr>\<rparr>"

definition createIAMPolicyMember ::
    "'s SAReconciler \<Rightarrow> UnionEnv \<Rightarrow> IAMPolicyMemberOpts \<Rightarrow> ('s world, unit) go" where
  "createIAMPolicyMember r unionEnv opts =
     go_bind (k8s_Get (sarClient r) IAMPolicyMemberKind (Namespace unionEnv, optName opts))
       (\<lambda>reply. case reply of
          Inr existing \<Rightarrow> go_return ()
        | Inl e \<Rightarrow>
            (if IsNotFound e then
               go_bind (go_lift (setUnionMetadata (newIAMPolicyMember unionEnv opts) unionEnv Map.empty))
                 (\<lambda>member. go_bind (k8s_Create (sarClient r) member)
                   (\<lambda>err. case err of
                      None \<Rightarrow> go_return ()
                    | Some e \<Rightarrow>
                        if IsAlreadyExists e then go_return () else go_err (ApiError e)))
             else go_err (ApiError e)))"

definition createIAMPolicyMembers :: "'s SAReconciler \<Rightarrow> ServiceAccount \<Rightarrow> ('s world, unit) go" where
  "createIAMPolicyMembers r sa =
     for_each (createIAMPolicyMember r (saUnionEnv sa)) (policyMembers r sa)"

section \<open>Service accounts (\<^verbatim>\<open>iam.go\<close>)\<close>

definition project_id_annotation :: "ServiceAccount \<Rightarrow> string_map" where
  "project_id_annotation sa =
     [''cnrm.cloud.google.com/project-id'' \<mapsto> envGCPProjectName (saUnionEnv sa)]"

text \<open>
  The account is created with its display name; on an existing one only labels,
  annotations and owner are patched, against the copy taken before they are set.
\<close>

definition reconcileIAMServiceAccount :: "'s SAReconciler \<Rightarrow> ServiceAccount \<Rightarrow> ('s world, unit) go" where
  "reconcileIAMServiceAccount r sa =
     go_bind (k8s_Get (sarClient r) IAMServiceAccountKind
         (Namespace (saUnionEnv sa), GoogleServiceAccountName sa))
       (\<lambda>reply. case reply of
          Inl e \<Rightarrow>
            (if \<not> IsNotFound e then go_err (ApiError e)
             else go_bind (go_lift (setUnionMetadata (IAMServiceAccountObj
                 \<lparr>iamMeta = new_meta (GoogleServiceAccountName sa) (Namespace (saUnionEnv sa)) Map.empty,
                  iamDisplayName = GoogleServiceAccountDisplayName sa\<rparr>)
                 (saUnionEnv sa) (project_id_annotation sa)))
               (\<lambda>obj. go_bind (k8s_Create (sarClient r) obj)
                 (\<lambda>err. case err of
                    None \<Rightarrow> go_return ()
                  | Some e \<Rightarrow>
                      if IsAlreadyExists e then go_return () else go_err (ApiError e))))
        | Inr base \<Rightarrow>
            go_bind (go_lift (setUnionMetadata base (saUnionEnv sa) (project_id_annotation sa)))
              (\<lambda>obj. go_bind (k8s_Patch (sarClient r) obj base) check_error))"

definition newK8sServiceAccount :: "ServiceAccount \<Rightarrow> object" where
  "newK8sServiceAccount sa = ServiceAccountObj
     \<lparr>ksaMeta = new_meta (saName sa) (Namespace (saUnionEnv sa)) Map.empty,
      ksaImagePullSecrets = [AKImagePullSecretName sa]\<rparr>"

definition gcp_annotation :: "ServiceAccount \<Rightarrow> string_map" where
  "gcp_annotation sa = [''iam.gke.io/gcp-service-account'' \<mapsto> GoogleServiceAccountEmail sa]"

definition reconcileServiceAccount :: "'s SAReconciler \<Rightarrow> ServiceAccount \<Rightarrow> ('s world, unit) go" where
  "reconcileServiceAccount r sa =
     k8s_CreateOrUpdate (sarClient r) (newK8sServiceAccount sa)
       (\<lambda>obj. setUnionMetadata obj (saUnionEnv sa) (gcp_annotation sa))"

definition reconcileServiceAccountForDomain ::
    "'s SAReconciler \<Rightarrow> ServiceAccount \<Rightarrow> ('s world, unit) go" where
  "reconcileServiceAccountForDomain r sa =
     go_seq (reconcileIAMServiceAccount r sa) (reconcileServiceAccount r sa)"

section \<open>Cleanup (\<^verbatim>\<open>cleanup.go\<close>)\<close>

definition policyMemberNames :: "ServiceAccount \<Rightarrow> string list" where
  "policyMemberNames sa =
     [saName sa @ ''-workload-identity-user'',
      saName sa @ ''-union-data-bucket-object-admin'',
      saName sa @ ''-union-fast-registration-bucket-viewer'']"

definition cleanupIAMPolicyMembers :: "'s SAReconciler \<Rightarrow> ServiceAccount \<Rightarrow> ('s world, unit) go" where
  "cleanupIAMPolicyMembers r sa =
     go_bind
       (fold_go (\<lambda>name errs.
          go_bind (k8s_Get (sarClient r) IAMPolicyMemberKind (Namespace (saUnionEnv sa), name))
            (\<lambda>reply. case reply of
               Inl e \<Rightarrow> go_return (if IsNotFound e then errs else errs @ [ApiError e])
             | Inr existing \<Rightarrow>
                 go_bind (k8s_Delete (sarClient r) existing)
                   (\<lambda>err. case err of
                      None \<Rightarrow> go_return errs
                    | Some e \<Rightarrow> go_return (if IsNotFound e then errs else errs @ [ApiError e]))))
          (policyMemberNames sa) [])
       errors_Join"

definition cleanupServiceAccount :: "'s SAReconciler \<Rightarrow> ServiceAccount \<Rightarrow> ('s world, unit) go" where
  "cleanupServiceAccount r sa =
     go_bind (go_try (cleanupIAMPolicyMembers r sa)) (\<lambda>res.
       let errs = (case res of Inl e \<Rightarrow> [e] | Inr _ \<Rightarrow> []) in
       go_bind (k8s_Get (sarClient r) IAMServiceAccountKind
           (Namespace (saUnionEnv sa), GoogleServiceAccountName sa))
         (\<lambda>reply. case reply of
            Inl e \<Rightarrow> errors_Join (if IsNotFound e then errs else errs @ [ApiError e])
          | Inr googleServiceAccount \<Rightarrow>
              go_bind (k8s_Delete (sarClient r) googleServiceAccount)
                (\<lambda>err. case err of
                   None \<Rightarrow> errors_Join errs
                 | Some e \<Rightarrow> errors_Join (errs @ [ApiError e]))))"

text \<open>The body the three loops over existing service accounts share.\<close>

definition cleanup_existing ::
    "'s SAReconciler \<Rightarrow> UnionEnv \<Rightarrow> object \<Rightarrow> goerror list \<Rightarrow> ('s world, goerror list) go" where
  "cleanup_existing r unionEnv sa errs =
     go_bind (go_try (cleanupServiceAccount r (ServiceAccountByName unionEnv (name_of sa))))
       (\<lambda>res. case res of
          Inl e \<Rightarrow> go_return (errs @ [e])
        | Inr _ \<Rightarrow>
            go_bind (k8s_Delete (sarClient r) sa)
              (\<lambda>err. case err of
                 None \<Rightarrow> go_return errs
               | Some e \<Rightarrow> go_return (if IsNotFound e then errs else errs @ [ApiError e])))"

definition union_labels :: "UnionEnv \<Rightarrow> list_opts" where
  "union_labels unionEnv =
     \<lparr>loNamespace = None,
      loLabels = [(UnionProjectLabel, envProject unionEnv), (UnionDomainLabel, envDomain unionEnv)]\<rparr>"

definition CleanupAllResources :: "'s SAReconciler \<Rightarrow> UnionEnv \<Rightarrow> ('s world, unit) go" where
  "CleanupAllResources r unionEnv =
     go_bind (go_bind (k8s_List (sarClient r) ServiceAccountKind (union_labels unionEnv)) check_reply)
       (\<lambda>items. go_bind (fold_go (cleanup_existing r unionEnv) items []) errors_Join)"

primrec containsSA :: "string \<Rightarrow> ServiceAccount list \<Rightarrow> bool" where
  "containsSA name [] = False"
| "containsSA name (s # serviceAccounts) =
     (if saName s = name then True else containsSA name serviceAccounts)"

definition CleanupRemovedServiceAccounts ::
    "'s SAReconciler \<Rightarrow> UnionEnv \<Rightarrow> ServiceAccount list \<Rightarrow> ('s world, unit) go" where
  "CleanupRemovedServiceAccounts r unionEnv serviceAccounts =
     go_bind (go_bind (k8s_List (sarClient r) ServiceAccountKind (union_labels unionEnv)) check_reply)
       (\<lambda>items. go_bind
          (fold_go (\<lambda>sa errs.
             if \<not> containsSA (name_of sa) serviceAccounts
             then cleanup_existing r unionEnv sa errs else go_return errs) items [])
          errors_Join)"

text \<open>The unexported function of the same purpose, with \<^verbatim>\<open>slices.ContainsFunc\<close>.\<close>

definition cleanupRemovedServiceAccounts ::
    "'s SAReconciler \<Rightarrow> UnionEnv \<Rightarrow> ServiceAccount list \<Rightarrow> ('s world, unit) go" where
  "cleanupRemovedServiceAccounts r unionEnv serviceAccounts =
     go_bind (go_bind (k8s_List (sarClient r) ServiceAccountKind (union_labels unionEnv)) check_reply)
       (\<lambda>items. go_bind
          (fold_go (\<lambda>k8sSa errs.
             if list_ex (\<lambda>s. saName s = name_of k8sSa) serviceAccounts then go_return errs
             else cleanup_existing r unionEnv k8sSa errs) items [])
          errors_Join)"

definition CreateOrUpdateServiceAccounts ::
    "'s SAReconciler \<Rightarrow> UnionEnv \<Rightarrow> ServiceAccount list \<Rightarrow> ('s world, unit) go" where
  "CreateOrUpdateServiceAccounts r unionEnv serviceAccounts =
     go_seq
       (for_each (\<lambda>sa. go_seq (reconcileServiceAccountForDomain r sa) (createIAMPolicyMembers r sa))
          serviceAccounts)
       (cleanupRemovedServiceAccounts r unionEnv serviceAccounts)"

section \<open>Metadata\<close>

lemma setUnionMetadata_OkD:
  assumes "setUnionMetadata ob u a = Ok ob'"
  shows "kind_of ob' = kind_of ob" "ref_of ob' = ref_of ob"
    "name_of ob' = name_of ob" "namespace_of ob' = namespace_of ob"
    "labels_of ob' = (labels_of ob)(UnionProjectLabel \<mapsto> envProject u, UnionDomainLabel \<mapsto> envDomain u)"
    "metaAnnotations (meta_of ob') = metaAnnotations (meta_of ob) ++ a"
    "OwnerReferences u = Ok (metaOwnerReferences (meta_of ob'))"
    "metaDeletionTimestamp (meta_of ob') = metaDeletionTimestamp (meta_of ob)"
    "metaFinalizers (meta_of ob') = metaFinalizers (meta_of ob)"
    "set_meta (meta_of ob') ob = ob'"
  using assms by (auto simp: setUnionMetadata_def ref_of_def split: res.splits)

text \<open>
  Setting the union metadata replaces the owner references, sets the project and
  domain labels and the given annotations, keeps every other label and annotation and the
  rest of the object, and setting it twice is setting it once. It panics exactly when the
  environment has no owner, and never returns an error.
\<close>

lemma setUnionMetadata_spec:
  "case setUnionMetadata ob u a of
     Ok ob' \<Rightarrow> envUTSAOwnerReference u \<noteq> None
       \<and> (\<forall>k. labels_of ob' k = (if k = ''union.nav.no/domain'' then Some (envDomain u)
            else if k = ''union.nav.no/project'' then Some (envProject u) else labels_of ob k))
       \<and> (\<forall>k. metaAnnotations (meta_of ob') k
            = (case a k of Some v \<Rightarrow> Some v | None \<Rightarrow> metaAnnotations (meta_of ob) k))
       \<and> OwnerReferences u = Ok (metaOwnerReferences (meta_of ob'))
       \<and> set_meta (meta_of ob') ob = ob' \<and> ref_of ob' = ref_of ob
       \<and> setUnionMetadata ob' u a = Ok ob'
   | Err e \<Rightarrow> False
   | Panic \<Rightarrow> envUTSAOwnerReference u = None"
proof (cases "envUTSAOwnerReference u")
  case None
  then show ?thesis by (simp add: setUnionMetadata_def OwnerReferences_def)
next
  case (Some o1)
  then obtain ob' where ob': "setUnionMetadata ob u a = Ok ob'"
    by (simp add: setUnionMetadata_def OwnerReferences_def)
  note D = setUnionMetadata_OkD [OF this]
  have labels: "(labels_of ob')(UnionProjectLabel \<mapsto> envProject u, UnionDomainLabel \<mapsto> envDomain u)
      = labels_of ob'"
    unfolding D(5) by (auto simp: fun_eq_iff)
  have annotations: "metaAnnotations (meta_of ob') ++ a = metaAnnotations (meta_of ob')"
    unfolding D(6) by (auto simp: fun_eq_iff map_add_def split: option.splits)
  have "(meta_of ob')\<lparr>metaLabels := labels_of ob', metaAnnotations := metaAnnotations (meta_of ob'),
      metaOwnerReferences := metaOwnerReferences (meta_of ob')\<rparr> = meta_of ob'"
    by simp
  then have "setUnionMetadata ob' u a = Ok (set_meta (meta_of ob') ob')"
    by (simp only: setUnionMetadata_def D(7) res.case labels annotations)
  moreover have "\<And>k. (metaAnnotations (meta_of ob) ++ a) k
      = (case a k of Some v \<Rightarrow> Some v | None \<Rightarrow> metaAnnotations (meta_of ob) k)"
    by (simp add: map_add_def)
  ultimately show ?thesis
    using Some ob' D by (auto simp: UnionProjectLabel_def UnionDomainLabel_def)
qed

section \<open>One function under two names\<close>

lemma containsSA_iff: "containsSA name sas \<longleftrightarrow> name \<in> saName ` set sas"
  by (induction sas) auto

lemma list_ex_saName: "list_ex (\<lambda>s. saName s = name) sas \<longleftrightarrow> name \<in> saName ` set sas"
  by (auto simp: list_ex_iff)

text \<open>
  The exported and the unexported function that remove what belongs to accounts no
  longer in the specification are the same program, so a reconciliation runs it twice.
\<close>

lemma cleanupRemovedServiceAccounts_eq:
  "cleanupRemovedServiceAccounts r u sas = CleanupRemovedServiceAccounts r u sas"
proof -
  have "(\<lambda>sa errs. if list_ex (\<lambda>s. saName s = name_of sa) sas then go_return errs
           else cleanup_existing r u sa errs)
      = (\<lambda>sa errs. if \<not> containsSA (name_of sa) sas then cleanup_existing r u sa errs
           else go_return errs)"
    by (intro ext) (simp add: containsSA_iff list_ex_saName)
  then show ?thesis
    by (simp add: cleanupRemovedServiceAccounts_def CleanupRemovedServiceAccounts_def)
qed

section \<open>What is written, for any client\<close>

definition union_object :: "UnionEnv \<Rightarrow> object \<Rightarrow> bool" where
  "union_object u ob \<longleftrightarrow>
     labels_of ob UnionProjectLabel = Some (envProject u)
     \<and> labels_of ob UnionDomainLabel = Some (envDomain u)
     \<and> OwnerReferences u = Ok (metaOwnerReferences (meta_of ob))"

lemma setUnionMetadata_union_object: "setUnionMetadata ob u a = Ok ob' \<Longrightarrow> union_object u ob'"
  by (auto simp: union_object_def setUnionMetadata_OkD UnionProjectLabel_def UnionDomainLabel_def)

text \<open>
  The calls \<open>CreateOrUpdateServiceAccounts\<close> may make: reads; creations and upserts in
  the environment's namespace of objects with its labels and owner; patches that change
  metadata only; deletions.
\<close>

fun sa_event :: "UnionEnv \<Rightarrow> event \<Rightarrow> bool" where
  "sa_event u (EGet k key r) \<longleftrightarrow> k \<in> {IAMServiceAccountKind, IAMPolicyMemberKind}
     \<and> fst key = Namespace u"
| "sa_event u (EList k lo r) \<longleftrightarrow> k = ServiceAccountKind \<and> lo = union_labels u"
| "sa_event u (ECreate ob r) \<longleftrightarrow> kind_of ob \<in> {IAMServiceAccountKind, IAMPolicyMemberKind}
     \<and> namespace_of ob = Namespace u \<and> union_object u ob"
| "sa_event u (EPatch ob base r) \<longleftrightarrow> set_meta (meta_of ob) base = ob \<and> union_object u ob"
| "sa_event u (ECreateOrUpdate ob f r) \<longleftrightarrow> kind_of ob = ServiceAccountKind
     \<and> namespace_of ob = Namespace u
     \<and> (\<forall>x y. f x = Ok y \<longrightarrow> union_object u y \<and> ref_of y = ref_of x)"
| "sa_event u (EDelete ob r) \<longleftrightarrow> True"
| "sa_event u _ \<longleftrightarrow> False"

lemma emits_createIAMPolicyMember: "emits (sa_event u) (createIAMPolicyMember r u opts)"
  unfolding createIAMPolicyMember_def
  by (rule emits_rules
      | auto simp: newIAMPolicyMember_def setUnionMetadata_OkD
          intro: setUnionMetadata_union_object split: sum.splits option.splits)+

lemma emits_reconcileIAMServiceAccount:
  "saUnionEnv sa = u \<Longrightarrow> emits (sa_event u) (reconcileIAMServiceAccount r sa)"
  unfolding reconcileIAMServiceAccount_def
  by (rule emits_rules
      | auto simp: setUnionMetadata_OkD
          intro: setUnionMetadata_union_object split: sum.splits option.splits)+

lemma emits_reconcileServiceAccount:
  "saUnionEnv sa = u \<Longrightarrow> emits (sa_event u) (reconcileServiceAccount r sa)"
  unfolding reconcileServiceAccount_def
  by (rule emits_rules) (auto simp: newK8sServiceAccount_def setUnionMetadata_OkD
      intro: setUnionMetadata_union_object)

lemma emits_cleanupServiceAccount:
  "saUnionEnv sa = u \<Longrightarrow> emits (sa_event u) (cleanupServiceAccount r sa)"
  unfolding cleanupServiceAccount_def cleanupIAMPolicyMembers_def Let_def
  by (rule emits_rules | auto split: sum.splits option.splits)+

lemma emits_cleanup_existing: "emits (sa_event u) (cleanup_existing r u ob errs)"
  unfolding cleanup_existing_def
  by (rule emits_rules emits_cleanupServiceAccount | auto split: sum.splits option.splits)+

lemma emits_CleanupRemovedServiceAccounts:
  "emits (sa_event u) (CleanupRemovedServiceAccounts r u sas)"
  unfolding CleanupRemovedServiceAccounts_def
  by (rule emits_rules emits_cleanup_existing | auto)+

lemma CreateOrUpdateServiceAccounts_emits:
  "emits (sa_event u) (CreateOrUpdateServiceAccounts r u (map (mkServiceAccount u) accounts))"
  unfolding CreateOrUpdateServiceAccounts_def reconcileServiceAccountForDomain_def
    createIAMPolicyMembers_def cleanupRemovedServiceAccounts_eq
  by (rule emits_rules emits_reconcileServiceAccount emits_reconcileIAMServiceAccount
      emits_createIAMPolicyMember emits_CleanupRemovedServiceAccounts
      | auto intro: emits_createIAMPolicyMember)+

text \<open>
  C18. Whatever the client answers, \<open>CreateOrUpdateServiceAccounts\<close> for the accounts of
  an environment creates and upserts objects in that environment's namespace only, always
  with its project and domain labels and its owner; it never updates an object outright,
  and a patch leaves everything but the metadata as it was read.
\<close>

theorem CreateOrUpdateServiceAccounts_writes:
  "emits (sa_event u) (CreateOrUpdateServiceAccounts r u (map (mkServiceAccount u) accounts))"
  by (rule CreateOrUpdateServiceAccounts_emits)

section \<open>The cluster after a cleanup\<close>

text \<open>What belongs to the account of a name: the references a cleanup may delete.\<close>

definition cleanup_refs :: "UnionEnv \<Rightarrow> string \<Rightarrow> obj_ref set" where
  "cleanup_refs u name =
     insert (IAMServiceAccountKind,
         (Namespace u, GoogleServiceAccountName (ServiceAccountByName u name)))
       ((\<lambda>n. (IAMPolicyMemberKind, (Namespace u, n)))
          ` set (policyMemberNames (ServiceAccountByName u name)))"

context kube_api
begin

text \<open>Deleting an object that was read under a reference touches that reference only.\<close>

lemma safe_Get_Delete:
  assumes "sarClient r = c" and ref: "(k, key) \<in> F"
    and Inl: "\<And>e. safe (on_store store (same_off F)) (f e)"
    and then_do: "\<And>err. safe (on_store store (same_off F)) (g err)"
  shows "safe (on_store store (same_off F))
    (go_bind (k8s_Get c k key) (\<lambda>reply. case reply of
        Inl e \<Rightarrow> f e | Inr ob \<Rightarrow> go_bind (k8s_Delete c ob) g))"
proof (rule frame.safe_bind_Ok)
  show "safe (on_store store (same_off F)) (k8s_Get c k key)"
    by (rule safe_Get) simp
  fix x w w'
  assume got: "k8s_Get c k key w = (Ok x, w')"
  show "safe (on_store store (same_off F))
      (case x of Inl e \<Rightarrow> f e | Inr ob \<Rightarrow> go_bind (k8s_Delete c ob) g)"
  proof (cases x)
    case (Inr ob)
    with got have "store (ext w) (k, key) = Some ob" by (auto elim: Get_OkD)
    then have "ref_of ob \<in> F" using ref by (auto dest: store_ref)
    then have "safe (on_store store (same_off F)) (k8s_Delete c ob)"
      by (auto intro!: safe_Delete intro: deleted_same_off)
    with Inr then_do show ?thesis by (auto intro: frame.safe_bind)
  qed (simp add: Inl)
qed

lemma frame_cleanupIAMPolicyMembers:
  assumes "sarClient r = c" and "(\<lambda>n. (IAMPolicyMemberKind, (Namespace (saUnionEnv sa), n)))
      ` set (policyMemberNames sa) \<subseteq> F"
  shows "safe (on_store store (same_off F)) (cleanupIAMPolicyMembers r sa)"
  unfolding cleanupIAMPolicyMembers_def assms(1) using assms
  by (intro frame.safe_bind frame.safe_fold_go safe_Get_Delete) (auto split: option.splits)

lemma frame_cleanupServiceAccount:
  assumes "sarClient r = c"
  shows "safe (on_store store (same_off (cleanup_refs u name)))
           (cleanupServiceAccount r (ServiceAccountByName u name))"
  unfolding cleanupServiceAccount_def assms Let_def using assms
  by (intro frame.safe_bind frame.safe_try frame_cleanupIAMPolicyMembers safe_Get_Delete)
    (auto simp: cleanup_refs_def split: sum.splits option.splits)

lemma frame_cleanup_existing:
  assumes "sarClient r = c"
  shows "safe (on_store store (same_off (insert (ref_of ob) (cleanup_refs u (name_of ob)))))
           (cleanup_existing r u ob errs)"
  unfolding cleanup_existing_def assms
  by (intro frame.safe_bind frame.safe_try safe_same_off_mono [OF frame_cleanupServiceAccount [OF assms]])
    (auto intro!: frame.safe_bind safe_Delete intro: deleted_same_off split: sum.splits option.splits)

end

text \<open>What the removal of the accounts not in a list may delete.\<close>

definition removed_refs :: "UnionEnv \<Rightarrow> string set \<Rightarrow> obj_ref set" where
  "removed_refs u names =
     {r. \<exists>n. n \<notin> names \<and> (r \<in> cleanup_refs u n \<or> (\<exists>ns. r = (ServiceAccountKind, (ns, n))))}"

context kube_api
begin

lemma frame_CleanupRemovedServiceAccounts:
  assumes r: "sarClient r = c"
  shows "safe (on_store store (same_off (removed_refs u (saName ` set sas))))
           (CleanupRemovedServiceAccounts r u sas)"
  unfolding CleanupRemovedServiceAccounts_def r
proof (rule frame.safe_bind_Ok)
  let ?R = "on_store store (same_off (removed_refs u (saName ` set sas)))"
  let ?list = "go_bind (k8s_List c ServiceAccountKind (union_labels u)) check_reply"
  show "safe ?R ?list"
    by (intro frame.safe_bind safe_List) simp_all
  fix items w w'
  assume "?list w = (Ok items, w')"
  then have kind: "kind_of ob = ServiceAccountKind" if "ob \<in> set items" for ob
    using that by (auto elim!: go_bind_OkE elim: List_OkD)
  have "safe ?R (cleanup_existing r u ob errs)"
    if "ob \<in> set items" and "\<not> containsSA (name_of ob) sas" for ob errs
    by (rule safe_same_off_mono [OF frame_cleanup_existing [OF r]])
      (use that kind in \<open>auto simp: removed_refs_def containsSA_iff ref_of_def\<close>)
  then show "safe ?R (go_bind (fold_go (\<lambda>sa errs. if \<not> containsSA (name_of sa) sas
      then cleanup_existing r u sa errs else go_return errs) items []) errors_Join)"
    by (intro frame.safe_bind frame.safe_fold_go) auto
qed

end

text \<open>Names with different endings differ.\<close>

lemma viewer_not_cleaned:
  "(IAMPolicyMemberKind, (ns, n @ ''-union-data-bucket-viewer'')) \<notin> removed_refs u names"
proof -
  have "n @ ''-union-data-bucket-viewer'' \<noteq> m @ ''-workload-identity-user''"
    and "n @ ''-union-data-bucket-viewer'' \<noteq> m @ ''-union-data-bucket-object-admin''"
    and "n @ ''-union-data-bucket-viewer'' \<noteq> m @ ''-union-fast-registration-bucket-viewer''" for m
    by (auto dest: arg_cong [where f = rev])
  then show ?thesis
    by (auto simp: removed_refs_def cleanup_refs_def policyMemberNames_def)
qed

text \<open>
  C23. A policy member that is created and never deleted: every account gets a member
  named after it with the ending \<^verbatim>\<open>-union-data-bucket-viewer\<close>, and no removal of service
  accounts changes a member of such a name, whichever accounts are kept and whatever the
  outcome. The grant on the data bucket outlives the account.
\<close>

theorem data_bucket_viewer_leaks:
  assumes "kube_api (sarClient r) store"
  shows "saName sa @ ''-union-data-bucket-viewer'' \<in> optName ` set (policyMembers r sa)
    \<and> store (ext (snd (CleanupRemovedServiceAccounts r u kept w)))
          (IAMPolicyMemberKind, (ns, saName sa @ ''-union-data-bucket-viewer''))
      = store (ext w) (IAMPolicyMemberKind, (ns, saName sa @ ''-union-data-bucket-viewer''))"
  using kube_api.frame_CleanupRemovedServiceAccounts [OF assms refl, of u kept]
  by (auto simp: policyMembers_def dataBucketViewer_def safe_def on_store_def same_off_def
      viewer_not_cleaned)

definition example_reconciler :: "mem SAReconciler" where
  "example_reconciler =
     \<lparr>sarClient = mem_client 0, sarFastRegistrationBucket = ''fast'', sarDataBucket = ''data''\<rparr>"

lemma example_reconciler_fresh: "kube_fresh (sarClient example_reconciler) mem_store"
  by (simp add: example_reconciler_def mem_fresh.kube_fresh_axioms)

lemma example_reconciler_api: "kube_api (sarClient example_reconciler) mem_store"
  by (simp add: example_reconciler_def mem_api.kube_api_axioms)

theorem data_bucket_viewer_leaks_witness:
  "mem_store (ext (snd (CleanupRemovedServiceAccounts example_reconciler example_env []
       (example_world [newIAMPolicyMember example_env
          (dataBucketViewer example_reconciler (ServiceAccountByName example_env ''sa''))]))))
     (IAMPolicyMemberKind, (''proj-dev'', ''sa-union-data-bucket-viewer'')) \<noteq> None"
proof -
  let ?w = "example_world [newIAMPolicyMember example_env
    (dataBucketViewer example_reconciler (ServiceAccountByName example_env ''sa''))]"
  have "mem_store (ext ?w) (IAMPolicyMemberKind, (''proj-dev'', ''sa-union-data-bucket-viewer'')) \<noteq> None"
    by (simp add: example_world_def mem_store_def mem_objects_def newIAMPolicyMember_def
        dataBucketViewer_def removable_def ref_of_def Namespace_def example_env_def)
  then show ?thesis
    using data_bucket_viewer_leaks [OF example_reconciler_api,
        where sa = "ServiceAccountByName example_env ''sa''" and u = example_env and kept = "[]"
          and w = ?w and ns = "''proj-dev''"]
    by simp
qed

section \<open>Removal is complete\<close>

context kube_api
begin

lemma shrink_cleanupIAMPolicyMembers:
  assumes r: "sarClient r = c"
  shows "safe (on_store store shrinks) (cleanupIAMPolicyMembers r sa)"
  unfolding cleanupIAMPolicyMembers_def r
  by (rule shrink.safe_rules
      | auto split: sum.splits option.splits)+

lemma shrink_cleanupServiceAccount:
  assumes r: "sarClient r = c"
  shows "safe (on_store store shrinks) (cleanupServiceAccount r sa)"
  unfolding cleanupServiceAccount_def Let_def r
  by (rule shrink.safe_rules shrink_cleanupIAMPolicyMembers [OF r]
      | auto split: sum.splits option.splits)+

lemma shrink_cleanup_existing:
  assumes r: "sarClient r = c"
  shows "safe (on_store store shrinks) (cleanup_existing r u ob errs)"
  unfolding cleanup_existing_def r
  by (rule shrink.safe_rules shrink_cleanupServiceAccount [OF r]
      | auto split: sum.splits option.splits)+

end

context kube_fresh
begin

lemma cleanupIAMPolicyMembers_gone:
  assumes r: "sarClient r = c" and run: "cleanupIAMPolicyMembers r sa w = (Ok u, w')"
    and n: "n \<in> set (policyMemberNames sa)"
  shows "gone (store (ext w')) (IAMPolicyMemberKind, (Namespace (saUnionEnv sa), n))"
proof -
  let ?ns = "Namespace (saUnionEnv sa)"
  let ?f = "\<lambda>name errs. go_bind (k8s_Get c IAMPolicyMemberKind (?ns, name))
     (\<lambda>reply. case reply of
        Inl e \<Rightarrow> go_return (if IsNotFound e then errs else errs @ [ApiError e])
      | Inr existing \<Rightarrow> go_bind (k8s_Delete c existing)
          (\<lambda>err. case err of None \<Rightarrow> go_return errs
           | Some e \<Rightarrow> go_return (if IsNotFound e then errs else errs @ [ApiError e])))"
  let ?Q = "\<lambda>name w. gone (store (ext w)) (IAMPolicyMemberKind, (?ns, name))"
  from run r have loop: "fold_go ?f (policyMemberNames sa) [] w = (Ok [], w')"
    unfolding cleanupIAMPolicyMembers_def by (auto elim!: go_bind_OkE)
  have body: "\<exists>es. errs' = errs @ es \<and> (es = [] \<longrightarrow> ?Q name w2)"
    if f: "?f name errs w1 = (Ok errs', w2)" for name errs w1 errs' w2
  proof -
    from f obtain reply w3 where get: "k8s_Get c IAMPolicyMemberKind (?ns, name) w1 = (Ok reply, w3)"
      and rest: "(case reply of
        Inl e \<Rightarrow> go_return (if IsNotFound e then errs else errs @ [ApiError e])
      | Inr existing \<Rightarrow> go_bind (k8s_Delete c existing)
          (\<lambda>err. case err of None \<Rightarrow> go_return errs
           | Some e \<Rightarrow> go_return (if IsNotFound e then errs else errs @ [ApiError e]))) w3 = (Ok errs', w2)"
      by (rule go_bind_OkE)
    show ?thesis
    proof (cases reply)
      case (Inl e)
      with get rest show ?thesis
        by (auto split: if_splits intro: Get_NotFound_gone)
    next
      case (Inr ob)
      with rest obtain err where "k8s_Delete c ob w3 = (Ok err, w2)"
        and "errs' = (case err of None \<Rightarrow> errs
           | Some e \<Rightarrow> if IsNotFound e then errs else errs @ [ApiError e])"
        by (auto elim!: go_bind_OkE split: option.splits)
      with get Inr Get_Delete_gone show ?thesis by (fastforce split: option.splits if_splits)
    qed
  qed
  have "\<exists>es :: goerror list. [] = [] @ es \<and> (es = [] \<longrightarrow> (\<forall>name \<in> set (policyMemberNames sa). ?Q name w'))"
  proof (rule fold_go_collect [where R = "on_store store shrinks" and f = ?f and Q = ?Q
        and errs = "[]" and errs' = "[]"])
    show "fold_go ?f (policyMemberNames sa) [] w = (Ok [], w')" by (rule loop)
    show "effect_order (on_store store shrinks)" by (rule shrink.effect_order_axioms)
    show "safe (on_store store shrinks) (?f x errs)" for x errs
      by (auto intro!: shrink.safe_bind split: sum.splits option.splits)
    show "?Q x w2" if "?Q x w1" and "on_store store shrinks w1 w2" for x w1 w2
      using that(2,1) by (rule shrinksD)
  qed (rule body)
  with n show ?thesis by simp
qed

lemma cleanupServiceAccount_gone:
  assumes r: "sarClient r = c"
    and run: "cleanupServiceAccount r (ServiceAccountByName u name) w = (Ok v, w')"
    and ref: "ref \<in> cleanup_refs u name"
  shows "gone (store (ext w')) ref"
proof -
  let ?sa = "ServiceAccountByName u name"
  let ?key = "(Namespace u, GoogleServiceAccountName ?sa)"
  let ?rest = "\<lambda>errs reply. case reply of
      Inl e \<Rightarrow> errors_Join (if IsNotFound e then errs else errs @ [ApiError e])
    | Inr gsa \<Rightarrow> go_bind (k8s_Delete c gsa) (\<lambda>err. case err of
        None \<Rightarrow> errors_Join errs | Some e \<Rightarrow> errors_Join (errs @ [ApiError e]))"
  from run obtain res w1 where first: "go_try (cleanupIAMPolicyMembers r ?sa) w = (Ok res, w1)"
    and second: "go_bind (k8s_Get c IAMServiceAccountKind ?key)
      (?rest (case res of Inl e \<Rightarrow> [e] | Inr _ \<Rightarrow> [])) w1 = (Ok v, w')"
    unfolding cleanupServiceAccount_def r Let_def by (auto elim: go_bind_OkE)
  have rest_safe: "safe (on_store store shrinks) (?rest errs reply)" for errs reply
    by (auto intro!: shrink.safe_bind split: sum.splits option.splits)
  have "res \<noteq> Inl e" for e
    using second by (auto elim!: go_bind_OkE split: sum.splits option.splits if_splits)
  then obtain x where res: "res = Inr x" by (cases res) auto
  with first have members: "cleanupIAMPolicyMembers r ?sa w = (Ok x, w1)"
    by (auto simp: go_try_def split: prod.splits res.splits)
  have no_errs: "(case res of Inl e \<Rightarrow> [e] | Inr _ \<Rightarrow> []) = []" using res by simp
  from second [unfolded no_errs] obtain reply w2
    where get: "k8s_Get c IAMServiceAccountKind ?key w1 = (Ok reply, w2)"
      and tail: "?rest [] reply w2 = (Ok v, w')"
    by (rule go_bind_OkE)
  have "gone (store (ext w')) (IAMServiceAccountKind, ?key)"
  proof (cases reply)
    case (Inl e)
    with tail get show ?thesis by (auto split: if_splits intro: Get_NotFound_gone)
  next
    case (Inr ob)
    with tail get show ?thesis
      by (auto elim!: go_bind_OkE split: option.splits intro: Get_Delete_gone)
  qed
  moreover have "gone (store (ext w')) (IAMPolicyMemberKind, (Namespace u, n))"
    if "n \<in> set (policyMemberNames ?sa)" for n
  proof -
    from cleanupIAMPolicyMembers_gone [OF r members that]
    have "gone (store (ext w1)) (IAMPolicyMemberKind, (Namespace u, n))" by simp
    moreover have "on_store store shrinks w1 w2" using shrink_Get get by (rule safeD)
    moreover have "on_store store shrinks w2 w'" using rest_safe tail by (rule safeD)
    ultimately show ?thesis by (blast dest: shrinksD)
  qed
  ultimately show ?thesis using ref by (auto simp: cleanup_refs_def)
qed

lemma cleanup_existing_gone:
  assumes r: "sarClient r = c" and run: "cleanup_existing r u ob errs w = (Ok errs', w')"
  shows "\<exists>es. errs' = errs @ es \<and> (es = [] \<longrightarrow>
    (\<forall>ref \<in> insert (ref_of ob) (cleanup_refs u (name_of ob)). gone (store (ext w')) ref))"
proof -
  let ?sa = "ServiceAccountByName u (name_of ob)"
  from run obtain res w1 where first: "go_try (cleanupServiceAccount r ?sa) w = (Ok res, w1)"
    and tail: "(case res of
        Inl e \<Rightarrow> go_return (errs @ [e])
      | Inr _ \<Rightarrow> go_bind (k8s_Delete c ob) (\<lambda>err. case err of
          None \<Rightarrow> go_return errs
        | Some e \<Rightarrow> go_return (if IsNotFound e then errs else errs @ [ApiError e]))) w1 = (Ok errs', w')"
    unfolding cleanup_existing_def r by (rule go_bind_OkE)
  show ?thesis
  proof (cases res)
    case (Inl e)
    with tail show ?thesis by auto
  next
    case (Inr x)
    with first have inner: "cleanupServiceAccount r ?sa w = (Ok x, w1)"
      by (auto simp: go_try_def split: prod.splits res.splits)
    from Inr tail obtain err where del: "k8s_Delete c ob w1 = (Ok err, w')"
      and errs': "errs' = (case err of None \<Rightarrow> errs
        | Some e \<Rightarrow> if IsNotFound e then errs else errs @ [ApiError e])"
      by (auto elim!: go_bind_OkE split: option.splits)
    have "on_store store shrinks w1 w'" using shrink_Delete del by (rule safeD)
    then have "gone (store (ext w')) ref" if "ref \<in> cleanup_refs u (name_of ob)" for ref
      using cleanupServiceAccount_gone [OF r inner that] by (rule shrinksD)
    then show ?thesis
      using Delete_gone [OF del] errs' by (auto split: option.splits if_splits)
  qed
qed

lemma CleanupRemovedServiceAccounts_gone:
  assumes r: "sarClient r = c" and run: "CleanupRemovedServiceAccounts r u sas w = (Ok v, w')"
    and ob: "store (ext w) (ServiceAccountKind, key) = Some ob" "lo_matches (union_labels u) ob"
      "name_of ob \<notin> saName ` set sas"
    and ref: "ref \<in> insert (ServiceAccountKind, key) (cleanup_refs u (name_of ob))"
  shows "gone (store (ext w')) ref"
proof -
  let ?f = "\<lambda>sa errs. if \<not> containsSA (name_of sa) sas then cleanup_existing r u sa errs
    else go_return errs"
  let ?Q = "\<lambda>x w. name_of x \<notin> saName ` set sas \<longrightarrow>
    (\<forall>ref \<in> insert (ref_of x) (cleanup_refs u (name_of x)). gone (store (ext w)) ref)"
  from run obtain items w1 where
      list: "k8s_List c ServiceAccountKind (union_labels u) w = (Ok (Inr items), w1)"
    and loop: "fold_go ?f items [] w1 = (Ok [], w')"
    unfolding CleanupRemovedServiceAccounts_def r by (auto elim!: go_bind_OkE)
  have "\<exists>es :: goerror list. [] = [] @ es \<and> (es = [] \<longrightarrow> (\<forall>x \<in> set items. ?Q x w'))"
  proof (rule fold_go_collect [where R = "on_store store shrinks" and f = ?f and Q = ?Q
        and errs = "[]" and errs' = "[]"])
    show "fold_go ?f items [] w1 = (Ok [], w')" by (rule loop)
    show "effect_order (on_store store shrinks)" by (rule shrink.effect_order_axioms)
    show "safe (on_store store shrinks) (?f x errs)" for x errs
      by (simp add: shrink_cleanup_existing r)
    show "?Q x w3" if "?Q x w2" and "on_store store shrinks w2 w3" for x w2 w3
      using that by (blast dest: shrinksD)
    show "\<exists>es. errs' = errs @ es \<and> (es = [] \<longrightarrow> ?Q x w3)"
      if "?f x errs w2 = (Ok errs', w3)" for x errs w2 errs' w3
    proof (cases "name_of x \<in> saName ` set sas")
      case True
      with that show ?thesis by (auto simp: containsSA_iff)
    next
      case False
      with that have "cleanup_existing r u x errs w2 = (Ok errs', w3)"
        by (simp add: containsSA_iff)
      from cleanup_existing_gone [OF r this] show ?thesis by blast
    qed
  qed
  moreover have "ob \<in> set items" using list ob(1)
  proof (rule List_completeD)
    show "kind_of ob = ServiceAccountKind" using ob(1) by (rule stored_kind)
    show "lo_matches (union_labels u) ob" by (rule ob(2))
  qed
  moreover have "ref_of ob = (ServiceAccountKind, key)" using ob(1) by (rule store_ref)
  ultimately show ?thesis using ob(3) ref by auto
qed

end

text \<open>
  C17. When \<open>CleanupRemovedServiceAccounts\<close> returns without error, every service account
  that carries the project and domain labels of the environment and is not in the list is
  gone from the cluster (or marked for deletion while finalizers run), in whatever
  namespace it lived and whoever owns it. So are the Google service account and the three
  policy members the cleanup knows, by the names they have in the environment.
\<close>

theorem CleanupRemovedServiceAccounts_complete:
  assumes "kube_fresh (sarClient r) store"
    and "CleanupRemovedServiceAccounts r u kept w = (Ok (), w')"
    and "store (ext w) (ServiceAccountKind, key) = Some ob"
    and "labels_of ob UnionProjectLabel = Some (envProject u)"
    and "labels_of ob UnionDomainLabel = Some (envDomain u)"
    and "name_of ob \<notin> saName ` set kept"
  shows "\<forall>ref \<in> insert (ServiceAccountKind, key) (cleanup_refs u (name_of ob)).
           gone (store (ext w')) ref"
proof -
  have "lo_matches (union_labels u) ob"
    using assms(4,5) by (simp add: lo_matches_def union_labels_def)
  with kube_fresh.CleanupRemovedServiceAccounts_gone [OF assms(1) refl assms(2,3)] assms(6)
  show ?thesis by blast
qed

lemmas sa_program_defs =
  CleanupRemovedServiceAccounts_def cleanup_existing_def cleanupServiceAccount_def
  cleanupIAMPolicyMembers_def policyMemberNames_def union_labels_def
  CreateOrUpdateServiceAccounts_def reconcileServiceAccountForDomain_def
  reconcileIAMServiceAccount_def reconcileServiceAccount_def createIAMPolicyMembers_def
  createIAMPolicyMember_def newIAMPolicyMember_def newK8sServiceAccount_def
  setUnionMetadata_def OwnerReferences_def Namespace_def policyMembers_def workloadIdentity_def
  dataBucket_def dataBucketViewer_def fastRegistrationBucket_def UnionProjectLabel_def
  UnionDomainLabel_def

definition example_sa_object :: "string \<Rightarrow> object" where
  "example_sa_object name = ServiceAccountObj
     \<lparr>ksaMeta = new_meta name ''proj-dev''
        [''union.nav.no/project'' \<mapsto> ''proj'', ''union.nav.no/domain'' \<mapsto> ''dev'']
        \<lparr>metaOwnerReferences :=
           [\<lparr>ownerAPIVersion = ''data.nav.no/v1alpha1'', ownerKind = ''UnionTeamServiceAccounts'',
             ownerName = ''team'', ownerUID = ''42'', ownerController = Some True,
             ownerBlockOwnerDeletion = Some True\<rparr>]\<rparr>,
      ksaImagePullSecrets = []\<rparr>"

text \<open>A labelled account without owners, in a namespace that is not the environment's.\<close>

definition stray_sa_object :: object where
  "stray_sa_object = ServiceAccountObj
     \<lparr>ksaMeta = new_meta ''old'' ''elsewhere''
        [''union.nav.no/project'' \<mapsto> ''proj'', ''union.nav.no/domain'' \<mapsto> ''dev''],
      ksaImagePullSecrets = []\<rparr>"

theorem CleanupRemovedServiceAccounts_complete_witness:
  "\<exists>w'. CleanupRemovedServiceAccounts example_reconciler example_env []
      (example_world [stray_sa_object]) = (Ok (), w')
    \<and> gone (mem_store (ext w')) (ServiceAccountKind, (''elsewhere'', ''old''))"
proof -
  let ?w = "example_world [stray_sa_object]"
  let ?run = "CleanupRemovedServiceAccounts example_reconciler example_env [] ?w"
  have ok: "fst ?run = Ok ()"
    by (simp add: sa_program_defs example_reconciler_def example_env_def example_world_def
        stray_sa_object_def mem_eval)
  then have run: "?run = (Ok (), snd ?run)" by (metis prod.collapse)
  have found: "mem_store (ext ?w) (ServiceAccountKind, (''elsewhere'', ''old''))
      = Some stray_sa_object"
    by (simp add: example_world_def stray_sa_object_def mem_store_def mem_eval)
  have "labels_of stray_sa_object UnionProjectLabel = Some (envProject example_env)"
    "labels_of stray_sa_object UnionDomainLabel = Some (envDomain example_env)"
    by (simp_all add: stray_sa_object_def example_env_def UnionProjectLabel_def UnionDomainLabel_def)
  from CleanupRemovedServiceAccounts_complete [OF example_reconciler_fresh run found this]
  show ?thesis using run by auto
qed

section \<open>Creation is complete\<close>

text \<open>
  A Kubernetes service account is linked to its Google service account by an annotation.
  \<open>keeps_marks\<close>: nothing disappears, and what carries the environment's mark goes on
  carrying it.
\<close>

definition account_marked :: "UnionEnv \<Rightarrow> object \<Rightarrow> bool" where
  "account_marked u ob \<longleftrightarrow> union_object u ob
     \<and> (kind_of ob = ServiceAccountKind \<longrightarrow>
          metaAnnotations (meta_of ob) ''iam.gke.io/gcp-service-account''
            = Some (GoogleServiceAccountEmail (ServiceAccountByName u (name_of ob))))"

definition keeps_marks :: "UnionEnv \<Rightarrow> contents \<Rightarrow> contents \<Rightarrow> bool" where
  "keeps_marks u m m' \<longleftrightarrow> (\<forall>r ob. m r = Some ob \<longrightarrow>
     (\<exists>ob'. m' r = Some ob' \<and> (account_marked u ob \<longrightarrow> account_marked u ob')))"

lemma keeps_marks_refl [simp]: "keeps_marks u m m"
  by (simp add: keeps_marks_def)

lemma keeps_marks_trans: "keeps_marks u m m' \<Longrightarrow> keeps_marks u m' m'' \<Longrightarrow> keeps_marks u m m''"
  unfolding keeps_marks_def by metis

interpretation marks: effect_order "on_store store (keeps_marks u)" for store u
  by (rule effect_order_on_store) (simp, rule keeps_marks_trans)

lemma stamped_marked: "stamped ob ob' \<Longrightarrow> account_marked u ob' = account_marked u ob"
  by (simp add: account_marked_def union_object_def stampedD)

lemma created_keeps_marks: "created ob m m' \<Longrightarrow> keeps_marks u m m'"
  by (auto simp: created_def stored_as_def keeps_marks_def)

lemma stored_keeps_marks: "stored_as ob m m' \<Longrightarrow> account_marked u ob \<Longrightarrow> keeps_marks u m m'"
  by (auto simp: stored_as_def keeps_marks_def stamped_marked)

lemma Email_ByName:
  "GoogleServiceAccountEmail (ServiceAccountByName (saUnionEnv sa) (saName sa))
     = GoogleServiceAccountEmail sa"
  by (simp add: GoogleServiceAccountEmail_def GoogleServiceAccountName_ByName)

lemma setUnionMetadata_marked:
  assumes "setUnionMetadata ob (saUnionEnv sa) (gcp_annotation sa) = Ok ob'"
    and "name_of ob = saName sa"
  shows "account_marked (saUnionEnv sa) ob'"
  using assms setUnionMetadata_union_object [OF assms(1)]
  by (auto simp: account_marked_def setUnionMetadata_OkD gcp_annotation_def Email_ByName)

lemma newK8sServiceAccount_sel [simp]:
  "ref_of (newK8sServiceAccount sa) = (ServiceAccountKind, (Namespace (saUnionEnv sa), saName sa))"
  "name_of (newK8sServiceAccount sa) = saName sa"
  by (simp_all add: newK8sServiceAccount_def ref_of_def)

text \<open>What one account needs in the cluster.\<close>

definition account_provisioned :: "'s SAReconciler \<Rightarrow> ServiceAccount \<Rightarrow> contents \<Rightarrow> bool" where
  "account_provisioned r sa m \<longleftrightarrow>
     (\<exists>ob. m (ServiceAccountKind, (Namespace (saUnionEnv sa), saName sa)) = Some ob
        \<and> account_marked (saUnionEnv sa) ob)
     \<and> (\<forall>opts \<in> set (policyMembers r sa).
          m (IAMPolicyMemberKind, (Namespace (saUnionEnv sa), optName opts)) \<noteq> None)"

lemma keeps_marks_provisioned:
  "keeps_marks (saUnionEnv sa) m m' \<Longrightarrow> account_provisioned r sa m \<Longrightarrow> account_provisioned r sa m'"
  unfolding account_provisioned_def keeps_marks_def by (metis option.exhaust option.distinct(1))

context kube_api
begin

lemma upserted_account:
  assumes up: "upserted (newK8sServiceAccount sa)
      (\<lambda>obj. setUnionMetadata obj (saUnionEnv sa) (gcp_annotation sa)) (store s) m'"
  shows "keeps_marks (saUnionEnv sa) (store s) m'"
    and "\<exists>ob. m' (ServiceAccountKind, (Namespace (saUnionEnv sa), saName sa)) = Some ob
           \<and> account_marked (saUnionEnv sa) ob"
proof -
  let ?ref = "(ServiceAccountKind, (Namespace (saUnionEnv sa), saName sa))"
  let ?old = "case store s ?ref of None \<Rightarrow> newK8sServiceAccount sa | Some old \<Rightarrow> old"
  have "name_of ?old = saName sa"
    by (auto split: option.split dest!: store_ref) (simp add: ref_of_def)
  with up obtain ob1 where ob1: "account_marked (saUnionEnv sa) ob1" "ref_of ob1 = ?ref"
      "stored_as ob1 (store s) m'"
    by (auto simp: upserted_def dest: setUnionMetadata_marked)
  from ob1(3,1) show "keeps_marks (saUnionEnv sa) (store s) m'" by (rule stored_keeps_marks)
  from ob1 show "\<exists>ob. m' ?ref = Some ob \<and> account_marked (saUnionEnv sa) ob"
    by (auto simp: stored_as_def stamped_marked)
qed

lemma marks_reconcileServiceAccount:
  assumes r: "sarClient r = c"
  shows "safe (on_store store (keeps_marks (saUnionEnv sa))) (reconcileServiceAccount r sa)"
proof (rule safeI)
  fix w
  show "on_store store (keeps_marks (saUnionEnv sa)) w (snd (reconcileServiceAccount r sa w))"
    unfolding reconcileServiceAccount_def r
    by (auto simp: on_store_def call_defs go_defs split: prod.splits res.splits
        dest!: upsert intro: upserted_account(1))
qed

lemma marks_reconcileIAMServiceAccount:
  assumes r: "sarClient r = c"
  shows "safe (on_store store (keeps_marks (saUnionEnv sa))) (reconcileIAMServiceAccount r sa)"
proof -
  let ?u = "saUnionEnv sa" and ?key = "(Namespace (saUnionEnv sa), GoogleServiceAccountName sa)"
  have patch_keeps: "keeps_marks ?u m m'"
    if "patched ob base m m'" and "m (ref_of base) = Some base"
      and "setUnionMetadata base ?u (project_id_annotation sa) = Ok ob"
      and "kind_of base = IAMServiceAccountKind" for ob base m m'
    using that
    by (auto simp: patched_def keeps_marks_def setUnionMetadata_OkD stamped_marked account_marked_def
        union_object_def stampedD UnionProjectLabel_def UnionDomainLabel_def)
  have first: "safe (on_store store (keeps_marks ?u)) (k8s_Get c IAMServiceAccountKind ?key)"
    by (rule safe_Get) simp
  have create: "safe (on_store store (keeps_marks ?u)) (k8s_Create c ob)" for ob
    by (rule safe_Create) (auto intro: created_keeps_marks)
  let ?rest = "\<lambda>reply. case reply of
      Inl e \<Rightarrow>
        (if \<not> IsNotFound e then go_err (ApiError e)
         else go_bind (go_lift (setUnionMetadata (IAMServiceAccountObj
             \<lparr>iamMeta = new_meta (GoogleServiceAccountName sa) (Namespace ?u) Map.empty,
              iamDisplayName = GoogleServiceAccountDisplayName sa\<rparr>) ?u (project_id_annotation sa)))
           (\<lambda>obj. go_bind (k8s_Create c obj)
             (\<lambda>err. case err of None \<Rightarrow> go_return ()
              | Some e \<Rightarrow> if IsAlreadyExists e then go_return () else go_err (ApiError e))))
    | Inr base \<Rightarrow>
        go_bind (go_lift (setUnionMetadata base ?u (project_id_annotation sa)))
          (\<lambda>obj. go_bind (k8s_Patch c obj base) check_error)"
  show ?thesis
    unfolding reconcileIAMServiceAccount_def r
  proof (rule safe_Get_bind [OF marks.effect_order_axioms])
    show "safe (on_store store (keeps_marks ?u)) (?rest (Inl e))" for e
      by (auto intro!: marks.safe_bind create split: option.splits)
    show "on_store store (keeps_marks ?u) w (snd (?rest (Inr base) w))"
      if "store (ext w) (IAMServiceAccountKind, ?key) = Some base" for base w
    proof -
      from that have "store (ext w) (ref_of base) = Some base" "kind_of base = IAMServiceAccountKind"
        by (simp_all add: store_ref stored_kind)
      then show ?thesis
        by (auto simp: on_store_def call_defs go_defs dest!: patch intro: patch_keeps
            split: prod.splits res.splits option.splits)
    qed
  qed simp
qed

lemma marks_createIAMPolicyMember:
  assumes r: "sarClient r = c"
  shows "safe (on_store store (keeps_marks u)) (createIAMPolicyMember r u' opts)"
proof -
  have "safe (on_store store (keeps_marks u)) (k8s_Create c ob)" for ob
    by (rule safe_Create) (auto intro: created_keeps_marks)
  then show ?thesis
    unfolding createIAMPolicyMember_def r
    by (auto intro!: marks.safe_bind safe_Get split: sum.splits option.splits)
qed

lemma createIAMPolicyMember_present:
  assumes r: "sarClient r = c" and run: "createIAMPolicyMember r u opts w = (Ok v, w')"
  shows "store (ext w') (IAMPolicyMemberKind, (Namespace u, optName opts)) \<noteq> None"
proof -
  let ?key = "(Namespace u, optName opts)"
  from run obtain reply w1 where get: "k8s_Get c IAMPolicyMemberKind ?key w = (Ok reply, w1)"
    and rest: "(case reply of
          Inr existing \<Rightarrow> go_return ()
        | Inl e \<Rightarrow>
            (if IsNotFound e then
               go_bind (go_lift (setUnionMetadata (newIAMPolicyMember u opts) u Map.empty))
                 (\<lambda>member. go_bind (k8s_Create c member)
                   (\<lambda>err. case err of
                      None \<Rightarrow> go_return ()
                    | Some e \<Rightarrow>
                        if IsAlreadyExists e then go_return () else go_err (ApiError e)))
             else go_err (ApiError e))) w1 = (Ok v, w')"
    unfolding createIAMPolicyMember_def r by (rule go_bind_OkE)
  show ?thesis
  proof (cases reply)
    case (Inr ob)
    with get rest show ?thesis by (auto elim: Get_OkD)
  next
    case (Inl e)
    with rest obtain member err where
        member: "setUnionMetadata (newIAMPolicyMember u opts) u Map.empty = Ok member"
      and create: "k8s_Create c member w1 = (Ok err, w')"
      and err: "err = None \<or> (\<exists>e. err = Some e \<and> IsAlreadyExists e)"
      by (auto elim!: go_bind_OkE split: if_splits option.splits)
    have ref: "ref_of member = (IAMPolicyMemberKind, ?key)"
      using member by (auto simp: setUnionMetadata_OkD newIAMPolicyMember_def ref_of_def)
    from err show ?thesis
    proof
      assume "err = None"
      with Create_OkD(1) [OF create] ref show ?thesis by (auto simp: created_def stored_as_def)
    next
      assume "\<exists>e. err = Some e \<and> IsAlreadyExists e"
      with Create_OkD(2) [OF create] ref show ?thesis by auto
    qed
  qed
qed

lemma reconcileServiceAccountForDomain_marked:
  assumes r: "sarClient r = c" and run: "reconcileServiceAccountForDomain r sa w = (Ok v, w')"
  shows "\<exists>ob. store (ext w') (ServiceAccountKind, (Namespace (saUnionEnv sa), saName sa)) = Some ob
    \<and> account_marked (saUnionEnv sa) ob"
  using run unfolding reconcileServiceAccountForDomain_def
  by (auto simp: reconcileServiceAccount_def r elim!: go_seq_OkE dest!: CreateOrUpdate_OkD
      intro: upserted_account(2))

lemma marks_account:
  assumes "sarClient r = c" and "saUnionEnv sa = u"
  shows "safe (on_store store (keeps_marks u)) (reconcileServiceAccountForDomain r sa)"
    and "safe (on_store store (keeps_marks u)) (createIAMPolicyMembers r sa)"
  unfolding reconcileServiceAccountForDomain_def createIAMPolicyMembers_def
  using assms
  by (auto intro!: marks.safe_seq marks.safe_for_each marks_createIAMPolicyMember
      marks_reconcileIAMServiceAccount marks_reconcileServiceAccount)

lemma keeps_marksD:
  "on_store store (keeps_marks u) w w' \<Longrightarrow> store (ext w) ref \<noteq> None \<Longrightarrow> store (ext w') ref \<noteq> None"
  unfolding on_store_def keeps_marks_def by (metis option.exhaust option.distinct(1))

lemma createIAMPolicyMembers_present:
  assumes r: "sarClient r = c"
  shows "ok_post (\<lambda>_. True) (createIAMPolicyMembers r sa) (\<lambda>_ w. \<forall>opts \<in> set (policyMembers r sa).
    store (ext w) (IAMPolicyMemberKind, (Namespace (saUnionEnv sa), optName opts)) \<noteq> None)"
proof -
  let ?present = "\<lambda>opts w.
    store (ext w) (IAMPolicyMemberKind, (Namespace (saUnionEnv sa), optName opts)) \<noteq> None"
  have "ok_post (\<lambda>_. True) (for_each (createIAMPolicyMember r (saUnionEnv sa)) (policyMembers r sa))
      (\<lambda>_ w. True \<and> (\<forall>opts \<in> set (policyMembers r sa). ?present opts w))"
  proof (rule ok_post_for_each [where R = "on_store store (keeps_marks (saUnionEnv sa))"])
    show "ok_post (\<lambda>_. True) (createIAMPolicyMember r (saUnionEnv sa) opts) (\<lambda>_. ?present opts)"
      for opts by (rule ok_postI) (rule createIAMPolicyMember_present [OF r])
    show "?present opts w'"
      if "?present opts w" and "on_store store (keeps_marks (saUnionEnv sa)) w w'" for opts w w'
      using that(2,1) by (rule keeps_marksD)
  qed (auto intro: marks_createIAMPolicyMember r)
  then show ?thesis by (simp add: createIAMPolicyMembers_def)
qed

lemma account_step:
  assumes r: "sarClient r = c" and u: "saUnionEnv sa = u"
    and run: "go_seq (reconcileServiceAccountForDomain r sa) (createIAMPolicyMembers r sa) w = (Ok v, w')"
  shows "account_provisioned r sa (store (ext w'))"
proof -
  from run obtain w1 where first: "reconcileServiceAccountForDomain r sa w = (Ok (), w1)"
    and second: "createIAMPolicyMembers r sa w1 = (Ok v, w')"
    by (rule go_seq_OkE)
  have "on_store store (keeps_marks (saUnionEnv sa)) w1 w'"
    using marks_account(2) [OF r refl] second by (rule safeD)
  then show ?thesis
    using reconcileServiceAccountForDomain_marked [OF r first]
      ok_postD [OF createIAMPolicyMembers_present [OF r] TrueI second]
    unfolding account_provisioned_def on_store_def keeps_marks_def by blast
qed

lemma accounts_loop:
  assumes r: "sarClient r = c" and u: "\<forall>sa \<in> set sas. saUnionEnv sa = u"
  shows "ok_post (\<lambda>_. True)
    (for_each (\<lambda>sa. go_seq (reconcileServiceAccountForDomain r sa) (createIAMPolicyMembers r sa)) sas)
    (\<lambda>_ w. True \<and> (\<forall>sa \<in> set sas. account_provisioned r sa (store (ext w))))"
proof (rule ok_post_for_each [where R = "on_store store (keeps_marks u)"])
  fix sa
  assume "sa \<in> set sas"
  with u have u: "saUnionEnv sa = u" by simp
  show "ok_post (\<lambda>_. True) (go_seq (reconcileServiceAccountForDomain r sa) (createIAMPolicyMembers r sa))
      (\<lambda>_ w. account_provisioned r sa (store (ext w)))"
    by (rule ok_postI) (rule account_step [OF r u])
  show "safe (on_store store (keeps_marks u))
      (go_seq (reconcileServiceAccountForDomain r sa) (createIAMPolicyMembers r sa))"
    by (intro marks.safe_seq marks_account r u)
  show "account_provisioned r sa (store (ext w'))"
    if "account_provisioned r sa (store (ext w))" "on_store store (keeps_marks u) w w'" for w w'
    using that keeps_marks_provisioned [of sa] unfolding on_store_def u by blast
qed simp

end

text \<open>The removal that follows touches nothing of the accounts that stay.\<close>

lemma member_not_removed:
  assumes "saName sa \<in> names" and "opts \<in> set (policyMembers r sa)"
  shows "(IAMPolicyMemberKind, (ns, optName opts)) \<notin> removed_refs u names"
proof -
  have "n @ ''-workload-identity-user'' \<noteq> m @ ''-union-data-bucket-object-admin''"
    "n @ ''-workload-identity-user'' \<noteq> m @ ''-union-fast-registration-bucket-viewer''"
    "n @ ''-union-data-bucket-object-admin'' \<noteq> m @ ''-union-fast-registration-bucket-viewer''" for n m
    by (auto dest: arg_cong [where f = rev])
  note endings = this this [symmetric]
  from assms show ?thesis
    by (auto simp: policyMembers_def workloadIdentity_def dataBucket_def dataBucketViewer_def
        fastRegistrationBucket_def viewer_not_cleaned)
      (auto simp: removed_refs_def cleanup_refs_def policyMemberNames_def endings)
qed

lemma account_not_removed:
  "name \<in> names \<Longrightarrow> (ServiceAccountKind, (ns, name)) \<notin> removed_refs u names"
  by (auto simp: removed_refs_def cleanup_refs_def)

lemma same_off_provisioned:
  assumes "same_off (removed_refs u names) m m'" and "saName sa \<in> names"
    and "account_provisioned r sa m"
  shows "account_provisioned r sa m'"
  using assms by (auto simp: account_provisioned_def same_off_def account_not_removed member_not_removed)

context kube_api
begin

lemma CreateOrUpdate_provisions:
  assumes r: "sarClient r = c"
    and run: "CreateOrUpdateServiceAccounts r u (map (mkServiceAccount u) accounts) w = (Ok (), w')"
  shows "\<forall>a \<in> set accounts. account_provisioned r (mkServiceAccount u a) (store (ext w'))"
proof -
  let ?sas = "map (mkServiceAccount u) accounts"
  let ?R = "on_store store (same_off (removed_refs u (saName ` set ?sas)))"
  from run obtain w1 where loop: "for_each (\<lambda>sa. go_seq (reconcileServiceAccountForDomain r sa)
        (createIAMPolicyMembers r sa)) ?sas w = (Ok (), w1)"
    and clean: "CleanupRemovedServiceAccounts r u ?sas w1 = (Ok (), w')"
    unfolding CreateOrUpdateServiceAccounts_def cleanupRemovedServiceAccounts_eq
    by (rule go_seq_OkE)
  have env: "\<forall>sa \<in> set ?sas. saUnionEnv sa = u" by (auto simp: mkServiceAccount_def)
  have all: "\<forall>sa \<in> set ?sas. account_provisioned r sa (store (ext w1))"
    using ok_postD [OF accounts_loop [OF r env] TrueI loop] by blast
  have safe: "safe ?R (CleanupRemovedServiceAccounts r u ?sas)"
    by (rule frame_CleanupRemovedServiceAccounts [OF r])
  have off: "same_off (removed_refs u (saName ` set ?sas)) (store (ext w1)) (store (ext w'))"
    using safeD [OF safe clean] by (simp only: on_store_def)
  have "account_provisioned r sa (store (ext w'))" if "sa \<in> set ?sas" for sa
  proof (rule same_off_provisioned [OF off])
    show "saName sa \<in> saName ` set ?sas" using that by (rule imageI)
    show "account_provisioned r sa (store (ext w1))" using all that by (rule bspec)
  qed
  then show ?thesis by simp
qed

end

text \<open>
  C10. When \<open>CreateOrUpdateServiceAccounts\<close> returns without error, every account of the
  specification has its Kubernetes service account, in the environment's namespace, with
  the environment's labels and owner and the annotation that links it to its Google
  service account, and all four of its policy members exist: no later account of the list
  and no removal at the end undoes the work of an earlier one. Reads may lag behind the
  server.
\<close>

theorem CreateOrUpdateServiceAccounts_complete:
  assumes "kube_api (sarClient r) store"
    and "CreateOrUpdateServiceAccounts r u (map (mkServiceAccount u) accounts) w = (Ok (), w')"
  shows "\<forall>a \<in> set accounts. account_provisioned r (mkServiceAccount u a) (store (ext w'))"
  by (rule kube_api.CreateOrUpdate_provisions [OF assms(1) refl assms(2)])

definition example_account :: UnionServiceAccount where
  "example_account = \<lparr>usaName = ''sa'', usaExternalAllowlist = [], usaInternalAllowlist = [],
     usaCloudSQL = []\<rparr>"

theorem CreateOrUpdateServiceAccounts_complete_witness:
  "\<exists>w'. CreateOrUpdateServiceAccounts example_reconciler example_env
      (map (mkServiceAccount example_env) [example_account]) (example_world []) = (Ok (), w')
    \<and> account_provisioned example_reconciler (mkServiceAccount example_env example_account)
        (mem_store (ext w'))"
proof -
  let ?run = "CreateOrUpdateServiceAccounts example_reconciler example_env
      (map (mkServiceAccount example_env) [example_account]) (example_world [])"
  have ok: "fst ?run = Ok ()"
    by (simp add: sa_program_defs example_reconciler_def example_env_def example_world_def
        example_account_def mkServiceAccount_def newK8sServiceAccount_def mem_eval
        project_id_annotation_def gcp_annotation_def cleanupRemovedServiceAccounts_eq)
  then have run: "?run = (Ok (), snd ?run)" by (metis prod.collapse)
  from CreateOrUpdateServiceAccounts_complete [OF example_reconciler_api run]
  show ?thesis using run by auto
qed

end
