(* ===== verification/IstioReconciler.thy ===== *)
theory IstioReconciler
  imports MemStore
begin

text \<open>
  \<^verbatim>\<open>internal/istio\<close>, the reconciler (\<^verbatim>\<open>reconciler.go\<close> and the \<^verbatim>\<open>ensure\<close> and
  \<^verbatim>\<open>exists\<close> methods of the other files): for every allowed external host and Cloud SQL
  address it makes the egress gateway list the host and creates the VirtualService, the two
  DestinationRules and the ServiceEntry that are missing; for every allowed host it creates
  the missing AuthorizationPolicy. Nothing is deleted here.

  The body of the loop over the hosts of an account is a definition of its own
  (\<open>ensureExternalHost\<close>, \<open>ensureCloudSQLHost\<close>), and so is the policy part for one
  on-premises host.

  The lemmas show what is written for any client, that a run that returns without error
  leaves every host provisioned, that a clash of names is an error, and that a policy
  grants what the allowlist says and nothing else.
\<close>

section \<open>The reconciler (\<^verbatim>\<open>reconciler.go\<close>)\<close>

record 's IstioReconciler =
  irClient :: "'s client"
  irOnpremHosts :: OnpremHostMap

definition inEgressNamespace :: "string option" where
  "inEgressNamespace = Some EgressNamespace"

definition matchingHostLabel :: "string \<Rightarrow> (string \<times> string) list" where
  "matchingHostLabel host = [(''host'', host)]"

definition egress_opts :: "(string \<times> string) list \<Rightarrow> list_opts" where
  "egress_opts labels = \<lparr>loNamespace = inEgressNamespace, loLabels = labels\<rparr>"

section \<open>Gateways (\<^verbatim>\<open>gateway.go\<close>)\<close>

definition ensureGatewayExists :: "'s IstioReconciler \<Rightarrow> string \<Rightarrow> string \<Rightarrow> ('s world, unit) go" where
  "ensureGatewayExists r gatewayName host =
     go_bind (k8s_Get (irClient r) GatewayKind (EgressNamespace, gatewayName))
       (\<lambda>reply. case reply of
          Inr existing \<Rightarrow> go_return ()
        | Inl e \<Rightarrow>
            (if \<not> IsNotFound e then go_err (ApiError e)
             else go_bind (k8s_Create (irClient r) (GatewayObj (newGateway gatewayName host)))
                    check_error))"

text \<open>\<^verbatim>\<open>gateway.Spec.Servers[0]\<close> panics when there are no servers.\<close>

definition ensureGatewayContainsHost ::
    "'s IstioReconciler \<Rightarrow> string \<Rightarrow> string \<Rightarrow> ('s world, unit) go" where
  "ensureGatewayContainsHost r gatewayName host =
     go_bind (k8s_Get (irClient r) GatewayKind (EgressNamespace, gatewayName))
       (\<lambda>reply. case reply of
          Inl e \<Rightarrow> go_err (ApiError e)
        | Inr ob \<Rightarrow>
            (let gateway = as_Gateway ob in
             case gwServers gateway of
               [] \<Rightarrow> go_panic
             | server # servers \<Rightarrow>
                 go_bind (k8s_Update (irClient r) (GatewayObj (gateway\<lparr>gwServers :=
                     server\<lparr>srvHosts := appendSortedCompact (srvHosts server) host\<rparr> # servers\<rparr>)))
                   (\<lambda>reply. case reply of
                      Inl e \<Rightarrow> go_err (ApiError e)
                    | Inr answer \<Rightarrow> go_return ())))"

section \<open>Existence checks\<close>

definition exists_in_egress ::
    "'s IstioReconciler \<Rightarrow> kind \<Rightarrow> (string \<times> string) list \<Rightarrow> ('s world, bool) go" where
  "exists_in_egress r k labels =
     go_bind (go_bind (k8s_List (irClient r) k (egress_opts labels)) check_reply)
       (\<lambda>items. go_return (length items > 0))"

definition virtualServiceExists :: "'s IstioReconciler \<Rightarrow> string \<Rightarrow> ('s world, bool) go" where
  "virtualServiceExists r hostName =
     go_bind (k8s_Get (irClient r) VirtualServiceKind (EgressNamespace, hostName))
       (\<lambda>reply. case reply of
          Inl e \<Rightarrow> (if IsNotFound e then go_return False else go_err (ApiError e))
        | Inr vs \<Rightarrow> go_return True)"

definition destinationRuleToGatewayExists :: "'s IstioReconciler \<Rightarrow> string \<Rightarrow> ('s world, bool) go" where
  "destinationRuleToGatewayExists r hostName =
     exists_in_egress r DestinationRuleKind
       [(''host'', hostName), (''type'', egressToGatewayLabel), (managedByLabel, managedByValue)]"

definition destinationRuleFromGatewayExists :: "'s IstioReconciler \<Rightarrow> string \<Rightarrow> ('s world, bool) go" where
  "destinationRuleFromGatewayExists r hostName =
     exists_in_egress r DestinationRuleKind
       [(''host'', hostName), (''type'', egressFromGatewayLabel), (managedByLabel, managedByValue)]"

definition serviceEntryExists :: "'s IstioReconciler \<Rightarrow> string \<Rightarrow> ('s world, bool) go" where
  "serviceEntryExists r hostLabel =
     exists_in_egress r ServiceEntryKind (matchingHostLabel hostLabel)"

definition createServiceEntry :: "'s IstioReconciler \<Rightarrow> ServiceEntry \<Rightarrow> ('s world, unit) go" where
  "createServiceEntry r se = go_bind (k8s_Create (irClient r) (ServiceEntryObj se)) check_error"

text \<open>\<^verbatim>\<open>exists, err := ...; if !exists { if err = r.Create(...) ... }\<close>.\<close>

definition create_unless ::
    "'s IstioReconciler \<Rightarrow> ('s world, bool) go \<Rightarrow> object \<Rightarrow> ('s world, unit) go" where
  "create_unless r check ob =
     go_bind check (\<lambda>exists.
       if \<not> exists then go_bind (k8s_Create (irClient r) ob) check_error else go_return ())"

section \<open>External hosts and Cloud SQL addresses\<close>

definition ensureExternalHost :: "'s IstioReconciler \<Rightarrow> Host \<Rightarrow> ('s world, unit) go" where
  "ensureExternalHost r host =
     go_seq (ensureGatewayExists r externalGatewayName (hostHost host))
    (go_seq (ensureGatewayContainsHost r externalGatewayName (hostHost host))
    (go_seq (create_unless r (virtualServiceExists r (Host_Name host))
               (VirtualServiceObj (newVirtualServiceForExternalHost host)))
    (go_seq (create_unless r (destinationRuleToGatewayExists r (hostHost host))
               (DestinationRuleObj (newExternalHostDestinationRuleToGateway host)))
    (go_seq (create_unless r (destinationRuleFromGatewayExists r (hostHost host))
               (DestinationRuleObj (newExternalHostDestinationRuleFromGateway host)))
            (go_bind (serviceEntryExists r (hostHost host)) (\<lambda>seExists.
               if \<not> seExists then createServiceEntry r (newHTTPSServiceEntry host)
               else go_return ()))))))"

definition EnsureExternalHosts ::
    "'s IstioReconciler \<Rightarrow> ServiceAccount list \<Rightarrow> ('s world, unit) go" where
  "EnsureExternalHosts r serviceAccounts =
     for_each (\<lambda>sa. for_each (ensureExternalHost r)
       (usaExternalAllowlist (saUnionServiceAccount sa))) serviceAccounts"

text \<open>The Cloud SQL gateway is not created, only extended.\<close>

definition ensureCloudSQLHost :: "'s IstioReconciler \<Rightarrow> CloudSQLInstance \<Rightarrow> ('s world, unit) go" where
  "ensureCloudSQLHost r cloudSQL =
     go_seq (ensureGatewayContainsHost r cloudSQLGatewayName (CloudSQL_Host cloudSQL))
    (go_seq (create_unless r (virtualServiceExists r (CloudSQL_Name cloudSQL))
               (VirtualServiceObj (newVirtualServiceForCloudSQLHost cloudSQL)))
    (go_seq (create_unless r (destinationRuleToGatewayExists r (CloudSQL_Host cloudSQL))
               (DestinationRuleObj (newCloudSQLDestinationRuleToGateway cloudSQL)))
    (go_seq (create_unless r (destinationRuleFromGatewayExists r (CloudSQL_Host cloudSQL))
               (DestinationRuleObj (newCloudSQLDestinationRuleFromGateway cloudSQL)))
            (go_bind (serviceEntryExists r (CloudSQL_Host cloudSQL)) (\<lambda>seExists.
               if \<not> seExists then createServiceEntry r (newCloudSQLServiceEntry cloudSQL)
               else go_return ())))))"

definition EnsureCloudSQLHosts ::
    "'s IstioReconciler \<Rightarrow> ServiceAccount list \<Rightarrow> ('s world, unit) go" where
  "EnsureCloudSQLHosts r serviceAccounts =
     for_each (\<lambda>sa. for_each (ensureCloudSQLHost r)
       (usaCloudSQL (saUnionServiceAccount sa))) serviceAccounts"

section \<open>Authorization policies (\<^verbatim>\<open>authorizationpolicy.go\<close>)\<close>

definition policy_labels :: "ServiceAccount \<Rightarrow> authPolicyData \<Rightarrow> string \<Rightarrow> (string \<times> string) list" where
  "policy_labels sa apd parent =
     [(''project'', saProject sa), (''domain'', saDomain sa), (''service-account'', saName sa),
      (''host'', apdHostName apd), (''parent-host'', parent)]"

definition ensureAuthorizationPolicyForHost ::
    "'s IstioReconciler \<Rightarrow> ServiceAccount \<Rightarrow> authPolicyData \<Rightarrow> string option \<Rightarrow> string \<Rightarrow> string
       \<Rightarrow> ('s world, unit) go" where
  "ensureAuthorizationPolicyForHost r sa apd parentHost protocol hostTypeLabel =
     (let parent = (case parentHost of None \<Rightarrow> apdHostName apd | Some p \<Rightarrow> p) in
      go_bind (go_bind (k8s_List (irClient r) AuthorizationPolicyKind
            (egress_opts (policy_labels sa apd parent))) check_reply)
        (\<lambda>items.
          if length items < 1 then
            go_bind (go_lift (newAuthorizationPolicy sa apd parent protocol hostTypeLabel))
              (\<lambda>ap. go_bind (k8s_Create (irClient r) (AuthorizationPolicyObj ap))
                (\<lambda>err. case err of
                   None \<Rightarrow> go_return ()
                 | Some e \<Rightarrow> if IsAlreadyExists e then go_return () else go_err (ApiError e)))
          else go_return ()))"

definition ensure_internal_policies ::
    "'s IstioReconciler \<Rightarrow> ServiceAccount \<Rightarrow> Host \<Rightarrow> ('s world, unit) go" where
  "ensure_internal_policies r sa host =
     (case irOnpremHosts r (hostHost host) of
        None \<Rightarrow> go_return ()
      | Some hostData \<Rightarrow>
          go_seq (ensureAuthorizationPolicyForHost r sa
              \<lparr>apdHostName = hostHost host, apdHost = hostHost host, apdPaths = hostPaths host\<rparr>
              None (onpremProtocol hostData) hostTypeLabelInternal)
            (for_each (\<lambda>vip. ensureAuthorizationPolicyForHost r sa
                \<lparr>apdHostName = vip, apdHost = vip, apdPaths = []\<rparr>
                (Some (hostHost host)) (onpremProtocol hostData) hostTypeLabelInternal)
              (onpremVIP hostData)))"

definition EnsureAuthorizationPolicies ::
    "'s IstioReconciler \<Rightarrow> ServiceAccount list \<Rightarrow> ('s world, unit) go" where
  "EnsureAuthorizationPolicies r serviceAccounts =
     for_each (\<lambda>sa.
       go_seq (for_each (\<lambda>host. ensureAuthorizationPolicyForHost r sa
            \<lparr>apdHostName = hostHost host, apdHost = hostHost host, apdPaths = hostPaths host\<rparr>
            None httpsProtocol hostTypeLabelExternal)
          (usaExternalAllowlist (saUnionServiceAccount sa)))
      (go_seq (for_each (\<lambda>host. ensureAuthorizationPolicyForHost r sa
            \<lparr>apdHostName = CloudSQL_Host host, apdHost = sqlIP host, apdPaths = []\<rparr>
            None tcpProtocol hostTypeLabelExternal)
          (usaCloudSQL (saUnionServiceAccount sa)))
        (for_each (ensure_internal_policies r sa)
          (usaInternalAllowlist (saUnionServiceAccount sa)))))
       serviceAccounts"


lemmas ensure_defs =
  ensureGatewayExists_def ensureGatewayContainsHost_def exists_in_egress_def
  virtualServiceExists_def destinationRuleToGatewayExists_def destinationRuleFromGatewayExists_def
  serviceEntryExists_def createServiceEntry_def create_unless_def

section \<open>What is written, for any client\<close>

text \<open>
  The calls for a set of hosts: reads in the egress namespace; creation of the objects
  \<open>builds\<close> lists; updates of a gateway whose first server then has a sorted list
  without duplicates, one of the hosts in it.
\<close>

fun egress_event :: "object list \<Rightarrow> string list \<Rightarrow> event \<Rightarrow> bool" where
  "egress_event builds hosts (EGet k key r) \<longleftrightarrow> fst key = EgressNamespace"
| "egress_event builds hosts (EList k lo r) \<longleftrightarrow> loNamespace lo = Some EgressNamespace"
| "egress_event builds hosts (ECreate ob r) \<longleftrightarrow> ob \<in> set builds"
| "egress_event builds hosts (EUpdate ob r) \<longleftrightarrow>
     (\<exists>g s ss. ob = GatewayObj g \<and> gwServers g = s # ss \<and> sorted (srvHosts s)
        \<and> distinct (srvHosts s) \<and> (\<exists>h \<in> set hosts. h \<in> set (srvHosts s)))"
| "egress_event builds hosts _ \<longleftrightarrow> False"

definition external_objects :: "Host \<Rightarrow> object list" where
  "external_objects h =
     [GatewayObj (newGateway externalGatewayName (hostHost h)),
      VirtualServiceObj (newVirtualServiceForExternalHost h),
      DestinationRuleObj (newExternalHostDestinationRuleToGateway h),
      DestinationRuleObj (newExternalHostDestinationRuleFromGateway h),
      ServiceEntryObj (newHTTPSServiceEntry h)]"

definition cloudsql_objects :: "CloudSQLInstance \<Rightarrow> object list" where
  "cloudsql_objects h =
     [VirtualServiceObj (newVirtualServiceForCloudSQLHost h),
      DestinationRuleObj (newCloudSQLDestinationRuleToGateway h),
      DestinationRuleObj (newCloudSQLDestinationRuleFromGateway h),
      ServiceEntryObj (newCloudSQLServiceEntry h)]"

definition external_hosts :: "ServiceAccount list \<Rightarrow> Host list" where
  "external_hosts sas = concat (map (\<lambda>sa. usaExternalAllowlist (saUnionServiceAccount sa)) sas)"

definition cloudsql_hosts :: "ServiceAccount list \<Rightarrow> CloudSQLInstance list" where
  "cloudsql_hosts sas = concat (map (\<lambda>sa. usaCloudSQL (saUnionServiceAccount sa)) sas)"

lemma built_in_egress:
  "ob \<in> set (external_objects h) \<Longrightarrow>
     namespace_of ob = EgressNamespace \<and> labels_of ob managedByLabel = Some managedByValue"
  "ob \<in> set (cloudsql_objects q) \<Longrightarrow>
     namespace_of ob = EgressNamespace \<and> labels_of ob managedByLabel = Some managedByValue"
  by (auto simp: external_objects_def cloudsql_objects_def builder_defs)

lemma emits_create_unless:
  "emits (egress_event obs hs) check \<Longrightarrow> ob \<in> set obs
     \<Longrightarrow> emits (egress_event obs hs) (create_unless r check ob)"
  unfolding create_unless_def by (rule emits_rules | auto)+

lemma emits_ensureGatewayContainsHost:
  "h \<in> set hs \<Longrightarrow> emits (egress_event obs hs) (ensureGatewayContainsHost r gw h)"
  unfolding ensureGatewayContainsHost_def Let_def
  by (rule emits_rules
      | auto simp: appendSortedCompact_def sorted_remdups_adj_sort distinct_remdups_adj_sort
          split: sum.splits list.splits)+

lemma emits_exists:
  "emits (egress_event obs hs) (virtualServiceExists r n)"
  "emits (egress_event obs hs) (exists_in_egress r k l)"
  unfolding virtualServiceExists_def exists_in_egress_def egress_opts_def inEgressNamespace_def
  by (rule emits_rules | auto split: sum.splits)+

lemmas exists_defs =
  destinationRuleToGatewayExists_def destinationRuleFromGatewayExists_def serviceEntryExists_def

lemma emits_ensureExternalHost:
  assumes "hostHost h \<in> set hs" and "set (external_objects h) \<subseteq> set obs"
  shows "emits (egress_event obs hs) (ensureExternalHost r h)"
  unfolding ensureExternalHost_def exists_defs ensureGatewayExists_def createServiceEntry_def
  using assms
  by (intro emits.safe_seq emits_create_unless emits_exists emits_ensureGatewayContainsHost
      emits.safe_bind)
    (auto simp: external_objects_def intro!: emits.safe_bind emits_Get emits_Create split: sum.splits)

lemma emits_ensureCloudSQLHost:
  assumes "CloudSQL_Host h \<in> set hs" and "set (cloudsql_objects h) \<subseteq> set obs"
  shows "emits (egress_event obs hs) (ensureCloudSQLHost r h)"
  unfolding ensureCloudSQLHost_def exists_defs createServiceEntry_def
  using assms
  by (intro emits.safe_seq emits_create_unless emits_exists emits_ensureGatewayContainsHost
      emits.safe_bind)
    (auto simp: cloudsql_objects_def intro!: emits.safe_bind emits_Create)

text \<open>
  C19. Whatever the client answers, making hosts reachable reads in the egress namespace
  only, creates only the objects built for hosts on the accounts' allowlists (all of them
  in the egress namespace and labelled as managed by the operator), updates nothing but a
  gateway, whose host list it leaves sorted and without duplicates, and deletes nothing.
\<close>

theorem Ensure_hosts_writes:
  "emits (egress_event (concat (map external_objects (external_hosts sas)))
       (map hostHost (external_hosts sas))) (EnsureExternalHosts r sas)
   \<and> emits (egress_event (concat (map cloudsql_objects (cloudsql_hosts sas)))
       (map CloudSQL_Host (cloudsql_hosts sas))) (EnsureCloudSQLHosts r sas)
   \<and> list_all (\<lambda>ob. namespace_of ob = EgressNamespace
         \<and> labels_of ob managedByLabel = Some managedByValue)
       (concat (map external_objects (external_hosts sas))
        @ concat (map cloudsql_objects (cloudsql_hosts sas)))"
  unfolding EnsureExternalHosts_def EnsureCloudSQLHosts_def
  by (intro conjI emits.safe_for_each emits_ensureExternalHost emits_ensureCloudSQLHost)
    (auto simp: external_hosts_def cloudsql_hosts_def list_all_iff dest: built_in_egress)


text \<open>What both loops do after the gateway lists the host: its four resources.\<close>

definition host_resources ::
    "'s IstioReconciler \<Rightarrow> string \<Rightarrow> string \<Rightarrow> VirtualService \<Rightarrow> DestinationRule \<Rightarrow> DestinationRule
       \<Rightarrow> ServiceEntry \<Rightarrow> ('s world, unit) go" where
  "host_resources r host name vs dr1 dr2 se =
     go_seq (create_unless r (virtualServiceExists r name) (VirtualServiceObj vs))
    (go_seq (create_unless r (destinationRuleToGatewayExists r host) (DestinationRuleObj dr1))
    (go_seq (create_unless r (destinationRuleFromGatewayExists r host) (DestinationRuleObj dr2))
            (go_bind (serviceEntryExists r host) (\<lambda>seExists.
               if \<not> seExists then createServiceEntry r se else go_return ()))))"

section \<open>The cluster while hosts are added\<close>

text \<open>Objects stay as they are, except that a gateway may get more hosts.\<close>

definition gateway_hosts :: "Gateway \<Rightarrow> string set" where
  "gateway_hosts g = (case gwServers g of [] \<Rightarrow> {} | s # ss \<Rightarrow> set (srvHosts s))"

definition grown :: "object \<Rightarrow> object \<Rightarrow> bool" where
  "grown ob ob' \<longleftrightarrow> ob' = ob \<or> (\<exists>g g'. ob = GatewayObj g \<and> ob' = GatewayObj g'
     \<and> gateway_hosts g \<subseteq> gateway_hosts g')"

definition egress_grows :: "contents \<Rightarrow> contents \<Rightarrow> bool" where
  "egress_grows m m' \<longleftrightarrow> (\<forall>ref ob. m ref = Some ob \<longrightarrow> (\<exists>ob'. m' ref = Some ob' \<and> grown ob ob'))"

lemma grown_trans: "grown a b \<Longrightarrow> grown b c \<Longrightarrow> grown a c"
  by (auto simp: grown_def)

lemma grown_refl [simp]: "grown a a"
  by (simp add: grown_def)

lemma egress_grows_refl [simp]: "egress_grows m m"
  by (simp add: egress_grows_def)

lemma egress_grows_trans: "egress_grows m m' \<Longrightarrow> egress_grows m' m'' \<Longrightarrow> egress_grows m m''"
  unfolding egress_grows_def by (meson grown_trans)

interpretation grow: effect_order "on_store store egress_grows" for store
  by (rule effect_order_on_store) (simp, rule egress_grows_trans)

lemma created_grows: "created ob m m' \<Longrightarrow> egress_grows m m'"
  by (auto simp: created_def stored_as_def egress_grows_def)

text \<open>What is there for a host: by its resource name, by its label, and in the gateway.\<close>

definition labelled :: "contents \<Rightarrow> kind \<Rightarrow> (string \<times> string) list \<Rightarrow> bool" where
  "labelled m k labels \<longleftrightarrow>
     (\<exists>ref ob. m ref = Some ob \<and> kind_of ob = k \<and> lo_matches (egress_opts labels) ob)"

definition gateway_lists :: "contents \<Rightarrow> string \<Rightarrow> string \<Rightarrow> bool" where
  "gateway_lists m gw host \<longleftrightarrow>
     (\<exists>g. m (GatewayKind, (EgressNamespace, gw)) = Some (GatewayObj g) \<and> host \<in> gateway_hosts g)"

definition host_ready :: "string \<Rightarrow> string \<Rightarrow> string \<Rightarrow> contents \<Rightarrow> bool" where
  "host_ready gw host name m \<longleftrightarrow>
     gateway_lists m gw host
     \<and> m (VirtualServiceKind, (EgressNamespace, name)) \<noteq> None
     \<and> labelled m DestinationRuleKind
         [(''host'', host), (''type'', egressToGatewayLabel), (managedByLabel, managedByValue)]
     \<and> labelled m DestinationRuleKind
         [(''host'', host), (''type'', egressFromGatewayLabel), (managedByLabel, managedByValue)]
     \<and> labelled m ServiceEntryKind [(''host'', host)]"

definition external_ready :: "Host \<Rightarrow> contents \<Rightarrow> bool" where
  "external_ready h = host_ready externalGatewayName (hostHost h) (Host_Name h)"

definition cloudsql_ready :: "CloudSQLInstance \<Rightarrow> contents \<Rightarrow> bool" where
  "cloudsql_ready q = host_ready cloudSQLGatewayName (CloudSQL_Host q) (CloudSQL_Name q)"

lemma grows_labelled:
  assumes "egress_grows m m'" and "labelled m k labels" and "k \<noteq> GatewayKind"
  shows "labelled m' k labels"
proof -
  from assms(2) obtain ref ob where ob: "m ref = Some ob" "kind_of ob = k"
    "lo_matches (egress_opts labels) ob" by (auto simp: labelled_def)
  then obtain ob' where "m' ref = Some ob'" and "grown ob ob'"
    using assms(1) unfolding egress_grows_def by blast
  moreover from this ob(2) assms(3) have "ob' = ob" by (auto simp: grown_def)
  ultimately have "m' ref = Some ob" by simp
  with ob show ?thesis unfolding labelled_def by blast
qed

lemma grows_gateway_lists: "egress_grows m m' \<Longrightarrow> gateway_lists m gw h \<Longrightarrow> gateway_lists m' gw h"
  unfolding egress_grows_def gateway_lists_def grown_def by fastforce

lemma grows_present: "egress_grows m m' \<Longrightarrow> m ref \<noteq> None \<Longrightarrow> m' ref \<noteq> None"
  unfolding egress_grows_def by fastforce

lemma grows_host_ready:
  assumes g: "egress_grows m m'" and ready: "host_ready gw h n m"
  shows "host_ready gw h n m'"
proof -
  have "labelled m DestinationRuleKind l \<Longrightarrow> labelled m' DestinationRuleKind l"
    and "labelled m ServiceEntryKind l \<Longrightarrow> labelled m' ServiceEntryKind l" for l
    using g by (auto intro: grows_labelled)
  with ready grows_gateway_lists [OF g] grows_present [OF g] show ?thesis
    unfolding host_ready_def by blast
qed

lemma created_labelled:
  assumes "created ob m m'" and "lo_matches (egress_opts labels) ob"
  shows "labelled m' (kind_of ob) labels"
proof -
  from assms(1) obtain ob' where "stamped ob ob'" "m' (ref_of ob) = Some ob'"
    by (auto simp: created_def stored_as_def)
  then show ?thesis
    unfolding labelled_def using assms(2)
    by (intro exI [of _ "ref_of ob"] exI [of _ ob']) (simp add: stampedD stamped_matches)
qed

lemma created_present: "created ob m m' \<Longrightarrow> m' (ref_of ob) \<noteq> None"
  by (auto simp: created_def stored_as_def)

context kube_api
begin

lemma grow_Create: "safe (on_store store egress_grows) (k8s_Create c ob)"
  by (rule safe_Create) (auto intro: created_grows)

lemma grow_create_unless:
  assumes r: "irClient r = c" and "safe (on_store store egress_grows) check"
  shows "safe (on_store store egress_grows) (create_unless r check ob)"
  unfolding create_unless_def r using assms(2) by (auto intro!: grow.safe_bind grow_Create)

lemma grow_exists:
  assumes "irClient r = c"
  shows "safe (on_store store egress_grows) (virtualServiceExists r n)"
    and "safe (on_store store egress_grows) (exists_in_egress r k l)"
  unfolding virtualServiceExists_def exists_in_egress_def assms
  by (auto intro!: grow.safe_bind safe_Get safe_List split: sum.splits)

lemma grow_ensureGatewayExists:
  assumes "irClient r = c"
  shows "safe (on_store store egress_grows) (ensureGatewayExists r gw h)"
  unfolding ensureGatewayExists_def assms
  by (auto intro!: grow.safe_bind safe_Get grow_Create split: sum.splits)

text \<open>A gateway that was just read is written back with one more host.\<close>

lemma updated_gateway_grows:
  assumes old: "store s (GatewayKind, key) = Some (GatewayObj g)"
    and servers: "gwServers g = server # servers"
    and upd: "updated (GatewayObj (g\<lparr>gwServers :=
        server\<lparr>srvHosts := appendSortedCompact (srvHosts server) h\<rparr> # servers\<rparr>)) ob' (store s) m'"
  shows "egress_grows (store s) m'"
    and "\<exists>g'. m' (GatewayKind, key) = Some (GatewayObj g') \<and> h \<in> gateway_hosts g'"
proof -
  let ?g = "g\<lparr>gwServers := server\<lparr>srvHosts := appendSortedCompact (srvHosts server) h\<rparr> # servers\<rparr>"
  have ref: "ref_of (GatewayObj ?g) = (GatewayKind, key)"
    using store_ref [OF old] by (simp add: ref_of_def)
  have "\<not> removable (GatewayObj ?g)"
    using store_live [OF old] by (simp add: removable_def)
  with upd ref have m': "m' = (store s)((GatewayKind, key) \<mapsto> ob')"
    and "stamped (GatewayObj ?g) ob'"
    by (auto simp: updated_def)
  then obtain g' where g': "ob' = GatewayObj g'" "gwServers g' = gwServers ?g"
    by (auto elim: stamped_GatewayD)
  have "gateway_hosts g \<subseteq> gateway_hosts g'" and "h \<in> gateway_hosts g'"
    using servers g' by (auto simp: gateway_hosts_def)
  with m' g' old show "egress_grows (store s) m'"
    and "\<exists>g'. m' (GatewayKind, key) = Some (GatewayObj g') \<and> h \<in> gateway_hosts g'"
    by (auto simp: egress_grows_def grown_def)
qed

lemma stored_gateway:
  assumes "store s (GatewayKind, key) = Some ob"
  obtains g where "ob = GatewayObj g"
  using stored_kind [OF assms] by (cases ob) simp_all

lemma ensureGatewayContainsHost_run:
  assumes r: "irClient r = c"
  shows "safe (on_store store egress_grows) (ensureGatewayContainsHost r gw h)"
    and "ok_post (\<lambda>_. True) (ensureGatewayContainsHost r gw h)
           (\<lambda>_ w. gateway_lists (store (ext w)) gw h)"
proof -
  let ?send = "\<lambda>g server servers. GatewayObj (g\<lparr>gwServers :=
      server\<lparr>srvHosts := appendSortedCompact (srvHosts server) h\<rparr> # servers\<rparr>)"
  show "safe (on_store store egress_grows) (ensureGatewayContainsHost r gw h)"
    unfolding ensureGatewayContainsHost_def r
  proof (rule safe_Get_bind [OF grow.effect_order_axioms])
    fix ob and w :: "'s world"
    assume old: "store (ext w) (GatewayKind, (EgressNamespace, gw)) = Some ob"
    then obtain g where g: "ob = GatewayObj g" by (rule stored_gateway)
    note old = old [unfolded g]
    show "on_store store egress_grows w (snd ((case Inr ob of
        Inl e \<Rightarrow> go_err (ApiError e)
      | Inr ob \<Rightarrow> (let gateway = as_Gateway ob in case gwServers gateway of
            [] \<Rightarrow> go_panic
          | server # servers \<Rightarrow> go_bind (k8s_Update c (?send gateway server servers))
              (\<lambda>reply. case reply of Inl e \<Rightarrow> go_err (ApiError e) | Inr answer \<Rightarrow> go_return ()))) w))"
      unfolding g using updated_gateway_grows(1) [OF old]
      by (auto simp: on_store_def call_defs go_defs Let_def dest!: update
          split: list.splits prod.splits sum.splits)
  qed (simp_all)
  show "ok_post (\<lambda>_. True) (ensureGatewayContainsHost r gw h)
      (\<lambda>_ w. gateway_lists (store (ext w)) gw h)"
  proof (rule ok_postI)
    fix w x w'
    assume "ensureGatewayContainsHost r gw h w = (Ok x, w')"
    then obtain ob w1 server servers answer where
        get: "k8s_Get c GatewayKind (EgressNamespace, gw) w = (Ok (Inr ob), w1)"
      and servers: "gwServers (as_Gateway ob) = server # servers"
      and upd: "k8s_Update c (?send (as_Gateway ob) server servers) w1 = (Ok (Inr answer), w')"
      unfolding ensureGatewayContainsHost_def r Let_def
      by (auto elim!: go_bind_OkE split: sum.splits list.splits)
    from get have old: "store (ext w1) (GatewayKind, (EgressNamespace, gw)) = Some ob"
      by (auto elim: Get_OkD)
    then obtain g where g: "ob = GatewayObj g" by (rule stored_gateway)
    note old = old [unfolded g] and servers = servers [unfolded g as_Gateway.simps]
      and upd = upd [unfolded g as_Gateway.simps]
    show "gateway_lists (store (ext w')) gw h"
      using updated_gateway_grows(2) [OF old servers Update_OkD [OF upd]]
      by (simp add: gateway_lists_def)
  qed
qed

text \<open>After a check and a creation that succeeded, the object checked for is there.\<close>

lemma create_unless_post:
  assumes r: "irClient r = c"
    and check: "\<And>w w'. check w = (Ok True, w') \<Longrightarrow> Q (store (ext w'))"
    and new: "\<And>m m'. created ob m m' \<Longrightarrow> Q m'"
  shows "ok_post (\<lambda>_. True) (create_unless r check ob) (\<lambda>_ w. Q (store (ext w)))"
proof (rule ok_postI)
  fix w x w'
  assume "create_unless r check ob w = (Ok x, w')"
  then obtain e w1 where e: "check w = (Ok e, w1)"
    and rest: "(if \<not> e then go_bind (k8s_Create c ob) check_error else go_return ()) w1 = (Ok x, w')"
    unfolding create_unless_def r by (rule go_bind_OkE)
  show "Q (store (ext w'))"
  proof (cases e)
    case True
    with e rest check show ?thesis by simp
  next
    case False
    with rest have "k8s_Create c ob w1 = (Ok None, w')" by (auto elim!: go_bind_OkE)
    then show ?thesis by (rule new [OF Create_OkD(1)]) simp
  qed
qed

lemma virtualServiceExists_True:
  assumes r: "irClient r = c" and run: "virtualServiceExists r n w = (Ok True, w')"
  shows "store (ext w') (VirtualServiceKind, (EgressNamespace, n)) \<noteq> None"
proof -
  from run obtain ob where "k8s_Get c VirtualServiceKind (EgressNamespace, n) w = (Ok (Inr ob), w')"
    unfolding virtualServiceExists_def r
    by (auto elim!: go_bind_OkE split: sum.splits if_splits)
  then show ?thesis by (auto elim: Get_OkD)
qed

lemma exists_in_egress_True:
  assumes r: "irClient r = c" and run: "exists_in_egress r k labels w = (Ok True, w')"
  shows "labelled (store (ext w')) k labels"
proof -
  from run obtain items where list: "k8s_List c k (egress_opts labels) w = (Ok (Inr items), w')"
    and "items \<noteq> []"
    unfolding exists_in_egress_def r by (auto elim!: go_bind_OkE)
  then obtain ob where "ob \<in> set items" by (cases items) auto
  with list have "store (ext w') (ref_of ob) = Some ob \<and> kind_of ob = k
      \<and> lo_matches (egress_opts labels) ob"
    by (auto elim: List_OkD)
  then show ?thesis unfolding labelled_def by blast
qed

lemma create_virtualService:
  assumes "irClient r = c" and "namespace_of (VirtualServiceObj vs) = EgressNamespace"
    and "name_of (VirtualServiceObj vs) = n"
  shows "ok_post (\<lambda>_. True) (create_unless r (virtualServiceExists r n) (VirtualServiceObj vs))
    (\<lambda>_ w. store (ext w) (VirtualServiceKind, (EgressNamespace, n)) \<noteq> None)"
  using assms(1)
proof (rule create_unless_post [where Q = "\<lambda>m. m (VirtualServiceKind, (EgressNamespace, n)) \<noteq> None"])
  show "store (ext w') (VirtualServiceKind, (EgressNamespace, n)) \<noteq> None"
    if "virtualServiceExists r n w = (Ok True, w')" for w w'
    using assms(1) that by (rule virtualServiceExists_True)
  show "m' (VirtualServiceKind, (EgressNamespace, n)) \<noteq> None"
    if "created (VirtualServiceObj vs) m m'" for m m'
    using created_present [OF that] assms(2,3) by (simp add: ref_of_def)
qed

lemma create_labelled:
  assumes "irClient r = c" and "lo_matches (egress_opts labels) ob" and "kind_of ob = k"
  shows "ok_post (\<lambda>_. True) (create_unless r (exists_in_egress r k labels) ob)
    (\<lambda>_ w. labelled (store (ext w)) k labels)"
  using assms(1)
proof (rule create_unless_post [where Q = "\<lambda>m. labelled m k labels"])
  show "labelled (store (ext w')) k labels" if "exists_in_egress r k labels w = (Ok True, w')" for w w'
    using assms(1) that by (rule exists_in_egress_True)
  show "labelled m' k labels" if "created ob m m'" for m m'
    using created_labelled [OF that assms(2)] assms(3) by simp
qed

lemma grows_on_store:
  assumes "\<And>m m'. egress_grows m m' \<Longrightarrow> A m \<Longrightarrow> A m'"
  shows "A (store (ext w)) \<Longrightarrow> on_store store egress_grows w w' \<Longrightarrow> A (store (ext w'))"
  using assms by (auto simp: on_store_def)

lemma grows_DestinationRule: "egress_grows m m' \<Longrightarrow> labelled m DestinationRuleKind l
    \<Longrightarrow> labelled m' DestinationRuleKind l"
  by (rule grows_labelled) simp_all

lemma resources_unless:
  "host_resources r host name vs dr1 dr2 se =
     go_seq (create_unless r (virtualServiceExists r name) (VirtualServiceObj vs))
    (go_seq (create_unless r (exists_in_egress r DestinationRuleKind
          [(''host'', host), (''type'', egressToGatewayLabel), (managedByLabel, managedByValue)])
        (DestinationRuleObj dr1))
    (go_seq (create_unless r (exists_in_egress r DestinationRuleKind
          [(''host'', host), (''type'', egressFromGatewayLabel), (managedByLabel, managedByValue)])
        (DestinationRuleObj dr2))
      (create_unless r (exists_in_egress r ServiceEntryKind [(''host'', host)])
        (ServiceEntryObj se))))"
  unfolding host_resources_def exists_defs createServiceEntry_def matchingHostLabel_def create_unless_def
  by (rule refl)

lemma grow_host_resources:
  "irClient r = c \<Longrightarrow> safe (on_store store egress_grows) (host_resources r h n vs dr1 dr2 se)"
  unfolding resources_unless by (intro grow.safe_seq grow_create_unless grow_exists)

lemma host_resources_post:
  assumes r: "irClient r = c"
    and vs: "namespace_of (VirtualServiceObj vs) = EgressNamespace" "name_of (VirtualServiceObj vs) = n"
    and dr1: "lo_matches (egress_opts [(''host'', h), (''type'', egressToGatewayLabel),
        (managedByLabel, managedByValue)]) (DestinationRuleObj dr1)"
    and dr2: "lo_matches (egress_opts [(''host'', h), (''type'', egressFromGatewayLabel),
        (managedByLabel, managedByValue)]) (DestinationRuleObj dr2)"
    and se: "lo_matches (egress_opts [(''host'', h)]) (ServiceEntryObj se)"
    and gw: "safe (on_store store egress_grows) gw"
      "ok_post (\<lambda>_. True) gw (\<lambda>_ w. gateway_lists (store (ext w)) g h)"
  shows "ok_post (\<lambda>_. True) (go_seq gw (host_resources r h n vs dr1 dr2 se))
    (\<lambda>_ w. host_ready g h n (store (ext w)))"
  unfolding host_ready_def resources_unless
proof (intro ok_post_seq_keep [where R = "on_store store egress_grows"]
    grow.safe_seq grow_create_unless grow_exists r gw(2) create_virtualService create_labelled)
  fix w w' :: "'s world"
  assume "on_store store egress_grows w w'"
  note keep = grows_on_store [OF _ _ this]
  show "gateway_lists (store (ext w)) g h \<Longrightarrow> gateway_lists (store (ext w')) g h"
    by (rule keep [where A = "\<lambda>m. gateway_lists m g h"]) (rule grows_gateway_lists)
  show "store (ext w) (VirtualServiceKind, (EgressNamespace, n)) \<noteq> None
      \<Longrightarrow> store (ext w') (VirtualServiceKind, (EgressNamespace, n)) \<noteq> None"
    by (rule keep [where A = "\<lambda>m. m (VirtualServiceKind, (EgressNamespace, n)) \<noteq> None"]) (rule grows_present)
  show "labelled (store (ext w)) DestinationRuleKind l \<Longrightarrow> labelled (store (ext w')) DestinationRuleKind l"
    for l by (rule keep [where A = "\<lambda>m. labelled m DestinationRuleKind l"]) (rule grows_DestinationRule)
  show "labelled (store (ext w)) DestinationRuleKind l \<Longrightarrow> labelled (store (ext w')) DestinationRuleKind l"
    for l by (rule keep [where A = "\<lambda>m. labelled m DestinationRuleKind l"]) (rule grows_DestinationRule)
qed (use vs dr1 dr2 se in simp_all)

lemma go_seq_assoc: "go_seq (go_seq a b) k = go_seq a (go_seq b k)"
  by (simp add: go_seq_def go_bind_assoc)

lemma ensureExternalHost_run:
  assumes r: "irClient r = c"
  shows "safe (on_store store egress_grows) (ensureExternalHost r h)"
    and "ok_post (\<lambda>_. True) (ensureExternalHost r h) (\<lambda>_ w. external_ready h (store (ext w)))"
proof -
  let ?gw = "go_seq (ensureGatewayExists r externalGatewayName (hostHost h))
    (ensureGatewayContainsHost r externalGatewayName (hostHost h))"
  have eq: "ensureExternalHost r h = go_seq ?gw (host_resources r (hostHost h) (Host_Name h)
      (newVirtualServiceForExternalHost h) (newExternalHostDestinationRuleToGateway h)
      (newExternalHostDestinationRuleFromGateway h) (newHTTPSServiceEntry h))"
    unfolding ensureExternalHost_def host_resources_def go_seq_assoc by (rule refl)
  have gw: "safe (on_store store egress_grows) ?gw"
    by (intro grow.safe_seq grow_ensureGatewayExists ensureGatewayContainsHost_run r)
  then show "safe (on_store store egress_grows) (ensureExternalHost r h)"
    unfolding eq using grow_host_resources [OF r] by (rule grow.safe_seq)
  show "ok_post (\<lambda>_. True) (ensureExternalHost r h) (\<lambda>_ w. external_ready h (store (ext w)))"
    unfolding eq external_ready_def
  proof (rule host_resources_post [OF r _ _ _ _ _ gw])
    show "ok_post (\<lambda>_. True) ?gw
        (\<lambda>_ w. gateway_lists (store (ext w)) externalGatewayName (hostHost h))"
      by (rule ok_post_seq [where Q = "\<lambda>_. True"])
        (auto simp: ok_post_def dest: ok_postD [OF ensureGatewayContainsHost_run(2) [OF r] TrueI])
  qed (simp_all add: builder_defs lo_matches_def egress_opts_def inEgressNamespace_def
      managedByLabel_def egressToGatewayLabel_def egressFromGatewayLabel_def)
qed

lemma ensureCloudSQLHost_run:
  assumes r: "irClient r = c"
  shows "safe (on_store store egress_grows) (ensureCloudSQLHost r q)"
    and "ok_post (\<lambda>_. True) (ensureCloudSQLHost r q) (\<lambda>_ w. cloudsql_ready q (store (ext w)))"
proof -
  let ?gw = "ensureGatewayContainsHost r cloudSQLGatewayName (CloudSQL_Host q)"
  have eq: "ensureCloudSQLHost r q = go_seq ?gw (host_resources r (CloudSQL_Host q) (CloudSQL_Name q)
      (newVirtualServiceForCloudSQLHost q) (newCloudSQLDestinationRuleToGateway q)
      (newCloudSQLDestinationRuleFromGateway q) (newCloudSQLServiceEntry q))"
    unfolding ensureCloudSQLHost_def host_resources_def by (rule refl)
  note gw = ensureGatewayContainsHost_run [OF r]
  show "safe (on_store store egress_grows) (ensureCloudSQLHost r q)"
    unfolding eq by (intro grow.safe_seq grow_host_resources r gw)
  show "ok_post (\<lambda>_. True) (ensureCloudSQLHost r q) (\<lambda>_ w. cloudsql_ready q (store (ext w)))"
    unfolding eq cloudsql_ready_def
    by (rule host_resources_post [OF r _ _ _ _ _ gw])
      (simp_all add: builder_defs lo_matches_def egress_opts_def inEgressNamespace_def
        managedByLabel_def egressToGatewayLabel_def egressFromGatewayLabel_def)
qed

lemma hosts_loop:
  assumes safe: "\<And>h. safe (on_store store egress_grows) (f h)"
    and body: "\<And>h. ok_post (\<lambda>_. True) (f h) (\<lambda>_ w. A h (store (ext w)))"
    and keep: "\<And>h m m'. egress_grows m m' \<Longrightarrow> A h m \<Longrightarrow> A h m'"
  shows "ok_post (\<lambda>_. True) (for_each f hs) (\<lambda>_ w. \<forall>h \<in> set hs. A h (store (ext w)))"
proof -
  have "ok_post (\<lambda>_. True) (for_each f hs) (\<lambda>_ w. True \<and> (\<forall>h \<in> set hs. A h (store (ext w))))"
    by (rule ok_post_for_each [where R = "on_store store egress_grows"])
      (auto intro: safe body grows_on_store [where A = "A h" for h] keep)
  then show ?thesis by simp
qed

end

lemma EnsureExternalHosts_flat:
  "EnsureExternalHosts r sas = for_each (ensureExternalHost r) (external_hosts sas)"
  by (simp add: EnsureExternalHosts_def external_hosts_def for_each_concat)

lemma EnsureCloudSQLHosts_flat:
  "EnsureCloudSQLHosts r sas = for_each (ensureCloudSQLHost r) (cloudsql_hosts sas)"
  by (simp add: EnsureCloudSQLHosts_def cloudsql_hosts_def for_each_concat)

context kube_api
begin

lemma EnsureExternalHosts_run:
  assumes r: "irClient r = c"
  shows "safe (on_store store egress_grows) (EnsureExternalHosts r sas)"
    and "ok_post (\<lambda>_. True) (EnsureExternalHosts r sas)
      (\<lambda>_ w. \<forall>h \<in> set (external_hosts sas). external_ready h (store (ext w)))"
  unfolding EnsureExternalHosts_flat
  by (intro grow.safe_for_each ensureExternalHost_run r)
    (intro hosts_loop ensureExternalHost_run r,
      simp add: external_ready_def grows_host_ready)

lemma EnsureCloudSQLHosts_run:
  assumes r: "irClient r = c"
  shows "safe (on_store store egress_grows) (EnsureCloudSQLHosts r sas)"
    and "ok_post (\<lambda>_. True) (EnsureCloudSQLHosts r sas)
      (\<lambda>_ w. \<forall>h \<in> set (cloudsql_hosts sas). cloudsql_ready h (store (ext w)))"
  unfolding EnsureCloudSQLHosts_flat
  by (intro grow.safe_for_each ensureCloudSQLHost_run r)
    (intro hosts_loop ensureCloudSQLHost_run r,
      simp add: cloudsql_ready_def grows_host_ready)

lemma ensure_hosts_ready:
  assumes r: "irClient r = c"
    and first: "EnsureExternalHosts r sas w = (Ok (), w1)"
    and second: "EnsureCloudSQLHosts r sas w1 = (Ok (), w')"
  shows "(\<forall>h \<in> set (external_hosts sas). external_ready h (store (ext w')))
    \<and> (\<forall>q \<in> set (cloudsql_hosts sas). cloudsql_ready q (store (ext w')))"
proof -
  have "\<forall>h \<in> set (external_hosts sas). external_ready h (store (ext w1))"
    using EnsureExternalHosts_run(2) [OF r] TrueI first by (rule ok_postD)
  moreover have "on_store store egress_grows w1 w'"
    using EnsureCloudSQLHosts_run(1) [OF r] second by (rule safeD)
  moreover have "\<forall>q \<in> set (cloudsql_hosts sas). cloudsql_ready q (store (ext w'))"
    using EnsureCloudSQLHosts_run(2) [OF r] TrueI second by (rule ok_postD)
  ultimately show ?thesis
    unfolding external_ready_def on_store_def by (blast intro: grows_host_ready)
qed

end

text \<open>
  C9. When the external hosts and then the Cloud SQL addresses have been handled without
  error, every allowed host of every account is in its gateway's host list, its
  VirtualService, the DestinationRule of either direction and its ServiceEntry exist under
  the name or labels the code looks for, and nothing done for a later host takes back what
  an earlier one got. Reads may lag behind the server.
\<close>

theorem Ensure_hosts_complete:
  assumes "kube_api (irClient r) store"
    and "go_seq (EnsureExternalHosts r sas) (EnsureCloudSQLHosts r sas) w = (Ok (), w')"
  shows "(\<forall>h \<in> set (external_hosts sas). external_ready h (store (ext w')))
    \<and> (\<forall>q \<in> set (cloudsql_hosts sas). cloudsql_ready q (store (ext w')))"
  using assms(2) by (rule go_seq_OkE) (rule kube_api.ensure_hosts_ready [OF assms(1) refl])

definition example_istio :: "mem IstioReconciler" where
  "example_istio = \<lparr>irClient = mem_client 0,
     irOnpremHosts = [''db.intern'' \<mapsto> \<lparr>onpremVIP = [''10.0.0.1''], onpremProtocol = ''tcp''\<rparr>]\<rparr>"

definition example_sa :: ServiceAccount where
  "example_sa = mkServiceAccount example_env
     \<lparr>usaName = ''sa'', usaExternalAllowlist = [\<lparr>hostHost = ''vg.no'', hostPaths = []\<rparr>],
      usaInternalAllowlist = [], usaCloudSQL = []\<rparr>"

lemma example_istio_api: "kube_api (irClient example_istio) mem_store"
  by (simp add: example_istio_def mem_api.kube_api_axioms)

lemma example_istio_fresh: "kube_fresh (irClient example_istio) mem_store"
  by (simp add: example_istio_def mem_fresh.kube_fresh_axioms)

lemmas istio_constants =
  EgressNamespace_def externalGatewayHost_def externalGatewayName_def cloudSQLGatewayHost_def
  cloudSQLGatewayName_def meshGatewayName_def egressToGatewayLabel_def egressFromGatewayLabel_def
  managedByLabel_def managedByValue_def

lemmas istio_program_defs =
  ensureExternalHost_def ensureCloudSQLHost_def ensure_defs matchingHostLabel_def egress_opts_def
  inEgressNamespace_def builder_defs Host_Name_def CloudSQL_Name_def CloudSQL_Host_def
  ReplaceDots_def istio_constants

theorem Ensure_hosts_complete_witness:
  "\<exists>w'. go_seq (EnsureExternalHosts example_istio [example_sa]) (EnsureCloudSQLHosts example_istio [example_sa])
      (example_world []) = (Ok (), w')
    \<and> external_ready \<lparr>hostHost = ''vg.no'', hostPaths = []\<rparr> (mem_store (ext w'))"
proof -
  let ?run = "go_seq (EnsureExternalHosts example_istio [example_sa])
      (EnsureCloudSQLHosts example_istio [example_sa]) (example_world [])"
  have "fst ?run = Ok ()"
    by (simp add: EnsureExternalHosts_def EnsureCloudSQLHosts_def example_istio_def example_sa_def
        example_world_def istio_program_defs mem_eval)
  then have run: "?run = (Ok (), snd ?run)" by (metis prod.collapse)
  from Ensure_hosts_complete [OF example_istio_api run]
  show ?thesis using run by (auto simp: example_sa_def external_hosts_def)
qed

section \<open>A clash of names is an error\<close>

text \<open>Contents that agree on the objects of one kind.\<close>

definition same_kind :: "kind \<Rightarrow> contents \<Rightarrow> contents \<Rightarrow> bool" where
  "same_kind k m m' \<longleftrightarrow> (\<forall>ref. fst ref = k \<longrightarrow> m' ref = m ref)"

lemma same_kind_refl [simp]: "same_kind k m m"
  by (simp add: same_kind_def)

interpretation same_kind: effect_order "on_store store (same_kind k)" for store k
  by (rule effect_order_on_store) (simp_all add: same_kind_def)

lemma created_same_kind: "created ob m m' \<Longrightarrow> kind_of ob \<noteq> k \<Longrightarrow> same_kind k m m'"
  by (auto simp: created_def stored_as_def same_kind_def ref_of_def)

lemma updated_same_kind: "updated ob ob' m m' \<Longrightarrow> kind_of ob \<noteq> k \<Longrightarrow> same_kind k m m'"
  by (auto simp: updated_def same_kind_def ref_of_def split: if_splits)

lemma gateway_same_kind:
  "created (GatewayObj g) m m' \<Longrightarrow> k \<noteq> GatewayKind \<Longrightarrow> same_kind k m m'"
  "updated (GatewayObj g) ob' m m' \<Longrightarrow> k \<noteq> GatewayKind \<Longrightarrow> same_kind k m m'"
  by (auto elim!: created_same_kind updated_same_kind)

context kube_api
begin

lemma same_kind_create_unless:
  assumes r: "irClient r = c" and "safe (on_store store (same_kind k)) check" and "kind_of ob \<noteq> k"
  shows "safe (on_store store (same_kind k)) (create_unless r check ob)"
  unfolding create_unless_def r using assms(2,3)
  by (auto intro!: same_kind.safe_bind safe_Create intro: created_same_kind)

lemma same_kind_reads:
  assumes "irClient r = c"
  shows "safe (on_store store (same_kind k)) (virtualServiceExists r n)"
    and "safe (on_store store (same_kind k)) (exists_in_egress r k' l)"
  unfolding virtualServiceExists_def exists_in_egress_def assms
  by (auto intro!: same_kind.safe_bind safe_Get safe_List split: sum.splits)

lemma same_kind_gateway:
  assumes "irClient r = c" and k: "k \<noteq> GatewayKind"
  shows "safe (on_store store (same_kind k)) (ensureGatewayExists r gw h)"
    and "safe (on_store store (same_kind k)) (ensureGatewayContainsHost r gw h)"
  unfolding ensureGatewayExists_def ensureGatewayContainsHost_def Let_def assms(1) using k
  by (auto intro!: same_kind.safe_bind safe_Get safe_Create safe_Update
      elim!: gateway_same_kind split: sum.splits list.splits)

lemma create_unless_clash:
  assumes r: "irClient r = c" and run: "create_unless r (exists_in_egress r k labels) ob w = (Ok x, w')"
    and used: "store (ext w) (ref_of ob) \<noteq> None"
  shows "labelled (store (ext w)) k labels"
proof -
  from run obtain e w1 where e: "exists_in_egress r k labels w = (Ok e, w1)"
    and rest: "(if \<not> e then go_bind (k8s_Create c ob) check_error else go_return ()) w1 = (Ok x, w')"
    unfolding create_unless_def r by (rule go_bind_OkE)
  have same: "store (ext w1) = store (ext w)"
    using e unfolding exists_in_egress_def r by (auto elim!: go_bind_OkE elim: List_OkD)
  have e: "exists_in_egress r k labels w = (Ok True, w1)"
  proof (cases e)
    case False
    with rest have "k8s_Create c ob w1 = (Ok None, w')" by (auto elim!: go_bind_OkE)
    from Create_OkD(1) [OF this] used same show ?thesis by (simp add: created_def)
  qed (use e in simp)
  from exists_in_egress_True [OF r e] same show ?thesis by simp
qed

lemma clash_blocks:
  assumes r: "irClient r = c"
    and used: "store (ext w) (DestinationRuleKind, (EgressNamespace, Host_Name h @ ''-to-gateway'')) \<noteq> None"
    and run: "ensureExternalHost r h w = (Ok v, w')"
  shows "labelled (store (ext w)) DestinationRuleKind
    [(''host'', hostHost h), (''type'', egressToGatewayLabel), (managedByLabel, managedByValue)]"
proof -
  let ?ref = "(DestinationRuleKind, (EgressNamespace, Host_Name h @ ''-to-gateway''))"
  let ?labels = "[(''host'', hostHost h), (''type'', egressToGatewayLabel), (managedByLabel, managedByValue)]"
  let ?before = "go_seq (ensureGatewayExists r externalGatewayName (hostHost h))
    (go_seq (ensureGatewayContainsHost r externalGatewayName (hostHost h))
      (create_unless r (virtualServiceExists r (Host_Name h))
         (VirtualServiceObj (newVirtualServiceForExternalHost h))))"
  let ?dr = "DestinationRuleObj (newExternalHostDestinationRuleToGateway h)"
  from run obtain w1 w2 w3 w4 where "ensureGatewayExists r externalGatewayName (hostHost h) w = (Ok (), w3)"
    and "ensureGatewayContainsHost r externalGatewayName (hostHost h) w3 = (Ok (), w4)"
    and "create_unless r (virtualServiceExists r (Host_Name h))
      (VirtualServiceObj (newVirtualServiceForExternalHost h)) w4 = (Ok (), w1)"
    and dr: "create_unless r (exists_in_egress r DestinationRuleKind ?labels) ?dr w1 = (Ok (), w2)"
    unfolding ensureExternalHost_def exists_defs by (elim go_seq_OkE)
  then have first: "?before w = (Ok (), w1)" by (simp add: go_seq_def go_bind_def)
  have "safe (on_store store (same_kind DestinationRuleKind)) ?before"
    by (intro same_kind.safe_seq same_kind_gateway same_kind_create_unless same_kind_reads r) simp_all
  then have "on_store store (same_kind DestinationRuleKind) w w1" using first by (rule safeD)
  then have same: "store (ext w1) ref = store (ext w) ref" if "fst ref = DestinationRuleKind" for ref
    using that unfolding on_store_def same_kind_def by blast
  have "ref_of ?dr = ?ref" by (simp add: ref_of_def builder_defs)
  with used same have "store (ext w1) (ref_of ?dr) \<noteq> None" by simp
  from create_unless_clash [OF r dr this] obtain ref ob where
      ob: "store (ext w1) ref = Some ob" "kind_of ob = DestinationRuleKind"
        "lo_matches (egress_opts ?labels) ob"
    by (auto simp: labelled_def)
  moreover have "fst ref = DestinationRuleKind" using store_ref [OF ob(1)] ob(2) by (auto simp: ref_of_def)
  ultimately show ?thesis using same unfolding labelled_def by metis
qed

end

text \<open>
  C25. Two hosts whose names agree after replacing dots by dashes block each other. When
  the DestinationRule name of a host is taken and no DestinationRule carries the host's
  own label, the host is never handled without error, so every reconciliation that allows
  it fails, until somebody removes the other rule.
\<close>

theorem name_clash_blocks:
  assumes "kube_api (irClient r) store"
    and "store (ext w) (DestinationRuleKind, (EgressNamespace, Host_Name h @ ''-to-gateway'')) \<noteq> None"
    and "\<not> labelled (store (ext w)) DestinationRuleKind
          [(''host'', hostHost h), (''type'', egressToGatewayLabel), (managedByLabel, managedByValue)]"
  shows "fst (ensureExternalHost r h w) \<noteq> Ok ()"
proof
  assume "fst (ensureExternalHost r h w) = Ok ()"
  then have "ensureExternalHost r h w = (Ok (), snd (ensureExternalHost r h w))"
    by (metis prod.collapse)
  from kube_api.clash_blocks [OF assms(1) refl assms(2) this] assms(3) show False by contradiction
qed

theorem name_clash_blocks_witness:
  "fst (ensureExternalHost example_istio \<lparr>hostHost = ''a.b'', hostPaths = []\<rparr>
     (example_world [DestinationRuleObj (newExternalHostDestinationRuleToGateway
        \<lparr>hostHost = ''a-b'', hostPaths = []\<rparr>)])) \<noteq> Ok ()"
  by (rule name_clash_blocks [OF example_istio_api])
    (auto simp: labelled_def mem_store_iff example_world_def mem_objects_def removable_def ref_of_def
      istio_program_defs lo_matches_def mem_store_def)

section \<open>A second run creates nothing\<close>

fun creates :: "event \<Rightarrow> bool" where
  "creates (ECreate ob r) = True"
| "creates _ = False"

text \<open>
  While the resources of some hosts are there, nothing is created: a relation between the
  worlds before and after that the bodies of the loops satisfy one by one.
\<close>

definition quiet :: "('s \<Rightarrow> contents) \<Rightarrow> (contents \<Rightarrow> bool) \<Rightarrow> 's world \<Rightarrow> 's world \<Rightarrow> bool" where
  "quiet store A w w' \<longleftrightarrow> on_store store egress_grows w w'
     \<and> (A (store (ext w)) \<longrightarrow> emits_rel (\<lambda>e. \<not> creates e) w w')"

definition kept_by_growth :: "(contents \<Rightarrow> bool) \<Rightarrow> bool" where
  "kept_by_growth A \<longleftrightarrow> (\<forall>m m'. egress_grows m m' \<longrightarrow> A m \<longrightarrow> A m')"

lemma quiet_order:
  assumes "kept_by_growth A"
  shows "effect_order (quiet store A)"
proof unfold_locales
  show "quiet store A w w" for w
    by (simp add: quiet_def grow.refl emits.refl)
  show "quiet store A w1 w3" if "quiet store A w1 w2" "quiet store A w2 w3" for w1 w2 w3
  proof -
    from that assms have "A (store (ext w1)) \<Longrightarrow> A (store (ext w2))"
      unfolding quiet_def on_store_def kept_by_growth_def by blast
    with that show ?thesis unfolding quiet_def by (blast intro: grow.trans emits.trans)
  qed
qed

lemma quiet_reads:
  "safe (on_store store egress_grows) m \<Longrightarrow> emits (\<lambda>e. \<not> creates e) m \<Longrightarrow> safe (quiet store A) m"
  by (auto simp: safe_def quiet_def)

lemma emits_reads:
  "emits (\<lambda>e. \<not> creates e) (virtualServiceExists r n)"
  "emits (\<lambda>e. \<not> creates e) (exists_in_egress r k l)"
  "emits (\<lambda>e. \<not> creates e) (ensureGatewayContainsHost r gw h)"
  unfolding virtualServiceExists_def exists_in_egress_def ensureGatewayContainsHost_def Let_def
  by (rule emits_rules | auto split: sum.splits list.splits)+

context kube_fresh
begin

lemma quiet_create_unless:
  assumes r: "irClient r = c" and A: "kept_by_growth A"
    and check: "safe (on_store store egress_grows) check" "emits (\<lambda>e. \<not> creates e) check"
    and there: "\<And>w w'. A (store (ext w)) \<Longrightarrow> check w \<noteq> (Ok False, w')"
  shows "safe (quiet store A) (create_unless r check ob)"
proof (rule safeI)
  fix w :: "'s world"
  have "on_store store egress_grows w (snd (create_unless r check ob w))"
    using grow_create_unless [OF r check(1)] by (simp add: safe_def)
  moreover have "emits_rel (\<lambda>e. \<not> creates e) w (snd (create_unless r check ob w))"
    if "A (store (ext w))"
  proof -
    obtain res w1 where res: "check w = (res, w1)" by (cases "check w")
    with check(2) have "emits_rel (\<lambda>e. \<not> creates e) w w1" by (rule safeD)
    moreover have "res \<noteq> Ok False" using there that res by blast
    ultimately show ?thesis
      using res by (cases res) (auto simp: create_unless_def go_defs)
  qed
  ultimately show "quiet store A w (snd (create_unless r check ob w))"
    by (simp add: quiet_def)
qed

lemma virtualServiceExists_False:
  assumes r: "irClient r = c" and run: "virtualServiceExists r n w = (Ok False, w')"
  shows "store (ext w) (VirtualServiceKind, (EgressNamespace, n)) = None"
proof -
  from run obtain e where "k8s_Get c VirtualServiceKind (EgressNamespace, n) w = (Ok (Inl e), w')"
    and "IsNotFound e"
    unfolding virtualServiceExists_def r by (auto elim!: go_bind_OkE split: sum.splits if_splits)
  then show ?thesis by (rule Get_NotFoundD)
qed

lemma exists_in_egress_False:
  assumes r: "irClient r = c" and run: "exists_in_egress r k labels w = (Ok False, w')"
  shows "\<not> labelled (store (ext w)) k labels"
proof
  assume "labelled (store (ext w)) k labels"
  then obtain ref ob where ob: "store (ext w) ref = Some ob" "kind_of ob = k"
    "lo_matches (egress_opts labels) ob" by (auto simp: labelled_def)
  from run have list: "k8s_List c k (egress_opts labels) w = (Ok (Inr []), w')"
    unfolding exists_in_egress_def r by (auto elim!: go_bind_OkE)
  from List_completeD [OF list ob] show False by simp
qed

lemma quiet_host_resources:
  assumes r: "irClient r = c" and A: "kept_by_growth A"
    and ready: "\<And>m. A m \<Longrightarrow> host_ready g h n m"
  shows "safe (quiet store A) (host_resources r h n vs dr1 dr2 se)"
proof -
  note order = quiet_order [OF A]
  have there: "A (store (ext w)) \<Longrightarrow> virtualServiceExists r n w \<noteq> (Ok False, w')"
    "A (store (ext w)) \<Longrightarrow> exists_in_egress r DestinationRuleKind [(''host'', h),
       (''type'', egressToGatewayLabel), (managedByLabel, managedByValue)] w \<noteq> (Ok False, w')"
    "A (store (ext w)) \<Longrightarrow> exists_in_egress r DestinationRuleKind [(''host'', h),
       (''type'', egressFromGatewayLabel), (managedByLabel, managedByValue)] w \<noteq> (Ok False, w')"
    "A (store (ext w)) \<Longrightarrow> exists_in_egress r ServiceEntryKind [(''host'', h)] w \<noteq> (Ok False, w')"
    for w w'
    using ready [of "store (ext w)"]
    by (auto simp: host_ready_def dest!: virtualServiceExists_False [OF r] exists_in_egress_False [OF r])
  show ?thesis
    unfolding resources_unless
    by (intro effect_order.safe_seq [OF order] quiet_create_unless r A grow_exists emits_reads there)
qed

lemma quiet_ensureExternalHost:
  assumes r: "irClient r = c" and A: "kept_by_growth A" and ready: "\<And>m. A m \<Longrightarrow> external_ready h m"
  shows "safe (quiet store A) (ensureExternalHost r h)"
proof -
  note order = quiet_order [OF A]
  have gateway: "k8s_Get c GatewayKind (EgressNamespace, externalGatewayName) w \<noteq> (Ok (Inl NotFound), w')"
    if "A (store (ext w))" for w w'
    using ready [OF that] Get_NotFoundD
    by (fastforce simp: external_ready_def host_ready_def gateway_lists_def)
  have "safe (quiet store A) (ensureGatewayExists r externalGatewayName (hostHost h))"
  proof (rule safeI)
    fix w :: "'s world"
    have "on_store store egress_grows w (snd (ensureGatewayExists r externalGatewayName (hostHost h) w))"
      using grow_ensureGatewayExists [OF r] by (simp add: safe_def)
    moreover have "emits_rel (\<lambda>e. \<not> creates e) w
        (snd (ensureGatewayExists r externalGatewayName (hostHost h) w))" if "A (store (ext w))"
    proof -
      let ?get = "k8s_Get c GatewayKind (EgressNamespace, externalGatewayName)"
      obtain reply w1 where get: "?get w = (Ok reply, w1)"
        by (cases "?get w") (auto elim: Get_OkD)
      have "emits (\<lambda>e. \<not> creates e) ?get" by (rule emits_Get) simp
      then have "emits_rel (\<lambda>e. \<not> creates e) w w1" using get by (rule safeD)
      with get gateway [OF that] show ?thesis
        by (auto simp: ensureGatewayExists_def r go_bind_def go_return_def go_err_def IsNotFound_def
            split: sum.splits)
    qed
    ultimately show "quiet store A w (snd (ensureGatewayExists r externalGatewayName (hostHost h) w))"
      by (simp add: quiet_def)
  qed
  moreover have "safe (quiet store A) (ensureGatewayContainsHost r externalGatewayName (hostHost h))"
    by (intro quiet_reads ensureGatewayContainsHost_run r emits_reads)
  moreover have "ensureExternalHost r h = go_seq (ensureGatewayExists r externalGatewayName (hostHost h))
    (go_seq (ensureGatewayContainsHost r externalGatewayName (hostHost h))
      (host_resources r (hostHost h) (Host_Name h)
        (newVirtualServiceForExternalHost h) (newExternalHostDestinationRuleToGateway h)
        (newExternalHostDestinationRuleFromGateway h) (newHTTPSServiceEntry h)))"
    unfolding ensureExternalHost_def host_resources_def by (rule refl)
  moreover have "safe (quiet store A) (host_resources r (hostHost h) (Host_Name h)
      (newVirtualServiceForExternalHost h) (newExternalHostDestinationRuleToGateway h)
      (newExternalHostDestinationRuleFromGateway h) (newHTTPSServiceEntry h))"
    by (rule quiet_host_resources [OF r A]) (use ready in \<open>simp add: external_ready_def\<close>)
  ultimately show ?thesis by (simp add: effect_order.safe_seq [OF order])
qed

lemma quiet_ensureCloudSQLHost:
  assumes r: "irClient r = c" and A: "kept_by_growth A" and ready: "\<And>m. A m \<Longrightarrow> cloudsql_ready q m"
  shows "safe (quiet store A) (ensureCloudSQLHost r q)"
proof -
  have eq: "ensureCloudSQLHost r q = go_seq (ensureGatewayContainsHost r cloudSQLGatewayName (CloudSQL_Host q))
      (host_resources r (CloudSQL_Host q) (CloudSQL_Name q)
      (newVirtualServiceForCloudSQLHost q) (newCloudSQLDestinationRuleToGateway q)
      (newCloudSQLDestinationRuleFromGateway q) (newCloudSQLServiceEntry q))"
    unfolding ensureCloudSQLHost_def host_resources_def by (rule refl)
  show ?thesis
    unfolding eq
  proof (rule effect_order.safe_seq [OF quiet_order [OF A]])
    show "safe (quiet store A) (ensureGatewayContainsHost r cloudSQLGatewayName (CloudSQL_Host q))"
      by (intro quiet_reads ensureGatewayContainsHost_run r emits_reads)
  qed (rule quiet_host_resources [OF r A], use ready in \<open>simp add: cloudsql_ready_def\<close>)
qed

lemma Ensure_hosts_quiet:
  assumes r: "irClient r = c"
    and A: "A = (\<lambda>m. (\<forall>h \<in> set (external_hosts sas). external_ready h m)
      \<and> (\<forall>q \<in> set (cloudsql_hosts sas). cloudsql_ready q m))"
  shows "safe (quiet store A) (go_seq (EnsureExternalHosts r sas) (EnsureCloudSQLHosts r sas))"
proof -
  have kept: "kept_by_growth A"
    unfolding A kept_by_growth_def external_ready_def cloudsql_ready_def
    by (blast intro: grows_host_ready)
  note order = quiet_order [OF kept]
  show ?thesis
    unfolding EnsureExternalHosts_flat EnsureCloudSQLHosts_flat
    by (intro effect_order.safe_seq [OF order] effect_order.safe_for_each [OF order]
        quiet_ensureExternalHost quiet_ensureCloudSQLHost r kept) (simp_all add: A)
qed

end

text \<open>
  C20. Reconciliation converges: from a cluster in which every allowed host has its
  resources, a further run creates nothing, whatever errors the server answers with,
  provided its reads are complete. (It does rewrite the gateways, with the same hosts.)
\<close>

theorem Ensure_hosts_converges:
  assumes "kube_fresh (irClient r) store"
    and "\<forall>h \<in> set (external_hosts sas). external_ready h (store (ext w))"
    and "\<forall>q \<in> set (cloudsql_hosts sas). cloudsql_ready q (store (ext w))"
  shows "\<exists>es. events (snd (go_seq (EnsureExternalHosts r sas) (EnsureCloudSQLHosts r sas) w))
             = events w @ es \<and> list_all (\<lambda>e. \<not> creates e) es"
  using kube_fresh.Ensure_hosts_quiet [OF assms(1) refl refl, of sas] assms(2,3)
  unfolding safe_def quiet_def emits_rel_def by blast

text \<open>The run after the run of the previous witness.\<close>

theorem Ensure_hosts_converges_witness:
  "\<exists>w es. events (snd (go_seq (EnsureExternalHosts example_istio [example_sa])
        (EnsureCloudSQLHosts example_istio [example_sa]) w)) = events w @ es
     \<and> list_all (\<lambda>e. \<not> creates e) es \<and> mem_store (ext w) \<noteq> Map.empty"
proof -
  let ?prog = "go_seq (EnsureExternalHosts example_istio [example_sa])
      (EnsureCloudSQLHosts example_istio [example_sa])"
  let ?w = "snd (?prog (example_world []))"
  have "fst (?prog (example_world [])) = Ok ()"
    by (simp add: EnsureExternalHosts_def EnsureCloudSQLHosts_def example_istio_def example_sa_def
        example_world_def istio_program_defs mem_eval)
  then have run: "?prog (example_world []) = (Ok (), ?w)" by (metis prod.collapse)
  from run obtain w1 where first: "EnsureExternalHosts example_istio [example_sa] (example_world []) = (Ok (), w1)"
    and second: "EnsureCloudSQLHosts example_istio [example_sa] w1 = (Ok (), ?w)"
    by (rule go_seq_OkE)
  note api = kube_fresh.axioms(1) [OF example_istio_fresh]
  have sql: "cloudsql_hosts [example_sa] = []" by (simp add: cloudsql_hosts_def example_sa_def)
  then have "w1 = ?w" using second by (simp add: EnsureCloudSQLHosts_flat)
  with ok_postD [OF kube_api.EnsureExternalHosts_run(2) [OF api refl] TrueI first]
  have ready: "\<forall>h \<in> set (external_hosts [example_sa]). external_ready h (mem_store (ext ?w))"
    by simp
  then have "mem_store (ext ?w) \<noteq> Map.empty"
    by (auto simp: external_hosts_def example_sa_def external_ready_def host_ready_def)
  moreover have "\<forall>q \<in> set (cloudsql_hosts [example_sa]). cloudsql_ready q (mem_store (ext ?w))"
    by (simp add: sql)
  ultimately show ?thesis
    using Ensure_hosts_converges [OF example_istio_fresh ready] by blast
qed

section \<open>Authorization policies\<close>

text \<open>The policies an account asks for, as one list: data, parent host, protocol, type label.\<close>

type_synonym policy_request = "authPolicyData \<times> string option \<times> string \<times> string"

definition host_data :: "Host \<Rightarrow> authPolicyData" where
  "host_data h = \<lparr>apdHostName = hostHost h, apdHost = hostHost h, apdPaths = hostPaths h\<rparr>"

definition internal_requests :: "'s IstioReconciler \<Rightarrow> Host \<Rightarrow> policy_request list" where
  "internal_requests r h =
     (case irOnpremHosts r (hostHost h) of
        None \<Rightarrow> []
      | Some d \<Rightarrow> (host_data h, None, onpremProtocol d, hostTypeLabelInternal)
          # map (\<lambda>vip. (\<lparr>apdHostName = vip, apdHost = vip, apdPaths = []\<rparr>, Some (hostHost h),
                onpremProtocol d, hostTypeLabelInternal)) (onpremVIP d))"

definition policy_requests :: "'s IstioReconciler \<Rightarrow> ServiceAccount \<Rightarrow> policy_request list" where
  "policy_requests r sa =
     map (\<lambda>h. (host_data h, None, httpsProtocol, hostTypeLabelExternal))
       (usaExternalAllowlist (saUnionServiceAccount sa))
     @ map (\<lambda>q. (\<lparr>apdHostName = CloudSQL_Host q, apdHost = sqlIP q, apdPaths = []\<rparr>, None,
            tcpProtocol, hostTypeLabelExternal)) (usaCloudSQL (saUnionServiceAccount sa))
     @ concat (map (internal_requests r) (usaInternalAllowlist (saUnionServiceAccount sa)))"

definition ensure_request ::
    "'s IstioReconciler \<Rightarrow> ServiceAccount \<Rightarrow> policy_request \<Rightarrow> ('s world, unit) go" where
  "ensure_request r sa req = (case req of (apd, parentHost, protocol, hostType) \<Rightarrow>
     ensureAuthorizationPolicyForHost r sa apd parentHost protocol hostType)"

definition all_requests ::
    "'s IstioReconciler \<Rightarrow> ServiceAccount list \<Rightarrow> (ServiceAccount \<times> policy_request) list" where
  "all_requests r sas = concat (map (\<lambda>sa. map (Pair sa) (policy_requests r sa)) sas)"

lemma ensure_request_simp:
  "ensure_request r sa (apd, parentHost, protocol, hostType)
     = ensureAuthorizationPolicyForHost r sa apd parentHost protocol hostType"
  by (simp add: ensure_request_def)

lemma for_each_map: "for_each f (map g xs) = for_each (\<lambda>x. f (g x)) xs"
  by (induction xs) simp_all

lemma ensure_internal_flat:
  "ensure_internal_policies r sa = (\<lambda>h. for_each (ensure_request r sa) (internal_requests r h))"
  by (rule ext) (simp add: ensure_internal_policies_def internal_requests_def ensure_request_simp host_data_def
      for_each_map split: option.split)

lemma EnsureAuthorizationPolicies_flat:
  "EnsureAuthorizationPolicies r sas
     = for_each (\<lambda>(sa, req). ensure_request r sa req) (all_requests r sas)"
proof -
  have "go_seq (for_each (\<lambda>host. ensureAuthorizationPolicyForHost r sa
            \<lparr>apdHostName = hostHost host, apdHost = hostHost host, apdPaths = hostPaths host\<rparr>
            None httpsProtocol hostTypeLabelExternal)
          (usaExternalAllowlist (saUnionServiceAccount sa)))
      (go_seq (for_each (\<lambda>host. ensureAuthorizationPolicyForHost r sa
            \<lparr>apdHostName = CloudSQL_Host host, apdHost = sqlIP host, apdPaths = []\<rparr>
            None tcpProtocol hostTypeLabelExternal)
          (usaCloudSQL (saUnionServiceAccount sa)))
        (for_each (ensure_internal_policies r sa)
          (usaInternalAllowlist (saUnionServiceAccount sa))))
    = for_each (\<lambda>(sa, req). ensure_request r sa req) (map (Pair sa) (policy_requests r sa))" for sa
    by (simp add: policy_requests_def for_each_append for_each_map for_each_concat [symmetric]
        ensure_internal_flat ensure_request_simp host_data_def)
  then show ?thesis
    by (simp add: EnsureAuthorizationPolicies_def all_requests_def for_each_concat [symmetric])
qed

text \<open>What an account may reach: the specification's own words.\<close>

definition path_allowed :: "(string \<Rightarrow> string \<Rightarrow> bool) \<Rightarrow> Host \<Rightarrow> access \<Rightarrow> bool" where
  "path_allowed m h q \<longleftrightarrow> hostPaths h = [] \<or> (\<exists>p \<in> set (hostPaths h). m p (accPath q))"

definition access_allowed ::
    "OnpremHostMap \<Rightarrow> (string \<Rightarrow> string \<Rightarrow> bool) \<Rightarrow> UnionServiceAccount \<Rightarrow> access \<Rightarrow> bool" where
  "access_allowed onprem m a q \<longleftrightarrow>
     (\<exists>h \<in> set (usaExternalAllowlist a). m (hostHost h) (accHost q) \<and> path_allowed m h q)
     \<or> (\<exists>s \<in> set (usaCloudSQL a). m (sqlIP s) (accSni q))
     \<or> (\<exists>h \<in> set (usaInternalAllowlist a). case onprem (hostHost h) of
          None \<Rightarrow> False
        | Some d \<Rightarrow>
            (if ToUpper (onpremProtocol d) = ''HTTPS''
             then (m (hostHost h) (accHost q) \<and> path_allowed m h q)
                  \<or> (\<exists>vip \<in> set (onpremVIP d). m vip (accHost q))
             else (\<exists>host \<in> set (hostHost h # onpremVIP d). m host (accSni q))))"

lemma ToUpper_protocols: "ToUpper httpsProtocol = ''HTTPS''" "ToUpper tcpProtocol = ''TCP''"
  by (simp_all add: protocol_defs upper_char_def)

lemma internal_requests_cases:
  assumes "(apd, parentHost, protocol, hostType) \<in> set (internal_requests r h)"
  shows "\<exists>d. irOnpremHosts r (hostHost h) = Some d \<and> protocol = onpremProtocol d
    \<and> (apd = host_data h \<or> (\<exists>vip \<in> set (onpremVIP d).
         apd = \<lparr>apdHostName = vip, apdHost = vip, apdPaths = []\<rparr>))"
proof (cases "irOnpremHosts r (hostHost h)")
  case (Some d)
  with assms show ?thesis by (intro exI [of _ d]) (auto simp: internal_requests_def)
qed (use assms in \<open>simp add: internal_requests_def\<close>)

lemma policy_within_allowlist:
  assumes req: "(apd, parentHost, protocol, hostType) \<in> set (policy_requests r sa)"
    and ap: "newAuthorizationPolicy sa apd parent protocol hostType = Ok ap"
    and allows: "policy_allows m ap q"
  shows "m (sa_principal sa) (accPrincipal q)
    \<and> access_allowed (irOnpremHosts r) m (saUnionServiceAccount sa) q"
proof -
  from ap have proto: "ToUpper protocol = ''HTTPS'' \<or> ToUpper protocol = ''TCP''"
    by (auto simp: newAuthorizationPolicy_def protocol_defs Let_def split: if_splits)
  from ap allows have grant: "m (sa_principal sa) (accPrincipal q)"
    "if ToUpper protocol = ''HTTPS'' then m (apdHost apd) (accHost q)
       \<and> (apdPaths apd = [] \<or> (\<exists>p \<in> set (apdPaths apd). m p (accPath q)))
     else m (apdHost apd) (accSni q)"
    by (auto simp: newAuthorizationPolicy_def protocol_defs policy_defs Let_def split: if_splits)
  from req grant(2) have "access_allowed (irOnpremHosts r) m (saUnionServiceAccount sa) q"
    unfolding policy_requests_def set_append Un_iff
  proof (elim disjE)
    assume "(apd, parentHost, protocol, hostType) \<in> set (concat (map (internal_requests r)
        (usaInternalAllowlist (saUnionServiceAccount sa))))"
    then obtain h where "h \<in> set (usaInternalAllowlist (saUnionServiceAccount sa))"
      and "(apd, parentHost, protocol, hostType) \<in> set (internal_requests r h)"
      by auto
    with internal_requests_cases obtain d where h: "h \<in> set (usaInternalAllowlist (saUnionServiceAccount sa))"
        "irOnpremHosts r (hostHost h) = Some d" "protocol = onpremProtocol d"
      and apd: "apd = host_data h \<or> (\<exists>vip \<in> set (onpremVIP d).
          apd = \<lparr>apdHostName = vip, apdHost = vip, apdPaths = []\<rparr>)"
      by metis
    from apd grant(2) show ?thesis
      unfolding access_allowed_def
      by (intro disjI2 bexI [OF _ h(1)])
        (auto simp: h(2) h(3) [symmetric] host_data_def path_allowed_def split: if_splits)
  qed (auto simp: access_allowed_def ToUpper_protocols host_data_def path_allowed_def)
  with grant(1) show ?thesis by simp
qed

fun policy_event :: "OnpremHostMap \<Rightarrow> ServiceAccount list \<Rightarrow> event \<Rightarrow> bool" where
  "policy_event onprem sas (EList k lo r) \<longleftrightarrow>
     k = AuthorizationPolicyKind \<and> loNamespace lo = Some EgressNamespace"
| "policy_event onprem sas (ECreate ob r) \<longleftrightarrow>
     (\<exists>sa \<in> set sas. \<exists>ap. ob = AuthorizationPolicyObj ap \<and> apAction ap = ALLOW
        \<and> namespace_of ob = EgressNamespace
        \<and> labels_of ob ''service-account'' = Some (saName sa)
        \<and> (\<forall>m q. policy_allows m ap q \<longrightarrow> m (sa_principal sa) (accPrincipal q)
             \<and> access_allowed onprem m (saUnionServiceAccount sa) q))"
| "policy_event onprem sas _ \<longleftrightarrow> False"

lemma newAuthorizationPolicy_labels:
  assumes "newAuthorizationPolicy sa apd parent protocol hostType = Ok ap"
  shows "namespace_of (AuthorizationPolicyObj ap) = EgressNamespace"
    and "name_of (AuthorizationPolicyObj ap) = authPolicyData_Name apd sa"
    and "lo_matches (egress_opts (policy_labels sa apd parent)) (AuthorizationPolicyObj ap)"
    and "labels_of (AuthorizationPolicyObj ap) ''service-account'' = Some (saName sa)"
    and "apAction ap = ALLOW"
  using assms
  by (auto simp: newAuthorizationPolicy_def Let_def lo_matches_def egress_opts_def
      inEgressNamespace_def policy_labels_def managedByLabel_def split: if_splits)

lemma emits_ensure_request:
  assumes "sa \<in> set sas" and "req \<in> set (policy_requests r sa)"
  shows "emits (policy_event (irOnpremHosts r) sas) (ensure_request r sa req)"
proof -
  obtain apd parentHost protocol hostType where req: "req = (apd, parentHost, protocol, hostType)"
    by (cases req)
  have "policy_event (irOnpremHosts r) sas (ECreate (AuthorizationPolicyObj ap) reply)"
    if "newAuthorizationPolicy sa apd parent protocol hostType = Ok ap" for ap parent reply
    using assms policy_within_allowlist [OF _ that] newAuthorizationPolicy_labels [OF that]
    unfolding req policy_event.simps by blast
  then show ?thesis
    unfolding ensure_request_def req prod.case ensureAuthorizationPolicyForHost_def Let_def
    by (intro emits.safe_bind emits_List emits_check)
      (auto simp: egress_opts_def inEgressNamespace_def intro!: emits.safe_lift_bind emits.safe_bind
        emits_Create split: option.splits)
qed

text \<open>
  C8. Least privilege. Whatever the client answers, \<open>EnsureAuthorizationPolicies\<close> lists
  policies in the egress namespace and creates policies there, each with the action ALLOW
  and for one account: whatever a created policy admits comes from that account's principal and goes to a
  target of the account's own allowlists (an external host on an allowed path, a Cloud SQL
  address, an on-premises host the cluster knows or one of its virtual addresses). No
  policy is ever changed or deleted here. How patterns match is left open.
\<close>

theorem EnsureAuthorizationPolicies_least_privilege:
  "emits (policy_event (irOnpremHosts r) sas) (EnsureAuthorizationPolicies r sas)"
  unfolding EnsureAuthorizationPolicies_flat all_requests_def
  by (rule emits.safe_for_each) (auto intro: emits_ensure_request)

text \<open>After the call: a policy with the labels of the request, or one of its name.\<close>

definition policy_present :: "ServiceAccount \<Rightarrow> policy_request \<Rightarrow> contents \<Rightarrow> bool" where
  "policy_present sa req m \<longleftrightarrow> (case req of (apd, parentHost, protocol, hostType) \<Rightarrow>
     labelled m AuthorizationPolicyKind
       (policy_labels sa apd (case parentHost of None \<Rightarrow> apdHostName apd | Some p \<Rightarrow> p))
     \<or> m (AuthorizationPolicyKind, (EgressNamespace, authPolicyData_Name apd sa)) \<noteq> None)"

lemma grows_policy_present:
  assumes "egress_grows m m'" and "policy_present sa req m"
  shows "policy_present sa req m'"
  using assms(2) grows_labelled [OF assms(1), of AuthorizationPolicyKind] grows_present [OF assms(1)]
  by (auto simp: policy_present_def split: prod.splits)

context kube_api
begin

lemma grow_ensure_request:
  assumes "irClient r = c"
  shows "safe (on_store store egress_grows) (ensure_request r sa req)"
  unfolding ensure_request_def ensureAuthorizationPolicyForHost_def Let_def assms
  by (auto intro!: grow.safe_bind safe_List grow_Create split: prod.splits option.splits)

lemma ensure_request_post:
  assumes r: "irClient r = c" and run: "ensure_request r sa req w = (Ok x, w')"
  shows "policy_present sa req (store (ext w'))"
proof -
  obtain apd parentHost protocol hostType where req: "req = (apd, parentHost, protocol, hostType)"
    by (cases req)
  let ?parent = "case parentHost of None \<Rightarrow> apdHostName apd | Some p \<Rightarrow> p"
  let ?labels = "policy_labels sa apd ?parent"
  from run obtain items w1 where
      list: "k8s_List c AuthorizationPolicyKind (egress_opts ?labels) w = (Ok (Inr items), w1)"
    and rest: "(if length items < 1 then
            go_bind (go_lift (newAuthorizationPolicy sa apd ?parent protocol hostType))
              (\<lambda>ap. go_bind (k8s_Create c (AuthorizationPolicyObj ap))
                (\<lambda>err. case err of
                   None \<Rightarrow> go_return ()
                 | Some e \<Rightarrow> if IsAlreadyExists e then go_return () else go_err (ApiError e)))
          else go_return ()) w1 = (Ok x, w')"
    unfolding ensure_request_def req prod.case ensureAuthorizationPolicyForHost_def Let_def r
    by (elim go_bind_OkE) auto
  show ?thesis
  proof (cases items)
    case (Cons ob obs)
    from list Cons have "store (ext w1) (ref_of ob) = Some ob \<and> kind_of ob = AuthorizationPolicyKind
        \<and> lo_matches (egress_opts ?labels) ob"
      by (auto elim: List_OkD)
    moreover have "w' = w1" using rest Cons by simp
    ultimately have "labelled (store (ext w')) AuthorizationPolicyKind ?labels"
      unfolding labelled_def by blast
    then show ?thesis by (simp add: policy_present_def req)
  next
    case Nil
    with rest obtain ap err where ap: "newAuthorizationPolicy sa apd ?parent protocol hostType = Ok ap"
      and create: "k8s_Create c (AuthorizationPolicyObj ap) w1 = (Ok err, w')"
      and err: "err = None \<or> (\<exists>e. err = Some e \<and> IsAlreadyExists e)"
      by (auto elim!: go_bind_OkE split: option.splits if_splits)
    have ref: "ref_of (AuthorizationPolicyObj ap)
        = (AuthorizationPolicyKind, (EgressNamespace, authPolicyData_Name apd sa))"
      using newAuthorizationPolicy_labels [OF ap] by (simp add: ref_of_def)
    from err have "store (ext w') (ref_of (AuthorizationPolicyObj ap)) \<noteq> None"
    proof
      assume "err = None"
      then show ?thesis by (rule created_present [OF Create_OkD(1) [OF create]])
    next
      assume "\<exists>e. err = Some e \<and> IsAlreadyExists e"
      with Create_OkD(2) [OF create] show ?thesis by auto
    qed
    with ref show ?thesis by (simp add: policy_present_def req)
  qed
qed

lemma EnsureAuthorizationPolicies_run:
  assumes r: "irClient r = c"
  shows "safe (on_store store egress_grows) (EnsureAuthorizationPolicies r sas)"
    and "ok_post (\<lambda>_. True) (EnsureAuthorizationPolicies r sas)
      (\<lambda>_ w. \<forall>x \<in> set (all_requests r sas). policy_present (fst x) (snd x) (store (ext w)))"
  unfolding EnsureAuthorizationPolicies_flat
  by (auto intro!: grow.safe_for_each grow_ensure_request r)
    (intro hosts_loop; auto intro: grow_ensure_request r grows_policy_present
      simp: ok_post_def dest: ensure_request_post [OF r])

end

context kube_fresh
begin

lemma existing_policy_kept:
  assumes r: "irClient r = c"
    and there: "labelled (store (ext w)) AuthorizationPolicyKind
      (policy_labels sa apd (case parentHost of None \<Rightarrow> apdHostName apd | Some p \<Rightarrow> p))"
  shows "store (ext (snd (ensureAuthorizationPolicyForHost r sa apd parentHost protocol hostType w)))
    = store (ext w)"
proof -
  let ?labels = "policy_labels sa apd (case parentHost of None \<Rightarrow> apdHostName apd | Some p \<Rightarrow> p)"
  let ?list = "k8s_List c AuthorizationPolicyKind (egress_opts ?labels)"
  from there obtain ref ob where ob: "store (ext w) ref = Some ob" "kind_of ob = AuthorizationPolicyKind"
    "lo_matches (egress_opts ?labels) ob" by (auto simp: labelled_def)
  obtain reply w1 where list: "?list w = (Ok reply, w1)" and same: "store (ext w1) = store (ext w)"
    by (cases "?list w") (auto elim: List_OkD)
  show ?thesis
  proof (cases reply)
    case (Inl e)
    with list same r show ?thesis
      by (simp add: ensureAuthorizationPolicyForHost_def Let_def go_bind_def check_reply_def go_err_def)
  next
    case (Inr items)
    have "ob \<in> set items" using list [unfolded Inr] ob by (rule List_completeD)
    then have "items \<noteq> []" by auto
    with list same r Inr show ?thesis
      by (simp add: ensureAuthorizationPolicyForHost_def Let_def go_bind_def check_reply_def go_return_def)
  qed
qed

end

text \<open>
  C21. When \<open>EnsureAuthorizationPolicies\<close> returns without error, every policy the
  accounts ask for (one per external host, per Cloud SQL address, per known on-premises
  host and per virtual address of it) is in the cluster: a policy with the labels of the
  request, or the object that already had its name.
\<close>

theorem EnsureAuthorizationPolicies_complete:
  assumes "kube_api (irClient r) store"
    and "EnsureAuthorizationPolicies r sas w = (Ok (), w')"
  shows "\<forall>x \<in> set (all_requests r sas). policy_present (fst x) (snd x) (store (ext w'))"
  using kube_api.EnsureAuthorizationPolicies_run(2) [OF assms(1) refl] TrueI assms(2)
  by (rule ok_postD)

text \<open>
  C26. A policy is never brought up to date. The labels a policy is looked up by do not
  include the paths, so once an account has a policy for a host, a change of the allowed
  paths (or of the protocol of an on-premises host) leaves the cluster as it is.
\<close>

theorem policies_not_updated:
  assumes "kube_fresh (irClient r) store"
    and "labelled (store (ext w)) AuthorizationPolicyKind (policy_labels sa apd (apdHostName apd))"
  shows "store (ext (snd (ensureAuthorizationPolicyForHost r sa (apd\<lparr>apdPaths := paths\<rparr>) None
            protocol hostType w))) = store (ext w)"
  using assms kube_fresh.existing_policy_kept [OF assms(1) refl, where sa = sa and w = w
      and apd = "apd\<lparr>apdPaths := paths\<rparr>" and parentHost = None]
  by (simp add: policy_labels_def)

theorem EnsureAuthorizationPolicies_complete_witness:
  "\<exists>w'. EnsureAuthorizationPolicies example_istio [example_sa] (example_world []) = (Ok (), w')
    \<and> all_requests example_istio [example_sa] \<noteq> []
    \<and> (\<forall>x \<in> set (all_requests example_istio [example_sa]).
         policy_present (fst x) (snd x) (mem_store (ext w')))"
proof -
  let ?run = "EnsureAuthorizationPolicies example_istio [example_sa] (example_world [])"
  have "fst ?run = Ok ()"
    by (simp add: EnsureAuthorizationPolicies_def ensureAuthorizationPolicyForHost_def
        newAuthorizationPolicy_def protocol_defs upper_char_def Let_def
        example_istio_def example_sa_def example_world_def egress_opts_def inEgressNamespace_def
        mem_eval)
  then have run: "?run = (Ok (), snd ?run)" by (metis prod.collapse)
  have "all_requests example_istio [example_sa] \<noteq> []"
    by (simp add: all_requests_def policy_requests_def example_sa_def)
  with run EnsureAuthorizationPolicies_complete [OF example_istio_api run] show ?thesis by blast
qed

definition example_policy :: object where
  "example_policy = AuthorizationPolicyObj
     \<lparr>apMeta = new_meta ''proj-dev-sa-vg-no'' ''istio-egress''
        [''project'' \<mapsto> ''proj'', ''domain'' \<mapsto> ''dev'', ''service-account'' \<mapsto> ''sa'',
         ''host'' \<mapsto> ''vg.no'', ''parent-host'' \<mapsto> ''vg.no''],
      apAction = ALLOW, apRules = []\<rparr>"

theorem policies_not_updated_witness:
  "mem_store (ext (snd (ensureAuthorizationPolicyForHost example_istio example_sa
       \<lparr>apdHostName = ''vg.no'', apdHost = ''vg.no'', apdPaths = [''/new'']\<rparr> None ''HTTPS'' ''external''
       (example_world [example_policy]))))
     = mem_store (ext (example_world [example_policy]))"
proof -
  have "labelled (mem_store (ext (example_world [example_policy]))) AuthorizationPolicyKind
      (policy_labels example_sa \<lparr>apdHostName = ''vg.no'', apdHost = ''vg.no'', apdPaths = []\<rparr> ''vg.no'')"
    unfolding labelled_def mem_store_iff
    by (intro exI [of _ "ref_of example_policy"] exI [of _ example_policy])
      (simp add: example_policy_def example_world_def mem_objects_def removable_def lo_matches_def
        egress_opts_def inEgressNamespace_def EgressNamespace_def policy_labels_def example_sa_def
        example_env_def)
  then show ?thesis
    using policies_not_updated [OF example_istio_fresh, where paths = "[''/new'']"
        and sa = example_sa and protocol = "''HTTPS''" and hostType = "''external''"
        and apd = "\<lparr>apdHostName = ''vg.no'', apdHost = ''vg.no'', apdPaths = []\<rparr>"
        and w = "example_world [example_policy]"]
    by simp
qed

end
