(* ===== verification/IstioCleanup.thy ===== *)
theory IstioCleanup
  imports IstioReconciler
begin

text \<open>
  \<^verbatim>\<open>internal/istio/cleanup.go\<close>: deletion of the AuthorizationPolicies of accounts that are
  gone, of internal policies whose host left the allowlist, and of the resources of hosts
  nobody allows any more, together with the rewriting of the two gateways' host lists.

  The two loops over a gateway's servers change the server they look at and send the whole
  gateway in the middle of the iteration. \<^verbatim>\<open>Update\<close> decodes the server's answer into the
  gateway. Whether the decoder writes into the \<^verbatim>\<open>Server\<close> objects the loop ranges over or
  allocates new ones is not in this repository, so it is the parameter \<open>aliased\<close>: when it
  allocates, the objects still to be visited are no longer part of the gateway, and a
  change of their hosts is lost. It makes no difference for a gateway with one server,
  which is what the operator creates.
\<close>

section \<open>Policies of service accounts\<close>

text \<open>Deleting one policy of a list, an error other than NotFound being collected.\<close>

definition delete_policy ::
    "'s IstioReconciler \<Rightarrow> object \<Rightarrow> goerror list \<Rightarrow> ('s world, goerror list) go" where
  "delete_policy r ap errs =
     go_bind (k8s_Delete (irClient r) ap)
       (\<lambda>err. go_return (case err of
          None \<Rightarrow> errs
        | Some e \<Rightarrow> if IsNotFound e then errs else errs @ [ApiError e]))"

definition CleanupUTSAServiceAccountAuthzPolicies ::
    "'s IstioReconciler \<Rightarrow> UnionTeamServiceAccounts \<Rightarrow> ('s world, unit) go" where
  "CleanupUTSAServiceAccountAuthzPolicies r utsa =
     go_bind
       (fold_go (\<lambda>sa errs.
          go_bind (go_bind (k8s_List (irClient r) AuthorizationPolicyKind
              (egress_opts [(''project'', specProject (utsaSpec utsa)),
                 (''domain'', specDomain (utsaSpec utsa)), (''service-account'', usaName sa)]))
              check_reply)
            (\<lambda>items. fold_go (delete_policy r) items errs))
          (specServiceAccounts (utsaSpec utsa)) [])
       errors_Join"

definition CleanupAllResources :: "'s IstioReconciler \<Rightarrow> UnionTeamServiceAccounts \<Rightarrow> ('s world, unit) go"
  where "CleanupAllResources r utsa = CleanupUTSAServiceAccountAuthzPolicies r utsa"

definition CleanupRemovedServiceAccountAuthzPolicies ::
    "'s IstioReconciler \<Rightarrow> UnionTeamServiceAccounts \<Rightarrow> ('s world, unit) go" where
  "CleanupRemovedServiceAccountAuthzPolicies r utsa =
     (let currentSAs = map usaName (specServiceAccounts (utsaSpec utsa)) in
      go_bind (go_bind (k8s_List (irClient r) AuthorizationPolicyKind
          (egress_opts [(''project'', specProject (utsaSpec utsa)),
             (''domain'', specDomain (utsaSpec utsa))])) check_reply)
        (\<lambda>items. go_bind
          (fold_go (\<lambda>ap errs.
             let name = map_get (labels_of ap) ''service-account'' in
             if name = [] then go_return errs
             else if name \<in> set currentSAs then go_return errs
             else delete_policy r ap errs) items [])
          errors_Join))"

section \<open>Internal hosts\<close>

primrec containsHost :: "object \<Rightarrow> Host list \<Rightarrow> bool" where
  "containsHost existing [] = False"
| "containsHost existing (host # internalAllowlist) =
     (if map_get (labels_of existing) ''parent-host'' = hostHost host then True
      else containsHost existing internalAllowlist)"

definition internal_labels :: "UnionTeamServiceAccounts \<Rightarrow> UnionServiceAccount \<Rightarrow> (string \<times> string) list"
  where "internal_labels utsa sa =
     [(''project'', specProject (utsaSpec utsa)), (''domain'', specDomain (utsaSpec utsa)),
      (''service-account'', usaName sa), (''host-type'', hostTypeLabelInternal)]"

definition cleanupInternalHosts ::
    "'s IstioReconciler \<Rightarrow> UnionTeamServiceAccounts list \<Rightarrow> ('s world, unit) go" where
  "cleanupInternalHosts r utsas =
     for_each (\<lambda>utsa. for_each (\<lambda>sa.
       go_bind (go_bind (k8s_List (irClient r) AuthorizationPolicyKind
           (egress_opts (internal_labels utsa sa))) check_reply)
         (for_each (\<lambda>host.
            if \<not> containsHost host (usaInternalAllowlist sa)
            then go_bind (k8s_Delete (irClient r) host) check_error else go_return ())))
       (specServiceAccounts (utsaSpec utsa))) utsas"

section \<open>Resources of a host\<close>

definition removeByHostLabel :: "'s IstioReconciler \<Rightarrow> string \<Rightarrow> kind \<Rightarrow> ('s world, unit) go" where
  "removeByHostLabel r host k =
     go_bind (go_bind (k8s_List (irClient r) k (egress_opts (matchingHostLabel host))) check_reply)
       (\<lambda>items. go_bind
          (fold_go (\<lambda>ob errs. go_bind (k8s_Delete (irClient r) ob)
             (\<lambda>err. go_return (case err of None \<Rightarrow> errs | Some e \<Rightarrow> errs @ [ApiError e]))) items [])
          errors_Join)"

definition removeExternalHost :: "'s IstioReconciler \<Rightarrow> string \<Rightarrow> ('s world, unit) go" where
  "removeExternalHost r host =
     go_bind
       (fold_go (\<lambda>k errs. go_bind (go_try (removeByHostLabel r host k))
          (\<lambda>res. go_return (case res of Inl e \<Rightarrow> errs @ [e] | Inr _ \<Rightarrow> errs)))
          [ServiceEntryKind, VirtualServiceKind, DestinationRuleKind, AuthorizationPolicyKind] [])
       errors_Join"

definition remove_unused :: "'s IstioReconciler \<Rightarrow> string list \<Rightarrow> string list \<Rightarrow> ('s world, unit) go" where
  "remove_unused r inUse hosts =
     for_each (\<lambda>host. if host \<notin> set inUse then removeExternalHost r host else go_return ()) hosts"

section \<open>The gateways\<close>

text \<open>
  \<^verbatim>\<open>slices.Sort(slices.Collect(maps.Keys(m)))\<close>: the map is given by the list of the keys
  set in it.
\<close>

definition sorted_keys :: "string list \<Rightarrow> string list" where
  "sorted_keys keys = sort (remdups keys)"

text \<open>
  The state of the loop over \<^verbatim>\<open>gateway.Spec.Servers\<close>: the servers it ranges over, the
  gateway, and whether the former are still the gateway's own.
\<close>

definition set_hosts :: "string list \<Rightarrow> Server list \<Rightarrow> nat \<Rightarrow> Server list" where
  "set_hosts hosts servers i =
     (if i < length servers then servers[i := (servers ! i)\<lparr>srvHosts := hosts\<rparr>] else servers)"

definition write_hosts :: "bool \<Rightarrow> string list \<Rightarrow> nat \<Rightarrow> Gateway \<Rightarrow> Gateway" where
  "write_hosts attached hosts i gateway =
     (if attached then gateway\<lparr>gwServers := set_hosts hosts (gwServers gateway) i\<rparr> else gateway)"

definition decoded :: "bool \<Rightarrow> Server list \<Rightarrow> Gateway \<Rightarrow> Server list" where
  "decoded aliased servers answer =
     (if aliased then take (length servers) (gwServers answer) @ drop (length (gwServers answer)) servers
      else servers)"

primrec external_servers ::
    "bool \<Rightarrow> 's IstioReconciler \<Rightarrow> string list \<Rightarrow> nat list \<Rightarrow> bool \<Rightarrow> Server list \<Rightarrow> Gateway
       \<Rightarrow> ('s world, unit) go" where
  "external_servers aliased r inUse [] attached servers gateway = go_return ()"
| "external_servers aliased r inUse (i # is) attached servers gateway =
     (case srvPort (servers ! i) of
        None \<Rightarrow> go_panic
      | Some port \<Rightarrow>
          (if portProtocol port = httpsProtocol then
             go_seq (remove_unused r inUse (srvHosts (servers ! i)))
               (let hosts = sorted_keys inUse;
                    gateway' = write_hosts attached hosts i gateway in
                if length hosts = 0
                then go_bind (k8s_Delete (irClient r) (GatewayObj gateway')) check_error
                else go_bind (k8s_Update (irClient r) (GatewayObj gateway'))
                  (\<lambda>reply. case reply of
                     Inl e \<Rightarrow> go_err (ApiError e)
                   | Inr answer \<Rightarrow>
                       external_servers aliased r inUse is aliased
                         (decoded aliased (set_hosts hosts servers i) (as_Gateway answer))
                         (as_Gateway answer)))
           else external_servers aliased r inUse is attached servers gateway))"

definition external_hosts_in_use :: "UnionTeamServiceAccounts list \<Rightarrow> string list" where
  "external_hosts_in_use utsas =
     concat (map (\<lambda>utsa. concat (map (\<lambda>sa. map hostHost (usaExternalAllowlist sa))
       (specServiceAccounts (utsaSpec utsa)))) utsas)"

definition cleanupExternalHosts ::
    "bool \<Rightarrow> 's IstioReconciler \<Rightarrow> UnionTeamServiceAccounts list \<Rightarrow> ('s world, unit) go" where
  "cleanupExternalHosts aliased r utsas =
     go_bind (k8s_Get (irClient r) GatewayKind (EgressNamespace, externalGatewayName))
       (\<lambda>reply. case reply of
          Inl e \<Rightarrow> (if IsNotFound e then go_return () else go_err (ApiError e))
        | Inr ob \<Rightarrow>
            (let gateway = as_Gateway ob in
             external_servers aliased r (external_hosts_in_use utsas) [0..<length (gwServers gateway)]
               True (gwServers gateway) gateway))"

primrec cloudsql_servers ::
    "bool \<Rightarrow> 's IstioReconciler \<Rightarrow> string list \<Rightarrow> nat list \<Rightarrow> bool \<Rightarrow> Server list \<Rightarrow> Gateway
       \<Rightarrow> ('s world, unit) go" where
  "cloudsql_servers aliased r inUse [] attached servers gateway = go_return ()"
| "cloudsql_servers aliased r inUse (i # is) attached servers gateway =
     (case srvPort (servers ! i) of
        None \<Rightarrow> go_panic
      | Some port \<Rightarrow>
          go_seq (if portProtocol port = tlsProtocol
                  then remove_unused r inUse (srvHosts (servers ! i)) else go_return ())
            (let hosts = sorted_keys inUse;
                 gateway' = write_hosts attached hosts i gateway in
             go_bind (k8s_Update (irClient r) (GatewayObj gateway'))
               (\<lambda>reply. case reply of
                  Inl e \<Rightarrow> go_err (ApiError e)
                | Inr answer \<Rightarrow>
                    cloudsql_servers aliased r inUse is aliased
                      (decoded aliased (set_hosts hosts servers i) (as_Gateway answer))
                      (as_Gateway answer))))"

definition cloudsql_hosts_in_use :: "UnionTeamServiceAccounts list \<Rightarrow> string list" where
  "cloudsql_hosts_in_use utsas =
     ''*'' # concat (map (\<lambda>utsa. concat (map (\<lambda>sa. map CloudSQL_Host (usaCloudSQL sa))
       (specServiceAccounts (utsaSpec utsa)))) utsas)"

definition cleanupCloudSQLHosts ::
    "bool \<Rightarrow> 's IstioReconciler \<Rightarrow> UnionTeamServiceAccounts list \<Rightarrow> ('s world, unit) go" where
  "cleanupCloudSQLHosts aliased r utsas =
     go_bind (k8s_Get (irClient r) GatewayKind (EgressNamespace, cloudSQLGatewayName))
       (\<lambda>reply. case reply of
          Inl e \<Rightarrow> (if IsNotFound e then go_return () else go_err (ApiError e))
        | Inr ob \<Rightarrow>
            (let gateway = as_Gateway ob in
             cloudsql_servers aliased r (cloudsql_hosts_in_use utsas) [0..<length (gwServers gateway)]
               True (gwServers gateway) gateway))"

definition CleanupUnusedHosts :: "bool \<Rightarrow> 's IstioReconciler \<Rightarrow> ('s world, unit) go" where
  "CleanupUnusedHosts aliased r =
     go_bind (go_bind (k8s_List (irClient r) UTSAKind \<lparr>loNamespace = None, loLabels = []\<rparr>) check_reply)
       (\<lambda>items. let utsas = map as_UTSA items in
          go_seq (cleanupInternalHosts r utsas)
            (go_seq (cleanupExternalHosts aliased r utsas) (cleanupCloudSQLHosts aliased r utsas)))"

section \<open>Programs that only delete\<close>

text \<open>Every object is as it was, gone, or marked for deletion.\<close>

definition deletes :: "contents \<Rightarrow> contents \<Rightarrow> bool" where
  "deletes m m' \<longleftrightarrow> (\<forall>ref. m' ref = m ref \<or> m' ref = None
     \<or> (\<exists>t ob. m ref = Some ob \<and> m' ref = Some (terminating t ob)))"

lemma deletes_refl [simp]: "deletes m m"
  by (simp add: deletes_def)

lemma terminating_terminating [simp]: "terminating t (terminating t' ob) = terminating t ob"
  by (simp add: terminating_def)

lemma deletes_trans: "deletes m m' \<Longrightarrow> deletes m' m'' \<Longrightarrow> deletes m m''"
  unfolding deletes_def by (metis option.distinct(1) option.inject terminating_terminating)

interpretation del: effect_order "on_store store deletes" for store
  by (rule effect_order_on_store) (simp, rule deletes_trans)

lemma deleted_deletes: "deleted ob m m' \<Longrightarrow> deletes m m'"
  by (auto simp: deleted_def deletes_def split: if_splits)

lemma deletes_gone: "deletes m m' \<Longrightarrow> gone m ref \<Longrightarrow> gone m' ref"
  unfolding deletes_def gone_def
  by (metis option.distinct(1) option.inject terminating_def meta_of_set_meta
      ObjectMeta.select_convs(9) ObjectMeta.update_convs(9) ObjectMeta.surjective)

lemma terminating_sel [simp]:
  "kind_of (terminating t ob) = kind_of ob"
  "labels_of (terminating t ob) = labels_of ob"
  "namespace_of (terminating t ob) = namespace_of ob"
  "lo_matches lo (terminating t ob) = lo_matches lo ob"
  by (simp_all add: terminating_def lo_matches_def cong: option.case_cong)

text \<open>An object of the initial contents is either still listed or gone.\<close>

lemma deletes_cases:
  assumes "deletes m0 m" and "m0 ref = Some ob"
  obtains (gone) "gone m ref"
    | (there) ob' where "m ref = Some ob'" "kind_of ob' = kind_of ob" "labels_of ob' = labels_of ob"
      "\<And>lo. lo_matches lo ob' = lo_matches lo ob"
proof -
  from assms consider "m ref = Some ob" | "m ref = None" | t where "m ref = Some (terminating t ob)"
    unfolding deletes_def by (metis option.inject)
  then show ?thesis
  proof cases
    case 1
    then show ?thesis by (rule there) simp_all
  next
    case 2
    then show ?thesis by (intro gone) (simp add: gone_def)
  next
    case 3
    then show ?thesis by (rule there) simp_all
  qed
qed

text \<open>
  What a program may delete is described by the contents it starts from: it stays within
  the set \<open>D\<close> as long as the contents agree with \<open>m0\<close> outside of \<open>D\<close>.
\<close>

definition off_from :: "contents \<Rightarrow> obj_ref set \<Rightarrow> contents \<Rightarrow> contents \<Rightarrow> bool" where
  "off_from m0 D m m' \<longleftrightarrow> (same_off D m0 m \<longrightarrow> same_off D m0 m')"

interpretation off: effect_order "on_store store (off_from m0 D)" for store m0 D
  by (rule effect_order_on_store) (simp_all add: off_from_def)

lemma off_from_refl [simp]: "off_from m0 D m m"
  by (simp add: off_from_def)

lemma same_off_off: "safe (on_store store (same_off D)) m \<Longrightarrow> safe (on_store store (off_from m0 D)) m"
  by (erule safe_mono) (simp add: on_store_def off_from_def same_off_def)

context kube_api
begin

lemma del_Delete [intro]: "safe (on_store store deletes) (k8s_Delete c ob)"
  by (rule safe_Delete) (auto intro: deleted_deletes)

lemma del_List [intro]: "safe (on_store store deletes) (k8s_List c k lo)"
  by (rule safe_List) simp

lemma del_check [simp]: "safe (on_store store deletes) (check_reply r)"
  "safe (on_store store deletes) (check_error u)"
  by simp_all

lemma frame_Delete: "ref_of ob \<in> D \<Longrightarrow> safe (on_store store (same_off D)) (k8s_Delete c ob)"
  by (rule safe_Delete) (auto intro: deleted_same_off)

lemma safe_List_off:
  assumes listed: "\<And>ref ob. m0 ref = Some ob \<Longrightarrow> kind_of ob = k \<Longrightarrow> lo_matches lo ob \<Longrightarrow> P ob
      \<Longrightarrow> ref \<in> D"
    and body: "\<And>obs. (\<And>ob. ob \<in> set obs \<Longrightarrow> P ob \<Longrightarrow> ref_of ob \<in> D)
      \<Longrightarrow> safe (on_store store (same_off D)) (f obs)"
  shows "safe (on_store store (off_from m0 D)) (go_bind (go_bind (k8s_List c k lo) check_reply) f)"
proof (rule safeI)
  fix w
  let ?list = "go_bind (k8s_List c k lo) check_reply"
  obtain res w1 where res: "?list w = (res, w1)" by (cases "?list w")
  have same: "store (ext w1) = store (ext w)"
    using safe_List [of "(\<lambda>m m'. m' = m)" k lo] res
    by (auto simp: safe_def on_store_def go_bind_def check_reply_def go_return_def go_err_def
        split: prod.splits res.splits sum.splits) (metis snd_conv)+
  show "on_store store (off_from m0 D) w (snd (go_bind ?list f w))"
  proof (cases res)
    case (Ok obs)
    from res Ok have obs: "store (ext w) (ref_of ob) = Some ob" "kind_of ob = k" "lo_matches lo ob"
      if "ob \<in> set obs" for ob
      using that by (auto elim!: go_bind_OkE elim: List_OkD)
    have "same_off D m0 (store (ext (snd (f obs w1))))" if off: "same_off D m0 (store (ext w))"
    proof -
      have "ref_of ob \<in> D" if "ob \<in> set obs" "P ob" for ob
      proof (rule ccontr)
        assume "ref_of ob \<notin> D"
        with off obs(1) [OF that(1)] have "m0 (ref_of ob) = Some ob"
          unfolding same_off_def by metis
        with listed obs(2,3) [OF that(1)] that(2) \<open>ref_of ob \<notin> D\<close> show False by blast
      qed
      then have "safe (on_store store (same_off D)) (f obs)" by (rule body)
      then have "same_off D (store (ext w1)) (store (ext (snd (f obs w1))))"
        by (simp add: safe_def on_store_def)
      with off same show ?thesis by (simp add: same_off_def)
    qed
    with res Ok show ?thesis by (simp add: on_store_def off_from_def go_bind_def)
  qed (use res same in \<open>simp_all add: on_store_def go_bind_def\<close>)
qed

end

context kube_fresh
begin

text \<open>
  The other direction: a program that lists and then deletes what it listed, and returns
  with nothing collected, leaves nothing of what was there.
\<close>

lemma list_fold_gone:
  assumes run: "go_bind (go_bind (k8s_List c k lo) check_reply) (\<lambda>items. fold_go f items errs) w
      = (Ok errs', w')"
    and start: "deletes m0 (store (ext w))"
    and body: "\<And>ob errs w errs' w'. f ob errs w = (Ok errs', w')
      \<Longrightarrow> \<exists>es. errs' = errs @ es \<and> (es = [] \<longrightarrow> P ob \<longrightarrow> gone (store (ext w')) (ref_of ob))"
    and step: "\<And>ob errs. safe (on_store store deletes) (f ob errs)"
    and same: "\<And>ob ob'. labels_of ob' = labels_of ob \<Longrightarrow> P ob' = P ob"
  shows "\<exists>es. errs' = errs @ es \<and> (es = [] \<longrightarrow> (\<forall>ref ob. m0 ref = Some ob \<longrightarrow> kind_of ob = k
    \<longrightarrow> lo_matches lo ob \<longrightarrow> P ob \<longrightarrow> gone (store (ext w')) ref))"
proof -
  from run obtain items w1 where list: "k8s_List c k lo w = (Ok (Inr items), w1)"
    and loop: "fold_go f items errs w1 = (Ok errs', w')"
    by (auto elim!: go_bind_OkE)
  have "\<exists>es. errs' = errs @ es \<and> (es = [] \<longrightarrow>
      (\<forall>ob \<in> set items. P ob \<longrightarrow> gone (store (ext w')) (ref_of ob)))"
  proof (rule fold_go_collect [where R = "on_store store deletes" and f = f])
    show "effect_order (on_store store deletes)" by (rule del.effect_order_axioms)
    show "P ob \<longrightarrow> gone (store (ext w3)) (ref_of ob)"
      if "P ob \<longrightarrow> gone (store (ext w2)) (ref_of ob)" "on_store store deletes w2 w3" for ob w2 w3
      using that deletes_gone unfolding on_store_def by blast
  qed (rule body step loop | assumption)+
  then obtain es where es: "errs' = errs @ es" and
      all: "es = [] \<Longrightarrow> ob \<in> set items \<Longrightarrow> P ob \<Longrightarrow> gone (store (ext w')) (ref_of ob)" for ob
    by blast
  have "gone (store (ext w')) ref"
    if "es = []" "m0 ref = Some ob" "kind_of ob = k" "lo_matches lo ob" "P ob" for ref ob
    using start that(2)
  proof (cases rule: deletes_cases)
    case gone
    have "safe (on_store store deletes) (go_bind (go_bind (k8s_List c k lo) check_reply)
        (\<lambda>items. fold_go f items errs))"
      by (intro del.safe_bind del.safe_fold_go step del_List del_check)
    from safeD [OF this run] gone show ?thesis unfolding on_store_def by (rule deletes_gone)
  next
    case (there ob')
    with that list have "ob' \<in> set items" by (auto intro: List_completeD)
    moreover have "ref_of ob' = ref" using there(1) by (rule store_ref)
    ultimately show ?thesis using all [OF that(1)] same [OF there(3)] that(5) by auto
  qed
  with es show ?thesis by blast
qed

end

section \<open>Policies of service accounts: exactly the right ones go\<close>

text \<open>
  The policies of an environment, by what their \<^verbatim>\<open>service-account\<close> label says.
\<close>

definition env_policies :: "contents \<Rightarrow> UnionTeamServiceAccounts \<Rightarrow> (string \<Rightarrow> bool) \<Rightarrow> obj_ref set" where
  "env_policies m utsa P = {ref. \<exists>ob name. m ref = Some ob \<and> kind_of ob = AuthorizationPolicyKind
     \<and> namespace_of ob = EgressNamespace
     \<and> labels_of ob ''project'' = Some (specProject (utsaSpec utsa))
     \<and> labels_of ob ''domain'' = Some (specDomain (utsaSpec utsa))
     \<and> labels_of ob ''service-account'' = Some name \<and> P name}"

definition listed_accounts :: "UnionTeamServiceAccounts \<Rightarrow> string set" where
  "listed_accounts utsa = usaName ` set (specServiceAccounts (utsaSpec utsa))"

lemma egress_matches:
  "lo_matches (egress_opts labels) ob \<longleftrightarrow> namespace_of ob = EgressNamespace
     \<and> list_all (\<lambda>(k, v). labels_of ob k = Some v) labels"
  by (simp add: lo_matches_def egress_opts_def inEgressNamespace_def)

context kube_api
begin

lemma delete_policy_effects:
  assumes r: "irClient r = c"
  shows "safe (on_store store deletes) (delete_policy r ob errs)"
    and "ref_of ob \<in> D \<Longrightarrow> safe (on_store store (same_off D)) (delete_policy r ob errs)"
  unfolding delete_policy_def r
  by (auto intro!: del.safe_bind frame.safe_bind frame_Delete)

lemma delete_policy_gone:
  assumes r: "irClient r = c" and run: "delete_policy r ob errs w = (Ok errs', w')"
  shows "\<exists>es. errs' = errs @ es \<and> (es = [] \<longrightarrow> gone (store (ext w')) (ref_of ob))"
proof -
  from run obtain err where del: "k8s_Delete c ob w = (Ok err, w')"
    and "errs' = (case err of None \<Rightarrow> errs | Some e \<Rightarrow> if IsNotFound e then errs else errs @ [ApiError e])"
    unfolding delete_policy_def r by (auto elim!: go_bind_OkE)
  then show ?thesis using Delete_gone [OF del] by (auto split: option.splits if_splits)
qed

lemma frame_CleanupRemovedPolicies:
  assumes r: "irClient r = c"
  shows "safe (on_store store (off_from m0 (env_policies m0 utsa
      (\<lambda>n. n \<noteq> [] \<and> n \<notin> listed_accounts utsa)))) (CleanupRemovedServiceAccountAuthzPolicies r utsa)"
  unfolding CleanupRemovedServiceAccountAuthzPolicies_def Let_def r
proof (rule safe_List_off [where P = "\<lambda>ap. map_get (labels_of ap) ''service-account'' \<noteq> []
    \<and> map_get (labels_of ap) ''service-account'' \<notin> listed_accounts utsa"], goal_cases)
  case (1 ref ob)
  then show ?case
    by (auto simp: env_policies_def egress_matches map_get_def split: option.splits)
next
  case (2 obs)
  then show ?case
    by (auto intro!: frame.safe_bind frame.safe_fold_go delete_policy_effects(2) r
        simp: listed_accounts_def)
qed

lemma frame_CleanupUTSAPolicies:
  assumes r: "irClient r = c"
  shows "safe (on_store store (off_from m0 (env_policies m0 utsa (\<lambda>n. n \<in> listed_accounts utsa))))
    (CleanupUTSAServiceAccountAuthzPolicies r utsa)"
  unfolding CleanupUTSAServiceAccountAuthzPolicies_def r
proof (rule off.safe_bind, rule off.safe_fold_go)
  fix sa errs
  assume sa: "sa \<in> set (specServiceAccounts (utsaSpec utsa))"
  show "safe (on_store store (off_from m0 (env_policies m0 utsa (\<lambda>n. n \<in> listed_accounts utsa))))
     (go_bind (go_bind (k8s_List c AuthorizationPolicyKind
        (egress_opts [(''project'', specProject (utsaSpec utsa)),
           (''domain'', specDomain (utsaSpec utsa)), (''service-account'', usaName sa)])) check_reply)
      (\<lambda>items. fold_go (delete_policy r) items errs))"
  proof (rule safe_List_off [where P = "\<lambda>_. True"], goal_cases)
    case (1 ref ob)
    with sa show ?case by (auto simp: env_policies_def egress_matches listed_accounts_def)
  next
    case (2 obs)
    then show ?case by (auto intro!: frame.safe_fold_go delete_policy_effects(2) r)
  qed
qed simp

end

context kube_fresh
begin

lemma CleanupRemovedPolicies_gone:
  assumes r: "irClient r = c" and run: "CleanupRemovedServiceAccountAuthzPolicies r utsa w = (Ok v, w')"
    and ref: "ref \<in> env_policies (store (ext w)) utsa (\<lambda>n. n \<noteq> [] \<and> n \<notin> listed_accounts utsa)"
  shows "gone (store (ext w')) ref"
proof -
  let ?P = "\<lambda>ap. map_get (labels_of ap) ''service-account'' \<noteq> []
    \<and> map_get (labels_of ap) ''service-account'' \<notin> listed_accounts utsa"
  let ?lo = "egress_opts [(''project'', specProject (utsaSpec utsa)), (''domain'', specDomain (utsaSpec utsa))]"
  let ?f = "\<lambda>ap errs. let name = map_get (labels_of ap) ''service-account'' in
     if name = [] then go_return errs
     else if name \<in> set (map usaName (specServiceAccounts (utsaSpec utsa))) then go_return errs
     else delete_policy r ap errs"
  from run have "go_bind (go_bind (go_bind (k8s_List c AuthorizationPolicyKind ?lo) check_reply)
      (\<lambda>items. fold_go ?f items [])) errors_Join w = (Ok v, w')"
    unfolding CleanupRemovedServiceAccountAuthzPolicies_def r Let_def go_bind_assoc .
  then have loop: "go_bind (go_bind (k8s_List c AuthorizationPolicyKind ?lo) check_reply)
      (\<lambda>items. fold_go ?f items []) w = (Ok [], w')"
    by (elim go_bind_OkE [of _ errors_Join]) simp
  have "\<exists>es :: goerror list. [] = [] @ es \<and> (es = [] \<longrightarrow> (\<forall>ref ob. store (ext w) ref = Some ob \<longrightarrow>
     kind_of ob = AuthorizationPolicyKind \<longrightarrow> lo_matches ?lo ob \<longrightarrow> ?P ob \<longrightarrow> gone (store (ext w')) ref))"
  proof (rule list_fold_gone [where f = ?f and errs' = "[]" and errs = "[]", OF loop])
    show "safe (on_store store deletes) (?f ob errs)" for ob errs
      by (auto simp: Let_def intro: delete_policy_effects(1) r)
    show "\<exists>es. errs' = errs @ es \<and> (es = [] \<longrightarrow> ?P ob \<longrightarrow> gone (store (ext w2)) (ref_of ob))"
      if "?f ob errs w1 = (Ok errs', w2)" for ob errs w1 errs' w2
      using that delete_policy_gone [OF r]
      by (auto simp: Let_def listed_accounts_def split: if_splits)
  qed simp_all
  then have all: "gone (store (ext w')) ref" if "store (ext w) ref = Some ob"
      "kind_of ob = AuthorizationPolicyKind" "lo_matches ?lo ob" "?P ob" for ref ob
    using that by blast
  from ref obtain ob name where "store (ext w) ref = Some ob" "kind_of ob = AuthorizationPolicyKind"
    "lo_matches ?lo ob" "labels_of ob ''service-account'' = Some name" "name \<noteq> []"
    "name \<notin> listed_accounts utsa"
    by (auto simp: env_policies_def egress_matches)
  then show ?thesis by (intro all [of ref ob]) (simp_all add: map_get_def)
qed

end

text \<open>
  C15. \<open>CleanupRemovedServiceAccountAuthzPolicies\<close> deletes the policies of the
  environment whose \<^verbatim>\<open>service-account\<close> label names an account that is not in the
  specification, and nothing else: whatever the outcome, every other object of the cluster
  stays as it is, and when no error is returned all those policies are gone.
\<close>

theorem CleanupRemovedServiceAccountAuthzPolicies_exact:
  assumes "kube_fresh (irClient r) store"
    and "D = env_policies (store (ext w)) utsa (\<lambda>n. n \<noteq> [] \<and> n \<notin> listed_accounts utsa)"
  shows "case CleanupRemovedServiceAccountAuthzPolicies r utsa w of (res, w') \<Rightarrow>
     same_off D (store (ext w)) (store (ext w'))
     \<and> (res = Ok () \<longrightarrow> (\<forall>ref \<in> D. gone (store (ext w')) ref))"
proof -
  note api = kube_fresh.axioms(1) [OF assms(1)]
  obtain res w' where run: "CleanupRemovedServiceAccountAuthzPolicies r utsa w = (res, w')"
    by (cases "CleanupRemovedServiceAccountAuthzPolicies r utsa w")
  from safeD [OF kube_api.frame_CleanupRemovedPolicies [OF api refl] run, of "store (ext w)"]
  have "same_off D (store (ext w)) (store (ext w'))"
    by (simp add: on_store_def off_from_def assms(2))
  moreover have "gone (store (ext w')) ref" if "res = Ok ()" "ref \<in> D" for ref
    using kube_fresh.CleanupRemovedPolicies_gone [OF assms(1) refl] run that assms(2) by blast
  ultimately show ?thesis using run by simp
qed

context kube_fresh
begin

lemma CleanupUTSAPolicies_gone:
  assumes r: "irClient r = c" and run: "CleanupUTSAServiceAccountAuthzPolicies r utsa w = (Ok v, w')"
    and ref: "ref \<in> env_policies (store (ext w)) utsa (\<lambda>n. n \<in> listed_accounts utsa)"
  shows "gone (store (ext w')) ref"
proof -
  let ?m0 = "store (ext w)"
  let ?lo = "\<lambda>sa. egress_opts [(''project'', specProject (utsaSpec utsa)),
    (''domain'', specDomain (utsaSpec utsa)), (''service-account'', usaName sa)]"
  let ?f = "\<lambda>sa errs. go_bind (go_bind (k8s_List c AuthorizationPolicyKind (?lo sa)) check_reply)
    (\<lambda>items. fold_go (delete_policy r) items errs)"
  let ?Q = "\<lambda>sa w. \<forall>ref ob. ?m0 ref = Some ob \<longrightarrow> kind_of ob = AuthorizationPolicyKind
    \<longrightarrow> lo_matches (?lo sa) ob \<longrightarrow> gone (store (ext w)) ref"
  from run have loop: "fold_go ?f (specServiceAccounts (utsaSpec utsa)) [] w = (Ok [], w')"
    unfolding CleanupUTSAServiceAccountAuthzPolicies_def r by (elim go_bind_OkE [of _ errors_Join]) simp
  have "\<exists>es :: goerror list. [] = [] @ es \<and> (es = [] \<longrightarrow> (\<forall>sa \<in> set (specServiceAccounts (utsaSpec utsa)). ?Q sa w'))"
  proof (rule fold_go_collect_inv [where f = ?f and errs = "[]" and errs' = "[]" and Q = ?Q
        and R = "on_store store deletes" and I = "\<lambda>w. deletes ?m0 (store (ext w))"])
    show "fold_go ?f (specServiceAccounts (utsaSpec utsa)) [] w = (Ok [], w')" by (rule loop)
    show "safe (on_store store deletes) (?f sa errs)" for sa errs
      by (intro del.safe_bind del.safe_fold_go delete_policy_effects(1) r del_List del_check)
    show "\<exists>es. errs' = errs @ es \<and> (es = [] \<longrightarrow> ?Q sa w2)"
      if "deletes ?m0 (store (ext w1))" "?f sa errs w1 = (Ok errs', w2)" for sa errs w1 errs' w2
      using list_fold_gone [OF that(2,1), where P = "\<lambda>_. True"] delete_policy_gone [OF r]
        delete_policy_effects(1) [OF r] by simp
    show "?Q sa w2" if "?Q sa w1" "on_store store deletes w1 w2" for sa w1 w2
      using that deletes_gone unfolding on_store_def by blast
    show "deletes ?m0 (store (ext w2))"
      if "deletes ?m0 (store (ext w1))" "on_store store deletes w1 w2" for w1 w2
      using that deletes_trans unfolding on_store_def by blast
  qed (simp_all add: del.effect_order_axioms)
  then have all: "gone (store (ext w')) ref" if "sa \<in> set (specServiceAccounts (utsaSpec utsa))"
      "?m0 ref = Some ob" "kind_of ob = AuthorizationPolicyKind" "lo_matches (?lo sa) ob" for sa ref ob
    using that by blast
  from ref obtain ob sa where "sa \<in> set (specServiceAccounts (utsaSpec utsa))" "?m0 ref = Some ob"
    "kind_of ob = AuthorizationPolicyKind" "lo_matches (?lo sa) ob"
    by (auto simp: env_policies_def egress_matches listed_accounts_def)
  then show ?thesis by (rule all)
qed

end

text \<open>
  C16. Deleting a resource deletes the policies of the accounts its specification lists,
  and nothing else: every other object of the cluster, the Kubernetes and Google service
  accounts and policy members included, stays as it is, and without an error all those
  policies are gone.
\<close>

theorem CleanupAllResources_exact:
  assumes "kube_fresh (irClient r) store"
    and "D = env_policies (store (ext w)) utsa (\<lambda>n. n \<in> listed_accounts utsa)"
  shows "case IstioCleanup.CleanupAllResources r utsa w of (res, w') \<Rightarrow>
     same_off D (store (ext w)) (store (ext w'))
     \<and> (res = Ok () \<longrightarrow> (\<forall>ref \<in> D. gone (store (ext w')) ref))"
proof -
  note api = kube_fresh.axioms(1) [OF assms(1)]
  obtain res w' where run: "CleanupUTSAServiceAccountAuthzPolicies r utsa w = (res, w')"
    by (cases "CleanupUTSAServiceAccountAuthzPolicies r utsa w")
  from safeD [OF kube_api.frame_CleanupUTSAPolicies [OF api refl] run, of "store (ext w)"]
  have "same_off D (store (ext w)) (store (ext w'))"
    by (simp add: on_store_def off_from_def assms(2))
  moreover have "gone (store (ext w')) ref" if "res = Ok ()" "ref \<in> D" for ref
    using kube_fresh.CleanupUTSAPolicies_gone [OF assms(1) refl] run that assms(2) by blast
  ultimately show ?thesis using run by (simp add: IstioCleanup.CleanupAllResources_def)
qed

definition example_utsa :: "UnionServiceAccount list \<Rightarrow> UnionTeamServiceAccounts" where
  "example_utsa accounts =
     \<lparr>utsaMeta = new_meta ''team'' ''data'' Map.empty,
      utsaSpec = \<lparr>specProject = ''proj'', specDomain = ''dev'', specServiceAccounts = accounts\<rparr>,
      utsaStatusConditions = []\<rparr>"

lemma example_policy_listed:
  "ref_of example_policy \<in> env_policies (mem_store (ext (example_world [example_policy])))
     (example_utsa accounts) P \<longleftrightarrow> P ''sa''"
  by (auto simp: env_policies_def example_policy_def example_world_def example_utsa_def mem_store_def
      mem_objects_def removable_def ref_of_def EgressNamespace_def)

lemma listed_example: "listed_accounts (example_utsa accounts) = usaName ` set accounts"
  by (simp add: listed_accounts_def example_utsa_def)

theorem CleanupRemovedServiceAccountAuthzPolicies_exact_witness:
  "gone (mem_store (ext (snd (CleanupRemovedServiceAccountAuthzPolicies example_istio (example_utsa [])
      (example_world [example_policy]))))) (ref_of example_policy)"
proof -
  let ?run = "CleanupRemovedServiceAccountAuthzPolicies example_istio (example_utsa [])
    (example_world [example_policy])"
  have "fst ?run = Ok ()"
    by (simp add: CleanupRemovedServiceAccountAuthzPolicies_def delete_policy_def example_istio_def
        example_utsa_def example_world_def example_policy_def egress_opts_def inEgressNamespace_def
        map_get_def Let_def mem_eval EgressNamespace_def)
  then obtain w' where run: "?run = (Ok (), w')" by (metis prod.collapse)
  have "ref_of example_policy \<in> env_policies (mem_store (ext (example_world [example_policy])))
      (example_utsa []) (\<lambda>n. n \<noteq> [] \<and> n \<notin> listed_accounts (example_utsa []))"
    by (simp add: example_policy_listed listed_example)
  then show ?thesis
    using CleanupRemovedServiceAccountAuthzPolicies_exact [OF example_istio_fresh refl,
        of "example_world [example_policy]" "example_utsa []"] run
    by simp
qed

theorem CleanupAllResources_exact_witness:
  "gone (mem_store (ext (snd (IstioCleanup.CleanupAllResources example_istio
      (example_utsa [saUnionServiceAccount example_sa]) (example_world [example_policy])))))
    (ref_of example_policy)"
proof -
  let ?utsa = "example_utsa [saUnionServiceAccount example_sa]"
  let ?run = "IstioCleanup.CleanupAllResources example_istio ?utsa (example_world [example_policy])"
  have "fst ?run = Ok ()"
    by (simp add: IstioCleanup.CleanupAllResources_def CleanupUTSAServiceAccountAuthzPolicies_def
        delete_policy_def example_istio_def example_utsa_def example_world_def example_policy_def
        example_sa_def egress_opts_def inEgressNamespace_def mem_eval EgressNamespace_def)
  then obtain w' where run: "?run = (Ok (), w')" by (metis prod.collapse)
  have "ref_of example_policy \<in> env_policies (mem_store (ext (example_world [example_policy])))
      ?utsa (\<lambda>n. n \<in> listed_accounts ?utsa)"
    by (simp add: example_policy_listed listed_example) (simp add: example_sa_def)
  then show ?thesis
    using CleanupAllResources_exact [OF example_istio_fresh refl,
        of "example_world [example_policy]" ?utsa] run
    by simp
qed

section \<open>Resources of hosts: those in use stay\<close>

definition resource_kinds :: "kind list" where
  "resource_kinds = [ServiceEntryKind, VirtualServiceKind, DestinationRuleKind, AuthorizationPolicyKind]"

definition host_refs :: "contents \<Rightarrow> string set \<Rightarrow> obj_ref set" where
  "host_refs m H = {ref. \<exists>ob h. m ref = Some ob \<and> kind_of ob \<in> set resource_kinds
     \<and> namespace_of ob = EgressNamespace \<and> labels_of ob ''host'' = Some h \<and> h \<in> H}"

text \<open>The hosts of a list of servers, and those of a stored gateway.\<close>

definition server_hosts :: "Server list \<Rightarrow> string set" where
  "server_hosts servers = (\<Union>server \<in> set servers. set (srvHosts server))"

definition served :: "contents \<Rightarrow> string \<Rightarrow> string set" where
  "served m gw = (case m (GatewayKind, (EgressNamespace, gw)) of
     Some (GatewayObj g) \<Rightarrow> server_hosts (gwServers g) | _ \<Rightarrow> {})"

lemma server_hosts_nth: "i < length servers \<Longrightarrow> set (srvHosts (servers ! i)) \<subseteq> server_hosts servers"
  by (auto simp: server_hosts_def intro: nth_mem)

lemma server_hosts_set_hosts: "server_hosts (set_hosts hosts servers i) \<subseteq> server_hosts servers \<union> set hosts"
  by (auto simp: server_hosts_def set_hosts_def dest!: subsetD [OF set_update_subset_insert])

lemma length_set_hosts [simp]: "length (set_hosts hosts servers i) = length servers"
  by (simp add: set_hosts_def)

lemma length_decoded [simp]: "length (decoded al servers g) = length servers"
  by (auto simp: decoded_def min_def)

lemma server_hosts_decoded:
  "server_hosts (decoded al servers g) \<subseteq> server_hosts servers \<union> server_hosts (gwServers g)"
  by (auto simp: server_hosts_def decoded_def dest: in_set_takeD in_set_dropD)

lemma set_sorted_keys [simp]: "set (sorted_keys keys) = set keys"
  by (simp add: sorted_keys_def)

lemma server_hosts_write:
  "server_hosts (gwServers (write_hosts at hosts i g)) \<subseteq> server_hosts (gwServers g) \<union> set hosts"
  using server_hosts_set_hosts by (simp add: write_hosts_def)

lemma updated_same_off: "updated ob ob' m m' \<Longrightarrow> ref_of ob \<in> F \<Longrightarrow> same_off F m m'"
  by (auto simp: updated_def same_off_def split: if_splits)

lemma write_hosts_ref [simp]: "ref_of (GatewayObj (write_hosts a hs i g)) = ref_of (GatewayObj g)"
  by (simp add: write_hosts_def ref_of_def)

context kube_api
begin

lemma frame_Update: "ref_of ob \<in> D \<Longrightarrow> safe (on_store store (same_off D)) (k8s_Update c ob)"
  by (rule safe_Update) (auto intro: updated_same_off)

lemma off_removeByHostLabel:
  assumes r: "irClient r = c" and k: "k \<in> set resource_kinds" and D: "host_refs m0 {h} \<subseteq> D"
  shows "safe (on_store store (off_from m0 D)) (removeByHostLabel r h k)"
  unfolding removeByHostLabel_def r
proof (rule safe_List_off [where P = "\<lambda>_. True"], goal_cases)
  case (1 ref ob)
  with k D show ?case by (auto simp: host_refs_def egress_matches matchingHostLabel_def)
next
  case (2 obs)
  then show ?case by (auto intro!: frame.safe_bind frame.safe_fold_go frame_Delete)
qed

lemma off_remove_unused:
  assumes r: "irClient r = c" and D: "host_refs m0 (set hosts - set inUse) \<subseteq> D"
  shows "safe (on_store store (off_from m0 D)) (remove_unused r inUse hosts)"
proof -
  have "safe (on_store store (off_from m0 D)) (removeByHostLabel r h k)"
    if "h \<in> set hosts" "h \<notin> set inUse" "k \<in> set resource_kinds" for h k
    using r that(3)
  proof (rule off_removeByHostLabel)
    show "host_refs m0 {h} \<subseteq> D" using D that(1,2) by (auto simp: host_refs_def)
  qed
  then show ?thesis
    unfolding remove_unused_def removeExternalHost_def resource_kinds_def [symmetric]
    by (auto intro!: off.safe_for_each off.safe_bind off.safe_fold_go off.safe_try)
qed

text \<open>The answer to an update of a gateway is that gateway.\<close>

lemma Update_gateway_answer:
  assumes "k8s_Update c (GatewayObj g) w = (Ok (Inr answer), w')"
  obtains g' where "answer = GatewayObj g'" "gwServers g' = gwServers g"
    "ref_of (GatewayObj g') = ref_of (GatewayObj g)"
proof -
  have st: "stamped (GatewayObj g) answer" using Update_OkD [OF assms] by (simp add: updated_def)
  then obtain g' where "answer = GatewayObj g'" "gwServers g' = gwServers g"
    by (auto elim: stamped_GatewayD)
  with stamped_ref [OF st] that show ?thesis by simp
qed

lemma off_Update_then:
  assumes ref: "ref_of (GatewayObj g) \<in> D"
    and rest: "\<And>g'. ref_of (GatewayObj g') = ref_of (GatewayObj g) \<Longrightarrow> gwServers g' = gwServers g
      \<Longrightarrow> safe (on_store store (off_from m0 D)) (f g')"
  shows "safe (on_store store (off_from m0 D)) (go_bind (k8s_Update c (GatewayObj g))
    (\<lambda>reply. case reply of Inl e \<Rightarrow> go_err (ApiError e) | Inr answer \<Rightarrow> f (as_Gateway answer)))"
proof (rule off.safe_bind_Ok)
  show "safe (on_store store (off_from m0 D)) (k8s_Update c (GatewayObj g))"
    using ref by (intro same_off_off frame_Update)
  fix reply and w w' :: "'s world"
  assume run: "k8s_Update c (GatewayObj g) w = (Ok reply, w')"
  show "safe (on_store store (off_from m0 D))
      (case reply of Inl e \<Rightarrow> go_err (ApiError e) | Inr answer \<Rightarrow> f (as_Gateway answer))"
  proof (cases reply)
    case (Inr answer)
    with run obtain g' where "answer = GatewayObj g'" "ref_of (GatewayObj g') = ref_of (GatewayObj g)"
      "gwServers g' = gwServers g"
      by (auto elim: Update_gateway_answer)
    with Inr rest show ?thesis by simp
  qed simp
qed

text \<open>
  The loops visit hosts the gateway lists and, after a server was rewritten, hosts in use:
  the invariant on both the servers to visit and the gateway.
\<close>

lemma served_step:
  assumes "server_hosts servers \<subseteq> H \<union> set inUse" and "server_hosts (gwServers g) \<subseteq> H \<union> set inUse"
    and g': "gwServers g' = gwServers (write_hosts at (sorted_keys inUse) i g)"
  shows "server_hosts (gwServers g') \<subseteq> H \<union> set inUse"
    and "server_hosts (decoded al (set_hosts (sorted_keys inUse) servers i) g') \<subseteq> H \<union> set inUse"
proof -
  show g: "server_hosts (gwServers g') \<subseteq> H \<union> set inUse"
    unfolding g' using server_hosts_write [of at "sorted_keys inUse" i g] assms(2) by auto
  have "server_hosts (set_hosts (sorted_keys inUse) servers i) \<subseteq> H \<union> set inUse"
    using server_hosts_set_hosts [of "sorted_keys inUse" servers i] assms(1) by auto
  with g server_hosts_decoded [of al "set_hosts (sorted_keys inUse) servers i" g']
  show "server_hosts (decoded al (set_hosts (sorted_keys inUse) servers i) g') \<subseteq> H \<union> set inUse"
    by blast
qed

lemma off_servers:
  assumes r: "irClient r = c" and D: "host_refs m0 (H - set inUse) \<subseteq> D"
  shows "ref_of (GatewayObj g) \<in> D \<Longrightarrow> set is \<subseteq> {..<length servers}
      \<Longrightarrow> server_hosts servers \<subseteq> H \<union> set inUse \<Longrightarrow> server_hosts (gwServers g) \<subseteq> H \<union> set inUse
      \<Longrightarrow> safe (on_store store (off_from m0 D)) (external_servers al r inUse is at servers g)"
    and "ref_of (GatewayObj g) \<in> D \<Longrightarrow> set is \<subseteq> {..<length servers}
      \<Longrightarrow> server_hosts servers \<subseteq> H \<union> set inUse \<Longrightarrow> server_hosts (gwServers g) \<subseteq> H \<union> set inUse
      \<Longrightarrow> safe (on_store store (off_from m0 D)) (cloudsql_servers al r inUse is at servers g)"
proof (induction "is" arbitrary: at servers g)
  case (Cons i "is")
  have used: "safe (on_store store (off_from m0 D)) (remove_unused r inUse (srvHosts (servers ! i)))"
    if "i < length servers" "server_hosts servers \<subseteq> H \<union> set inUse" for servers :: "Server list"
    using r
  proof (rule off_remove_unused)
    have "set (srvHosts (servers ! i)) - set inUse \<subseteq> H - set inUse"
      using server_hosts_nth [OF that(1)] that(2) by blast
    then show "host_refs m0 (set (srvHosts (servers ! i)) - set inUse) \<subseteq> D"
      using D by (fastforce simp: host_refs_def)
  qed
  {
    case 1
    have del: "safe (on_store store (off_from m0 D)) (k8s_Delete c (GatewayObj (write_hosts at hs i g)))" for hs
      using 1 by (intro same_off_off frame_Delete) simp
    have next_server: "safe (on_store store (off_from m0 D)) (external_servers al r inUse is al
        (decoded al (set_hosts (sorted_keys inUse) servers i) g') g')"
      if "ref_of (GatewayObj g') = ref_of (GatewayObj (write_hosts at (sorted_keys inUse) i g))"
        "gwServers g' = gwServers (write_hosts at (sorted_keys inUse) i g)" for g'
      by (rule Cons.IH(1)) (use 1(1,2) that(1) in simp_all, rule served_step(2) [OF 1(3,4) that(2)],
        rule served_step(1) [OF 1(3,4) that(2)])
    moreover have "safe (on_store store (off_from m0 D)) (remove_unused r inUse (srvHosts (servers ! i)))"
      using 1(2,3) by (intro used) auto
    moreover have "safe (on_store store (off_from m0 D)) (external_servers al r inUse is at servers g)"
      by (rule Cons.IH(1)) (use 1 in simp_all)
    ultimately show ?case using 1(1) del
      by (auto simp: r Let_def intro!: off.safe_seq off.safe_bind off_Update_then split: option.splits)
  next
    case 2
    have next_server: "safe (on_store store (off_from m0 D)) (cloudsql_servers al r inUse is al
        (decoded al (set_hosts (sorted_keys inUse) servers i) g') g')"
      if "ref_of (GatewayObj g') = ref_of (GatewayObj (write_hosts at (sorted_keys inUse) i g))"
        "gwServers g' = gwServers (write_hosts at (sorted_keys inUse) i g)" for g'
      by (rule Cons.IH(2)) (use 2(1,2) that(1) in simp_all, rule served_step(2) [OF 2(3,4) that(2)],
        rule served_step(1) [OF 2(3,4) that(2)])
    moreover have "safe (on_store store (off_from m0 D)) (remove_unused r inUse (srvHosts (servers ! i)))"
      using 2(2,3) by (intro used) auto
    ultimately show ?case using 2(1)
      by (auto simp: r Let_def intro!: off.safe_seq off_Update_then split: option.splits)
  }
qed simp_all

lemma off_gateway_loop:
  assumes run: "go_bind (k8s_Get c GatewayKind (EgressNamespace, gw))
      (\<lambda>reply. case reply of
         Inl e \<Rightarrow> (if IsNotFound e then go_return () else go_err (ApiError e))
       | Inr ob \<Rightarrow> f (as_Gateway ob)) w = (res, w')"
    and loop: "\<And>g m0 D H. host_refs m0 (H - set inUse) \<subseteq> D \<Longrightarrow> ref_of (GatewayObj g) \<in> D
        \<Longrightarrow> server_hosts (gwServers g) \<subseteq> H \<union> set inUse \<Longrightarrow> safe (on_store store (off_from m0 D)) (f g)"
  shows "same_off (insert (GatewayKind, (EgressNamespace, gw))
    (host_refs (store (ext w)) (served (store (ext w)) gw - set inUse))) (store (ext w)) (store (ext w'))"
proof -
  let ?m = "store (ext w)"
  let ?D = "insert (GatewayKind, (EgressNamespace, gw)) (host_refs ?m (served ?m gw - set inUse))"
  obtain x w1 where get: "k8s_Get c GatewayKind (EgressNamespace, gw) w = (x, w1)"
    by (cases "k8s_Get c GatewayKind (EgressNamespace, gw) w")
  then obtain reply where x: "x = Ok reply" and same: "store (ext w1) = ?m"
    and old: "\<And>ob. reply = Inr ob \<Longrightarrow> ?m (GatewayKind, (EgressNamespace, gw)) = Some ob"
    by (rule Get_OkD) blast
  show ?thesis
  proof (cases reply)
    case (Inl e)
    with run get x same show ?thesis by (auto simp: go_defs split: if_splits)
  next
    case (Inr ob)
    note old = old [OF Inr]
    then obtain g where g: "ob = GatewayObj g" by (rule stored_gateway)
    have "safe (on_store store (off_from ?m ?D)) (f g)"
    proof (rule loop)
      show "host_refs ?m (served ?m gw - set inUse) \<subseteq> ?D" by blast
      show "ref_of (GatewayObj g) \<in> ?D" using store_ref [OF old] g by simp
      show "server_hosts (gwServers g) \<subseteq> served ?m gw \<union> set inUse" using old g by (simp add: served_def)
    qed
    moreover have "f g w1 = (res, w')" using run get x Inr g by (simp add: go_bind_def)
    ultimately have "on_store store (off_from ?m ?D) w1 w'" by (rule safeD)
    then show ?thesis by (simp add: on_store_def off_from_def same)
  qed
qed

lemma cleanup_hosts_off:
  assumes r: "irClient r = c"
  shows "cleanupExternalHosts al r utsas w = (res, w') \<Longrightarrow>
      same_off (insert (GatewayKind, (EgressNamespace, externalGatewayName))
          (host_refs (store (ext w)) (served (store (ext w)) externalGatewayName
            - set (external_hosts_in_use utsas)))) (store (ext w)) (store (ext w'))"
    and "cleanupCloudSQLHosts al r utsas w = (res, w') \<Longrightarrow>
      same_off (insert (GatewayKind, (EgressNamespace, cloudSQLGatewayName))
          (host_refs (store (ext w)) (served (store (ext w)) cloudSQLGatewayName
            - set (cloudsql_hosts_in_use utsas)))) (store (ext w)) (store (ext w'))"
  unfolding cleanupExternalHosts_def cleanupCloudSQLHosts_def r Let_def
  by (erule off_gateway_loop [where f = "\<lambda>g. external_servers al r (external_hosts_in_use utsas)
        [0..<length (gwServers g)] True (gwServers g) g"], rule off_servers(1) [OF r], auto)
    (erule off_gateway_loop [where f = "\<lambda>g. cloudsql_servers al r (cloudsql_hosts_in_use utsas)
        [0..<length (gwServers g)] True (gwServers g) g"], rule off_servers(2) [OF r], auto)

end

text \<open>
  C11. The cleanup of unused hosts never touches what is in use, nor what it is not in
  charge of. Whatever the outcome, and however many servers the gateway has,
  \<open>cleanupExternalHosts\<close> changes only the external gateway and resources of the four kinds
  in the egress namespace whose host label is a host that this gateway serves and that is
  on nobody's external allowlist; \<open>cleanupCloudSQLHosts\<close> the same for the Cloud SQL gateway
  and addresses, and the resources labelled with the wildcard are in use.
\<close>

theorem cleanup_hosts_keeps_used:
  assumes "kube_api (irClient r) store"
  shows "same_off (insert (GatewayKind, (EgressNamespace, externalGatewayName))
            (host_refs (store (ext w)) (served (store (ext w)) externalGatewayName
               - set (external_hosts_in_use utsas))))
          (store (ext w)) (store (ext (snd (cleanupExternalHosts aliased r utsas w))))
       \<and> same_off (insert (GatewayKind, (EgressNamespace, cloudSQLGatewayName))
            (host_refs (store (ext w)) (served (store (ext w)) cloudSQLGatewayName
               - set (cloudsql_hosts_in_use utsas))))
          (store (ext w)) (store (ext (snd (cleanupCloudSQLHosts aliased r utsas w))))"
  by (intro conjI kube_api.cleanup_hosts_off [OF assms refl surjective_pairing])

theorem cleanup_hosts_keeps_used_witness:
  "mem_store (ext (snd (cleanupExternalHosts False example_istio [example_utsa [saUnionServiceAccount example_sa]]
      (example_world [VirtualServiceObj (newVirtualServiceForExternalHost \<lparr>hostHost = ''vg.no'', hostPaths = []\<rparr>)]))))
     (VirtualServiceKind, (''istio-egress'', ''vg-no''))
   = Some (VirtualServiceObj (newVirtualServiceForExternalHost \<lparr>hostHost = ''vg.no'', hostPaths = []\<rparr>))"
proof -
  let ?vs = "VirtualServiceObj (newVirtualServiceForExternalHost \<lparr>hostHost = ''vg.no'', hostPaths = []\<rparr>)"
  let ?w = "example_world [?vs]" and ?ref = "(VirtualServiceKind, (''istio-egress'', ''vg-no''))"
  have there: "mem_store (ext ?w) ?ref = Some ?vs"
    by (simp add: mem_store_def example_world_def mem_objects_def removable_def ref_of_def
        istio_program_defs)
  have "external_hosts_in_use [example_utsa [saUnionServiceAccount example_sa]] = [''vg.no'']"
    by (simp add: external_hosts_in_use_def example_utsa_def example_sa_def)
  moreover have "labels_of ?vs ''host'' = Some ''vg.no''"
    by (simp add: builder_defs managedByLabel_def)
  ultimately have "?ref \<notin> host_refs (mem_store (ext ?w))
      (served (mem_store (ext ?w)) externalGatewayName
        - set (external_hosts_in_use [example_utsa [saUnionServiceAccount example_sa]]))"
    using there by (simp add: host_refs_def)
  with cleanup_hosts_keeps_used [OF example_istio_api, of ?w
      "[example_utsa [saUnionServiceAccount example_sa]]" False] there
  show ?thesis by (simp add: same_off_def)
qed

section \<open>Resources of hosts: those no longer in use go\<close>

context kube_api
begin

lemma del_removeByHostLabel:
  assumes "irClient r = c"
  shows "safe (on_store store deletes) (removeByHostLabel r h k)"
  unfolding removeByHostLabel_def assms
  by (intro del.safe_bind del.safe_fold_go) auto

lemma del_removeExternalHost:
  "irClient r = c \<Longrightarrow> safe (on_store store deletes) (removeExternalHost r h)"
  unfolding removeExternalHost_def
  by (intro del.safe_bind del.safe_fold_go del.safe_try del_removeByHostLabel) auto

end

context kube_fresh
begin

lemma removeByHostLabel_gone:
  assumes r: "irClient r = c" and run: "removeByHostLabel r h k w = (Ok v, w')"
    and start: "deletes m0 (store (ext w))" and ob: "m0 ref = Some ob" "kind_of ob = k"
    and ns: "namespace_of ob = EgressNamespace" and h: "labels_of ob ''host'' = Some h"
  shows "gone (store (ext w')) ref"
proof -
  let ?lo = "egress_opts (matchingHostLabel h)"
  let ?f = "\<lambda>ob errs. go_bind (k8s_Delete c ob)
    (\<lambda>err. go_return (case err of None \<Rightarrow> errs | Some e \<Rightarrow> errs @ [ApiError e]))"
  from run have "go_bind (go_bind (go_bind (k8s_List c k ?lo) check_reply) (\<lambda>items. fold_go ?f items []))
      errors_Join w = (Ok v, w')"
    unfolding removeByHostLabel_def r go_bind_assoc .
  then have loop: "go_bind (go_bind (k8s_List c k ?lo) check_reply) (\<lambda>items. fold_go ?f items []) w
      = (Ok [], w')"
    by (elim go_bind_OkE [of _ errors_Join]) simp
  have "\<exists>es :: goerror list. [] = [] @ es \<and> (es = [] \<longrightarrow> (\<forall>ref ob. m0 ref = Some ob \<longrightarrow>
     kind_of ob = k \<longrightarrow> lo_matches ?lo ob \<longrightarrow> True \<longrightarrow> gone (store (ext w')) ref))"
  proof (rule list_fold_gone [where f = ?f and errs' = "[]" and errs = "[]", OF loop start])
    show "safe (on_store store deletes) (?f ob errs)" for ob errs
      by (intro del.safe_bind) auto
    show "\<exists>es. errs' = errs @ es \<and> (es = [] \<longrightarrow> True \<longrightarrow> gone (store (ext w2)) (ref_of ob))"
      if run: "?f ob errs w1 = (Ok errs', w2)" for ob errs w1 errs' w2
    proof -
      from run obtain err where del: "k8s_Delete c ob w1 = (Ok err, w2)"
        and "errs' = (case err of None \<Rightarrow> errs | Some e \<Rightarrow> errs @ [ApiError e])"
        by (auto elim!: go_bind_OkE)
      then show ?thesis using Delete_gone [OF del] by (auto split: option.splits)
    qed
  qed simp
  then have "lo_matches ?lo ob \<Longrightarrow> ?thesis" using ob by blast
  with ns h show ?thesis by (simp add: egress_matches matchingHostLabel_def)
qed

lemma removeExternalHost_gone:
  assumes r: "irClient r = c" and run: "removeExternalHost r h w = (Ok v, w')"
    and start: "deletes m0 (store (ext w))" and ref: "ref \<in> host_refs m0 {h}"
  shows "gone (store (ext w')) ref"
proof -
  let ?f = "\<lambda>k errs. go_bind (go_try (removeByHostLabel r h k))
    (\<lambda>res. go_return (case res of Inl e \<Rightarrow> errs @ [e] | Inr _ \<Rightarrow> errs))"
  let ?Q = "\<lambda>k w. \<forall>ref ob. m0 ref = Some ob \<longrightarrow> kind_of ob = k \<longrightarrow> namespace_of ob = EgressNamespace
    \<longrightarrow> labels_of ob ''host'' = Some h \<longrightarrow> gone (store (ext w)) ref"
  from run have loop: "fold_go ?f resource_kinds [] w = (Ok [], w')"
    unfolding removeExternalHost_def resource_kinds_def by (elim go_bind_OkE [of _ errors_Join]) simp
  have "\<exists>es :: goerror list. [] = [] @ es \<and> (es = [] \<longrightarrow> (\<forall>k \<in> set resource_kinds. ?Q k w'))"
  proof (rule fold_go_collect_inv [where f = ?f and errs = "[]" and errs' = "[]" and Q = ?Q
        and R = "on_store store deletes" and I = "\<lambda>w. deletes m0 (store (ext w))"])
    show "fold_go ?f resource_kinds [] w = (Ok [], w')" by (rule loop)
    show "safe (on_store store deletes) (?f k errs)" for k errs
      by (intro del.safe_bind del.safe_try del_removeByHostLabel r) simp
    show "\<exists>es. errs' = errs @ es \<and> (es = [] \<longrightarrow> ?Q k w2)"
      if I: "deletes m0 (store (ext w1))" and f: "?f k errs w1 = (Ok errs', w2)" for k errs w1 errs' w2
    proof -
      from f obtain res where attempt: "go_try (removeByHostLabel r h k) w1 = (Ok res, w2)"
        and errs': "errs' = (case res of Inl e \<Rightarrow> errs @ [e] | Inr _ \<Rightarrow> errs)"
        by (auto elim!: go_bind_OkE)
      show ?thesis
      proof (cases res)
        case (Inr x)
        with attempt have "removeByHostLabel r h k w1 = (Ok x, w2)"
          by (auto simp: go_try_def split: prod.splits res.splits)
        with errs' Inr removeByHostLabel_gone [OF r this I] show ?thesis by auto
      qed (simp add: errs')
    qed
    show "?Q k w2" if "?Q k w1" "on_store store deletes w1 w2" for k w1 w2
      using that deletes_gone unfolding on_store_def by blast
    show "deletes m0 (store (ext w2))"
      if "deletes m0 (store (ext w1))" "on_store store deletes w1 w2" for w1 w2
      using that deletes_trans unfolding on_store_def by blast
  qed (simp_all add: start del.effect_order_axioms)
  then have "\<forall>k \<in> set resource_kinds. ?Q k w'" by blast
  with ref show ?thesis unfolding host_refs_def by blast
qed

lemma remove_unused_gone:
  assumes r: "irClient r = c"
  shows "ok_post (\<lambda>w. deletes m0 (store (ext w))) (remove_unused r inUse hosts)
    (\<lambda>_ w. \<forall>ref \<in> host_refs m0 (set hosts - set inUse). gone (store (ext w)) ref)"
proof -
  let ?body = "\<lambda>host. if host \<notin> set inUse then removeExternalHost r host else go_return ()"
  let ?Q = "\<lambda>h w. h \<notin> set inUse \<longrightarrow> (\<forall>ref \<in> host_refs m0 {h}. gone (store (ext w)) ref)"
  have "ok_post (\<lambda>w. deletes m0 (store (ext w))) (for_each ?body hosts)
      (\<lambda>_ w. deletes m0 (store (ext w)) \<and> (\<forall>h \<in> set hosts. ?Q h w))"
  proof (rule ok_post_for_each [where R = "on_store store deletes"])
    show "ok_post (\<lambda>w. deletes m0 (store (ext w))) (?body h) (\<lambda>_. ?Q h)" for h
      using removeExternalHost_gone [OF r] by (auto simp: ok_post_def)
    show "safe (on_store store deletes) (?body h)" for h
      by (simp add: del_removeExternalHost r)
    show "deletes m0 (store (ext w2))"
      if "deletes m0 (store (ext w1))" "on_store store deletes w1 w2" for w1 w2
      using that deletes_trans unfolding on_store_def by blast
    show "?Q h w2" if "?Q h w1" "on_store store deletes w1 w2" for h w1 w2
      using that deletes_gone unfolding on_store_def by blast
  qed
  then show ?thesis
    unfolding remove_unused_def by (rule ok_post_weaken) (auto simp: host_refs_def)
qed

end

text \<open>What a gateway's single server ends up with.\<close>

context kube_api
begin

lemma Update_gateway_stored:
  assumes run: "k8s_Update c (GatewayObj g) w = (Ok (Inr answer), w')"
    and "\<not> removable (GatewayObj g)"
  shows "\<exists>g'. store (ext w') (ref_of (GatewayObj g)) = Some (GatewayObj g') \<and> gwServers g' = gwServers g"
    and "same_off {ref_of (GatewayObj g)} (store (ext w)) (store (ext w'))"
  using Update_OkD [OF run] assms(2)
  by (auto simp: updated_def same_off_def elim!: stamped_GatewayD)

end

context kube_fresh
begin

lemma cleanup_single_server:
  assumes r: "irClient r = c"
    and gw: "store (ext w) (GatewayKind, key) = Some (GatewayObj g)" "gwServers g = [server]"
    and before: "ok_post (\<lambda>w. deletes m0 (store (ext w))) before
      (\<lambda>_ w. \<forall>ref \<in> D. gone (store (ext w)) ref)"
    and m0: "m0 = store (ext w)" and D: "(GatewayKind, key) \<notin> D"
    and first: "before w = (Ok (), w1)"
    and upd: "k8s_Update c (GatewayObj (write_hosts True hosts 0 g)) w1 = (Ok (Inr answer), w')"
  shows "(\<forall>ref \<in> D. gone (store (ext w')) ref)
    \<and> (\<exists>g'. store (ext w') (GatewayKind, key) = Some (GatewayObj g')
         \<and> gwServers g' = [server\<lparr>srvHosts := hosts\<rparr>])"
proof -
  have gone: "\<forall>ref \<in> D. gone (store (ext w1)) ref"
    using ok_postD [OF before _ first] m0 by simp
  let ?g = "write_hosts True hosts 0 g"
  have ref: "ref_of (GatewayObj ?g) = (GatewayKind, key)" using store_ref [OF gw(1)] by simp
  have "\<not> removable (GatewayObj ?g)"
    using store_live [OF gw(1)] by (simp add: removable_def write_hosts_def)
  note stored = Update_gateway_stored [OF upd this, unfolded ref]
  have "gwServers ?g = [server\<lparr>srvHosts := hosts\<rparr>]"
    using gw(2) by (simp add: write_hosts_def set_hosts_def)
  moreover have "gone (store (ext w')) ref" if "ref \<in> D" for ref
  proof -
    have "ref \<noteq> (GatewayKind, key)" using that D by blast
    with stored(2) have "store (ext w') ref = store (ext w1) ref" by (auto dest: same_offD)
    with gone that show ?thesis by (simp add: gone_def)
  qed
  ultimately show ?thesis using stored(1) by simp
qed

end

lemma sorted_keys_Nil [simp]: "sorted_keys keys = [] \<longleftrightarrow> keys = []"
  unfolding sorted_keys_def by (metis set_empty set_remdups set_sort)

lemma host_refs_not_gateway: "(GatewayKind, key) \<notin> host_refs (store s) H"
  if "kube_api c store" for c store s H key
  using kube_api.stored_kind [OF that] by (fastforce simp: host_refs_def resource_kinds_def)

context kube_fresh
begin

lemma Get_stored:
  assumes "k8s_Get c k key w = (Ok reply, w')" and "store (ext w) (k, key) = Some ob"
  shows "(reply = Inr ob \<or> (\<exists>e. reply = Inl e \<and> \<not> IsNotFound e)) \<and> store (ext w') = store (ext w)"
proof (cases reply)
  case (Inl e)
  with assms Get_NotFoundD have "\<not> IsNotFound e" by fastforce
  with Inl assms show ?thesis by (auto elim: Get_OkD)
qed (use assms in \<open>auto elim: Get_OkD\<close>)

lemma cleanupExternalHosts_single:
  assumes r: "irClient r = c"
    and gw: "store (ext w) (GatewayKind, (EgressNamespace, externalGatewayName)) = Some (GatewayObj g)"
      "gwServers g = [server]" "srvPort server = Some port" "portProtocol port = httpsProtocol"
    and run: "cleanupExternalHosts aliased r utsas w = (Ok v, w')"
  shows "(\<forall>ref \<in> host_refs (store (ext w)) (set (srvHosts server) - set (external_hosts_in_use utsas)).
            gone (store (ext w')) ref)
    \<and> (if external_hosts_in_use utsas = []
       then gone (store (ext w')) (GatewayKind, (EgressNamespace, externalGatewayName))
       else \<exists>g'. store (ext w') (GatewayKind, (EgressNamespace, externalGatewayName)) = Some (GatewayObj g')
              \<and> gwServers g' = [server\<lparr>srvHosts := sorted_keys (external_hosts_in_use utsas)\<rparr>])"
proof -
  let ?used = "external_hosts_in_use utsas" and ?key = "(EgressNamespace, externalGatewayName)"
  let ?m0 = "store (ext w)" and ?g = "write_hosts True (sorted_keys (external_hosts_in_use utsas)) 0 g"
  let ?D = "host_refs ?m0 (set (srvHosts server) - set ?used)"
  from run obtain reply w1 where get: "k8s_Get c GatewayKind ?key w = (Ok reply, w1)"
    and rest: "(case reply of
        Inl e \<Rightarrow> (if IsNotFound e then go_return () else go_err (ApiError e))
      | Inr ob \<Rightarrow> (let gateway = as_Gateway ob in external_servers aliased r ?used
          [0..<length (gwServers gateway)] True (gwServers gateway) gateway)) w1 = (Ok v, w')"
    unfolding cleanupExternalHosts_def r by (rule go_bind_OkE)
  from Get_stored [OF get gw(1)] rest have reply: "reply = Inr (GatewayObj g)"
    and same: "store (ext w1) = ?m0"
    by auto
  let ?last = "if ?used = [] then go_bind (k8s_Delete c (GatewayObj ?g)) check_error
       else go_bind (k8s_Update c (GatewayObj ?g)) (\<lambda>reply. case reply of
          Inl e \<Rightarrow> go_err (ApiError e) | Inr answer \<Rightarrow> go_return ())"
  have "external_servers aliased r ?used [0] True [server] g
      = go_seq (remove_unused r ?used (srvHosts server)) ?last"
    using gw(3,4) by (simp add: Let_def r cong: sum.case_cong)
  with rest gw(2) have "go_seq (remove_unused r ?used (srvHosts server)) ?last w1 = (Ok v, w')"
    by (simp add: reply)
  then obtain w2 where first: "remove_unused r ?used (srvHosts server) w1 = (Ok (), w2)"
    and last: "?last w2 = (Ok v, w')"
    by (rule go_seq_OkE)
  note unused = remove_unused_gone [OF r, of ?m0 ?used "srvHosts server"]
  have notin: "(GatewayKind, ?key) \<notin> ?D"
    by (rule host_refs_not_gateway [OF kube_api_axioms])
  have ref: "ref_of (GatewayObj ?g) = (GatewayKind, ?key)" using store_ref [OF gw(1)] by simp
  show ?thesis
  proof (cases "?used = []")
    case True
    with last have del: "k8s_Delete c (GatewayObj ?g) w2 = (Ok None, w')" by (auto elim!: go_bind_OkE)
    have "\<forall>ref \<in> ?D. gone (store (ext w2)) ref"
      using ok_postD [OF unused _ first] same by simp
    moreover have "deletes (store (ext w2)) (store (ext w'))"
      using safeD [OF del_Delete del] by (simp add: on_store_def)
    ultimately have "\<forall>ref \<in> ?D. gone (store (ext w')) ref" by (blast intro: deletes_gone)
    with True Delete_gone [OF del] ref show ?thesis by simp
  next
    case False
    with last obtain answer where upd: "k8s_Update c (GatewayObj ?g) w2 = (Ok (Inr answer), w')"
      by (auto elim!: go_bind_OkE split: sum.splits)
    from gw(1) same have "store (ext w1) (GatewayKind, ?key) = Some (GatewayObj g)" by simp
    from cleanup_single_server [OF r this gw(2) unused same [symmetric] notin first upd] False
    show ?thesis by simp
  qed
qed

end

text \<open>
  C12. Unused external hosts are taken apart. For an external gateway with one HTTPS
  server, a run without error leaves nothing of the hosts that were in the gateway and are
  on nobody's allowlist any more: their service entries, virtual services, destination
  rules and policies are gone. The gateway's host list then is the sorted list without
  duplicates of the hosts in use, or the gateway itself is gone when no host is in use.
\<close>

theorem cleanupExternalHosts_complete:
  assumes "kube_fresh (irClient r) store"
    and "store (ext w) (GatewayKind, (EgressNamespace, externalGatewayName)) = Some (GatewayObj g)"
    and "gwServers g = [server]" and "srvPort server = Some port"
    and "portProtocol port = httpsProtocol"
    and "cleanupExternalHosts aliased r utsas w = (Ok (), w')"
  shows "(\<forall>ref \<in> host_refs (store (ext w)) (set (srvHosts server) - set (external_hosts_in_use utsas)).
            gone (store (ext w')) ref)
    \<and> (if external_hosts_in_use utsas = []
       then gone (store (ext w')) (GatewayKind, (EgressNamespace, externalGatewayName))
       else \<exists>g'. store (ext w') (GatewayKind, (EgressNamespace, externalGatewayName)) = Some (GatewayObj g')
              \<and> gwServers g' = [server\<lparr>srvHosts := sorted_keys (external_hosts_in_use utsas)\<rparr>])"
  by (rule kube_fresh.cleanupExternalHosts_single [OF assms(1) refl assms(2-6)])

definition example_gateway :: Gateway where
  "example_gateway = newGateway externalGatewayName ''old.no''"

theorem cleanupExternalHosts_complete_witness:
  "\<exists>w'. cleanupExternalHosts True example_istio [example_utsa [saUnionServiceAccount example_sa]]
      (example_world [GatewayObj example_gateway]) = (Ok (), w')
    \<and> (\<exists>g'. mem_store (ext w') (GatewayKind, (EgressNamespace, externalGatewayName)) = Some (GatewayObj g')
         \<and> map srvHosts (gwServers g') = [[''vg.no'']])"
proof -
  let ?utsas = "[example_utsa [saUnionServiceAccount example_sa]]"
  let ?w = "example_world [GatewayObj example_gateway]"
  let ?run = "cleanupExternalHosts True example_istio ?utsas ?w"
  have used: "external_hosts_in_use ?utsas = [''vg.no'']"
    by (simp add: external_hosts_in_use_def example_utsa_def example_sa_def)
  have "fst ?run = Ok ()"
    unfolding cleanupExternalHosts_def used
    by (simp add: remove_unused_def removeExternalHost_def removeByHostLabel_def sorted_keys_def
        example_istio_def example_gateway_def example_world_def istio_program_defs write_hosts_def
        set_hosts_def mem_eval protocol_defs Let_def)
  then obtain w' where run: "?run = (Ok (), w')" by (metis prod.collapse)
  have gw: "mem_store (ext ?w) (GatewayKind, (EgressNamespace, externalGatewayName)) = Some (GatewayObj example_gateway)"
    by (simp add: mem_store_def example_world_def mem_objects_def removable_def ref_of_def
        example_gateway_def newGateway_def)
  obtain server port where server: "gwServers example_gateway = [server]" "srvPort server = Some port"
    "portProtocol port = httpsProtocol"
    by (simp add: example_gateway_def newGateway_def httpsProtocol_def)
  show ?thesis
    using run cleanupExternalHosts_complete [OF example_istio_fresh gw server run]
    by (simp add: used) (auto simp: sorted_keys_def)
qed

section \<open>The Cloud SQL gateway\<close>

context kube_fresh
begin

lemma cleanupCloudSQLHosts_single:
  assumes r: "irClient r = c"
    and gw: "store (ext w) (GatewayKind, (EgressNamespace, cloudSQLGatewayName)) = Some (GatewayObj g)"
      "gwServers g = [server]" "srvPort server = Some port"
    and D: "D = (if portProtocol port = tlsProtocol
       then host_refs (store (ext w)) (set (srvHosts server) - set (cloudsql_hosts_in_use utsas)) else {})"
    and run: "cleanupCloudSQLHosts aliased r utsas w = (Ok v, w')"
  shows "(\<forall>ref \<in> D. gone (store (ext w')) ref)
    \<and> (\<exists>g'. store (ext w') (GatewayKind, (EgressNamespace, cloudSQLGatewayName)) = Some (GatewayObj g')
         \<and> gwServers g' = [server\<lparr>srvHosts := sorted_keys (cloudsql_hosts_in_use utsas)\<rparr>])
    \<and> (portProtocol port = tlsProtocol
       \<or> same_off {(GatewayKind, (EgressNamespace, cloudSQLGatewayName))} (store (ext w)) (store (ext w')))"
proof -
  let ?used = "cloudsql_hosts_in_use utsas" and ?key = "(EgressNamespace, cloudSQLGatewayName)"
  let ?m0 = "store (ext w)" and ?hosts = "sorted_keys (cloudsql_hosts_in_use utsas)"
  let ?g = "write_hosts True ?hosts 0 g"
  let ?before = "if portProtocol port = tlsProtocol then remove_unused r ?used (srvHosts server)
    else go_return ()"
  from run obtain reply w1 where get: "k8s_Get c GatewayKind ?key w = (Ok reply, w1)"
    and rest: "(case reply of
        Inl e \<Rightarrow> (if IsNotFound e then go_return () else go_err (ApiError e))
      | Inr ob \<Rightarrow> (let gateway = as_Gateway ob in cloudsql_servers aliased r ?used
          [0..<length (gwServers gateway)] True (gwServers gateway) gateway)) w1 = (Ok v, w')"
    unfolding cleanupCloudSQLHosts_def r by (rule go_bind_OkE)
  from Get_stored [OF get gw(1)] rest have reply: "reply = Inr (GatewayObj g)"
    and same: "store (ext w1) = ?m0"
    by auto
  have "cloudsql_servers aliased r ?used [0] True [server] g = go_seq ?before
      (go_bind (k8s_Update c (GatewayObj ?g)) (\<lambda>reply. case reply of
          Inl e \<Rightarrow> go_err (ApiError e) | Inr answer \<Rightarrow> go_return ()))"
    using gw(3) by (simp add: Let_def r cong: sum.case_cong)
  with rest gw(2) have "go_seq ?before (go_bind (k8s_Update c (GatewayObj ?g)) (\<lambda>reply. case reply of
          Inl e \<Rightarrow> go_err (ApiError e) | Inr answer \<Rightarrow> go_return ())) w1 = (Ok v, w')"
    by (simp add: reply)
  then obtain w2 answer where first: "?before w1 = (Ok (), w2)"
    and upd: "k8s_Update c (GatewayObj ?g) w2 = (Ok (Inr answer), w')"
    by (auto elim!: go_seq_OkE go_bind_OkE split: sum.splits)
  have before: "ok_post (\<lambda>w. deletes ?m0 (store (ext w))) ?before
      (\<lambda>_ w. \<forall>ref \<in> D. gone (store (ext w)) ref)"
    using remove_unused_gone [OF r, of ?m0 ?used "srvHosts server"] by (auto simp: D)
  have notin: "(GatewayKind, ?key) \<notin> D"
    using host_refs_not_gateway [OF kube_api_axioms] by (simp add: D)
  from gw(1) same have "store (ext w1) (GatewayKind, ?key) = Some (GatewayObj g)" by simp
  note result = cleanup_single_server [OF r this gw(2) before same [symmetric] notin first upd]
  moreover have "same_off {(GatewayKind, ?key)} ?m0 (store (ext w'))" if "portProtocol port \<noteq> tlsProtocol"
  proof -
    have ref: "ref_of (GatewayObj ?g) = (GatewayKind, ?key)" using store_ref [OF gw(1)] by simp
    have "safe (on_store store (same_off {ref_of (GatewayObj ?g)})) (k8s_Update c (GatewayObj ?g))"
      by (rule frame_Update) simp
    from safeD [OF this upd] first that same ref show ?thesis by (simp add: on_store_def)
  qed
  ultimately show ?thesis by blast
qed

end

text \<open>
  C13. The Cloud SQL gateway with one server always ends up with the wildcard and the
  addresses in use, sorted. The resources of addresses dropped from the list are removed
  when the server speaks TLS. When it speaks anything else its host list is overwritten
  all the same and nothing else in the cluster changes: their resources stay behind.
\<close>

theorem cleanupCloudSQLHosts_complete:
  assumes "kube_fresh (irClient r) store"
    and "store (ext w) (GatewayKind, (EgressNamespace, cloudSQLGatewayName)) = Some (GatewayObj g)"
    and "gwServers g = [server]" and "srvPort server = Some port"
    and "cleanupCloudSQLHosts aliased r utsas w = (Ok (), w')"
  shows "(\<exists>g'. store (ext w') (GatewayKind, (EgressNamespace, cloudSQLGatewayName)) = Some (GatewayObj g')
         \<and> gwServers g' = [server\<lparr>srvHosts := sorted_keys (cloudsql_hosts_in_use utsas)\<rparr>])
    \<and> ''*'' \<in> set (sorted_keys (cloudsql_hosts_in_use utsas))
    \<and> (if portProtocol port = ''TLS''
       then \<forall>ref \<in> host_refs (store (ext w)) (set (srvHosts server) - set (cloudsql_hosts_in_use utsas)).
              gone (store (ext w')) ref
       else same_off {(GatewayKind, (EgressNamespace, cloudSQLGatewayName))}
              (store (ext w)) (store (ext w')))"
proof -
  have "''*'' \<in> set (sorted_keys (cloudsql_hosts_in_use utsas))"
    by (simp add: sorted_keys_def cloudsql_hosts_in_use_def)
  with kube_fresh.cleanupCloudSQLHosts_single [OF assms(1) refl assms(2-4) refl assms(5)]
  show ?thesis by (auto simp: tlsProtocol_def)
qed

theorem cleanupCloudSQLHosts_complete_witness:
  "\<exists>w'. cleanupCloudSQLHosts False example_istio []
      (example_world [GatewayObj (newGateway cloudSQLGatewayName ''other.no'')]) = (Ok (), w')
    \<and> (\<exists>g'. mem_store (ext w') (GatewayKind, (EgressNamespace, cloudSQLGatewayName)) = Some (GatewayObj g')
         \<and> map srvHosts (gwServers g') = [[''*'']])"
proof -
  let ?gw = "newGateway cloudSQLGatewayName ''other.no''"
  let ?w = "example_world [GatewayObj ?gw]"
  let ?run = "cleanupCloudSQLHosts False example_istio [] ?w"
  have used: "cloudsql_hosts_in_use [] = [''*'']"
    by (simp add: cloudsql_hosts_in_use_def)
  have "fst ?run = Ok ()"
    unfolding cleanupCloudSQLHosts_def used
    by (simp add: sorted_keys_def example_istio_def example_world_def istio_program_defs write_hosts_def
        set_hosts_def mem_eval tlsProtocol_def Let_def)
  then obtain w' where run: "?run = (Ok (), w')" by (metis prod.collapse)
  have gw: "mem_store (ext ?w) (GatewayKind, (EgressNamespace, cloudSQLGatewayName)) = Some (GatewayObj ?gw)"
    by (simp add: mem_store_def example_world_def mem_objects_def removable_def ref_of_def newGateway_def)
  obtain server port where server: "gwServers ?gw = [server]" "srvPort server = Some port"
    by (simp add: newGateway_def)
  show ?thesis
    using run cleanupCloudSQLHosts_complete [OF example_istio_fresh gw server run]
    by (auto simp: used sorted_keys_def)
qed

section \<open>Internal hosts: exactly those off the allowlist go\<close>

definition stale_internal :: "contents \<Rightarrow> UnionTeamServiceAccounts \<Rightarrow> UnionServiceAccount \<Rightarrow> obj_ref set" where
  "stale_internal m utsa sa = {ref. \<exists>ob. m ref = Some ob \<and> kind_of ob = AuthorizationPolicyKind
     \<and> lo_matches (egress_opts (internal_labels utsa sa)) ob
     \<and> map_get (labels_of ob) ''parent-host'' \<notin> hostHost ` set (usaInternalAllowlist sa)}"

definition all_stale_internal :: "contents \<Rightarrow> UnionTeamServiceAccounts list \<Rightarrow> obj_ref set" where
  "all_stale_internal m utsas =
     (\<Union>utsa \<in> set utsas. \<Union>sa \<in> set (specServiceAccounts (utsaSpec utsa)). stale_internal m utsa sa)"

lemma containsHost_iff:
  "containsHost ob hosts \<longleftrightarrow> map_get (labels_of ob) ''parent-host'' \<in> hostHost ` set hosts"
  by (induction hosts) auto

definition cleanup_internal_account ::
    "'s IstioReconciler \<Rightarrow> UnionTeamServiceAccounts \<Rightarrow> UnionServiceAccount \<Rightarrow> ('s world, unit) go" where
  "cleanup_internal_account r utsa sa =
     go_bind (go_bind (k8s_List (irClient r) AuthorizationPolicyKind
         (egress_opts (internal_labels utsa sa))) check_reply)
       (for_each (\<lambda>host. if \<not> containsHost host (usaInternalAllowlist sa)
            then go_bind (k8s_Delete (irClient r) host) check_error else go_return ()))"

lemma cleanupInternalHosts_flat:
  "cleanupInternalHosts r utsas = for_each (\<lambda>(utsa, sa). cleanup_internal_account r utsa sa)
     (concat (map (\<lambda>utsa. map (Pair utsa) (specServiceAccounts (utsaSpec utsa))) utsas))"
  by (simp add: cleanupInternalHosts_def cleanup_internal_account_def for_each_concat [symmetric] for_each_map)

context kube_api
begin

lemma del_cleanup_internal:
  assumes r: "irClient r = c"
  shows "safe (on_store store deletes) (cleanup_internal_account r utsa sa)"
  unfolding cleanup_internal_account_def r
  by (intro del.safe_bind del.safe_for_each) (auto intro!: del.safe_bind)

lemma off_cleanup_internal:
  assumes r: "irClient r = c" and D: "stale_internal m0 utsa sa \<subseteq> D"
  shows "safe (on_store store (off_from m0 D)) (cleanup_internal_account r utsa sa)"
  unfolding cleanup_internal_account_def r
proof (rule safe_List_off [where P = "\<lambda>ob. \<not> containsHost ob (usaInternalAllowlist sa)"], goal_cases)
  case (1 ref ob)
  with D show ?case by (auto simp: stale_internal_def containsHost_iff)
next
  case (2 obs)
  then show ?case by (auto intro!: frame.safe_for_each frame.safe_bind frame_Delete)
qed

end

context kube_fresh
begin

lemma cleanup_internal_gone:
  assumes r: "irClient r = c" and run: "cleanup_internal_account r utsa sa w = (Ok v, w')"
    and start: "deletes m0 (store (ext w))" and ref: "ref \<in> stale_internal m0 utsa sa"
  shows "gone (store (ext w')) ref"
proof -
  let ?lo = "egress_opts (internal_labels utsa sa)"
  let ?body = "\<lambda>host. if \<not> containsHost host (usaInternalAllowlist sa)
    then go_bind (k8s_Delete c host) check_error else go_return ()"
  from ref obtain ob where ob: "m0 ref = Some ob" "kind_of ob = AuthorizationPolicyKind"
    "lo_matches ?lo ob" "\<not> containsHost ob (usaInternalAllowlist sa)"
    by (auto simp: stale_internal_def containsHost_iff)
  from run obtain items w1 where list: "k8s_List c AuthorizationPolicyKind ?lo w = (Ok (Inr items), w1)"
    and loop: "for_each ?body items w1 = (Ok (), w')"
    unfolding cleanup_internal_account_def r by (auto elim!: go_bind_OkE)
  have "ok_post (\<lambda>_. True) (for_each ?body items) (\<lambda>_ w. True \<and>
      (\<forall>x \<in> set items. containsHost x (usaInternalAllowlist sa) \<or> gone (store (ext w)) (ref_of x)))"
  proof (rule ok_post_for_each [where R = "on_store store deletes"])
    show "ok_post (\<lambda>_. True) (?body x)
        (\<lambda>_ w. containsHost x (usaInternalAllowlist sa) \<or> gone (store (ext w)) (ref_of x))" for x
      using Delete_gone by (auto simp: ok_post_def elim!: go_bind_OkE)
    show "safe (on_store store deletes) (?body x)" for x
      by (auto intro!: del.safe_bind)
    show "containsHost x (usaInternalAllowlist sa) \<or> gone (store (ext w3)) (ref_of x)"
      if "containsHost x (usaInternalAllowlist sa) \<or> gone (store (ext w2)) (ref_of x)"
        "on_store store deletes w2 w3" for x w2 w3
      using that deletes_gone unfolding on_store_def by blast
  qed simp
  from ok_postD [OF this TrueI loop] have all: "gone (store (ext w')) (ref_of x)"
    if "x \<in> set items" "\<not> containsHost x (usaInternalAllowlist sa)" for x
    using that by blast
  from start ob(1) show ?thesis
  proof (cases rule: deletes_cases)
    case gone
    from safeD [OF del_cleanup_internal [OF r] run] gone show ?thesis
      unfolding on_store_def by (rule deletes_gone)
  next
    case (there ob')
    with list ob have "ob' \<in> set items" by (auto intro: List_completeD)
    moreover have "\<not> containsHost ob' (usaInternalAllowlist sa)"
      using ob(4) there(3) by (simp add: containsHost_iff)
    moreover have "ref_of ob' = ref" using there(1) by (rule store_ref)
    ultimately show ?thesis using all by auto
  qed
qed

lemma cleanupInternalHosts_run:
  assumes r: "irClient r = c"
  shows "safe (on_store store (off_from m0 (all_stale_internal m0 utsas))) (cleanupInternalHosts r utsas)"
    and "ok_post (\<lambda>w. deletes m0 (store (ext w))) (cleanupInternalHosts r utsas)
      (\<lambda>_ w. \<forall>ref \<in> all_stale_internal m0 utsas. gone (store (ext w)) ref)"
proof -
  let ?xs = "concat (map (\<lambda>utsa. map (Pair utsa) (specServiceAccounts (utsaSpec utsa))) utsas)"
  let ?body = "\<lambda>(utsa, sa). cleanup_internal_account r utsa sa"
  let ?Q = "\<lambda>(utsa, sa) w. \<forall>ref \<in> stale_internal m0 utsa sa. gone (store (ext w)) ref"
  show "safe (on_store store (off_from m0 (all_stale_internal m0 utsas))) (cleanupInternalHosts r utsas)"
    unfolding cleanupInternalHosts_flat
    by (rule off.safe_for_each) (auto simp: all_stale_internal_def intro!: off_cleanup_internal r)
  have "ok_post (\<lambda>w. deletes m0 (store (ext w))) (for_each ?body ?xs)
      (\<lambda>_ w. deletes m0 (store (ext w)) \<and> (\<forall>x \<in> set ?xs. ?Q x w))"
  proof (rule ok_post_for_each [where R = "on_store store deletes"])
    show "ok_post (\<lambda>w. deletes m0 (store (ext w))) (?body x) (\<lambda>_. ?Q x)" for x
      using cleanup_internal_gone [OF r] by (auto simp: ok_post_def split: prod.splits)
    show "safe (on_store store deletes) (?body x)" for x
      by (auto intro: del_cleanup_internal r split: prod.splits)
    show "deletes m0 (store (ext w2))"
      if "deletes m0 (store (ext w1))" "on_store store deletes w1 w2" for w1 w2
      using that deletes_trans unfolding on_store_def by blast
    show "?Q x w2" if "?Q x w1" "on_store store deletes w1 w2" for x w1 w2
      using that deletes_gone unfolding on_store_def by (cases x) blast
  qed
  then show "ok_post (\<lambda>w. deletes m0 (store (ext w))) (cleanupInternalHosts r utsas)
      (\<lambda>_ w. \<forall>ref \<in> all_stale_internal m0 utsas. gone (store (ext w)) ref)"
    unfolding cleanupInternalHosts_flat
    by (rule ok_post_weaken) (auto simp: all_stale_internal_def)
qed

end

text \<open>
  C14. \<open>cleanupInternalHosts\<close> deletes the internal policies of an account whose parent
  host (the on-premises host a policy, or the policy of one of its virtual addresses, was
  made for) is not on the account's internal allowlist, and nothing else: every other
  object stays as it is whatever the outcome, and all of those policies are gone when no
  error is returned. An account that two resources list is judged by each of them.
\<close>

theorem cleanupInternalHosts_exact:
  assumes "kube_fresh (irClient r) store"
    and "D = all_stale_internal (store (ext w)) utsas"
  shows "case cleanupInternalHosts r utsas w of (res, w') \<Rightarrow>
     same_off D (store (ext w)) (store (ext w'))
     \<and> (res = Ok () \<longrightarrow> (\<forall>ref \<in> D. gone (store (ext w')) ref))"
proof -
  obtain res w' where run: "cleanupInternalHosts r utsas w = (res, w')"
    by (cases "cleanupInternalHosts r utsas w")
  from safeD [OF kube_fresh.cleanupInternalHosts_run(1) [OF assms(1) refl] run, of "store (ext w)"]
  have "same_off D (store (ext w)) (store (ext w'))"
    by (simp add: on_store_def off_from_def assms(2))
  moreover have "gone (store (ext w')) ref" if "res = Ok ()" "ref \<in> D" for ref
    using ok_postD [OF kube_fresh.cleanupInternalHosts_run(2) [OF assms(1) refl], of "store (ext w)"]
      run that assms(2) by (metis deletes_refl)
  ultimately show ?thesis using run by simp
qed

definition example_internal_policy :: object where
  "example_internal_policy = AuthorizationPolicyObj
     \<lparr>apMeta = new_meta ''proj-dev-sa-db'' ''istio-egress''
        [''project'' \<mapsto> ''proj'', ''domain'' \<mapsto> ''dev'', ''service-account'' \<mapsto> ''sa'',
         ''host-type'' \<mapsto> ''internal'', ''host'' \<mapsto> ''10.0.0.1'', ''parent-host'' \<mapsto> ''db.intern''],
      apAction = ALLOW, apRules = []\<rparr>"

text \<open>The policy of a virtual address goes with its parent host.\<close>

theorem cleanupInternalHosts_exact_witness:
  "gone (mem_store (ext (snd (cleanupInternalHosts example_istio
      [example_utsa [saUnionServiceAccount example_sa]] (example_world [example_internal_policy])))))
    (ref_of example_internal_policy)"
proof -
  let ?utsa = "example_utsa [saUnionServiceAccount example_sa]"
  let ?w = "example_world [example_internal_policy]"
  let ?run = "cleanupInternalHosts example_istio [?utsa] ?w"
  have "fst ?run = Ok ()"
    by (simp add: cleanupInternalHosts_def internal_labels_def example_istio_def example_utsa_def
        example_world_def example_internal_policy_def example_sa_def egress_opts_def
        inEgressNamespace_def hostTypeLabelInternal_def EgressNamespace_def map_get_def mem_eval)
  then obtain w' where run: "?run = (Ok (), w')" by (metis prod.collapse)
  have "ref_of example_internal_policy \<in> all_stale_internal (mem_store (ext ?w)) [?utsa]"
    by (auto simp: all_stale_internal_def stale_internal_def internal_labels_def egress_matches
        example_utsa_def example_sa_def example_world_def example_internal_policy_def mem_store_def
        mem_objects_def removable_def ref_of_def EgressNamespace_def hostTypeLabelInternal_def)
  then show ?thesis
    using cleanupInternalHosts_exact [OF example_istio_fresh refl, of ?w "[?utsa]"] run by simp
qed

end
