(* ===== verification/StageFrames.thy ===== *)
theory StageFrames
  imports ServiceAccounts IstioCleanup
begin

text \<open>
  Which kinds of objects each stage of a reconciliation may change. The service-account
  stages write service accounts and IAM resources, the Istio stages write Istio resources;
  neither touches the resources of the other or the UnionTeamServiceAccounts themselves,
  which is what lets the results of the stages be put together in \<open>Controller\<close>.
\<close>

section \<open>Frames by kind\<close>

definition of_kinds :: "kind set \<Rightarrow> obj_ref set" where
  "of_kinds K = {ref. fst ref \<in> K}"

lemma ref_of_kinds [simp]: "ref_of ob \<in> of_kinds K \<longleftrightarrow> kind_of ob \<in> K"
  by (simp add: of_kinds_def ref_of_def)

lemma in_of_kinds [simp]: "(k, key) \<in> of_kinds K \<longleftrightarrow> k \<in> K"
  by (simp add: of_kinds_def)

abbreviation changes_kinds :: "('s \<Rightarrow> contents) \<Rightarrow> kind set \<Rightarrow> ('s world, 'a) go \<Rightarrow> bool" where
  "changes_kinds store K m \<equiv> safe (on_store store (same_off (of_kinds K))) m"

definition sa_kinds :: "kind set" where
  "sa_kinds = {ServiceAccountKind, IAMServiceAccountKind, IAMPolicyMemberKind}"

definition istio_kinds :: "kind set" where
  "istio_kinds = {GatewayKind, ServiceEntryKind, VirtualServiceKind, DestinationRuleKind,
     AuthorizationPolicyKind}"

lemma sa_kinds_simps [simp]:
  "ServiceAccountKind \<in> sa_kinds" "IAMServiceAccountKind \<in> sa_kinds" "IAMPolicyMemberKind \<in> sa_kinds"
  "UTSAKind \<notin> sa_kinds"
  by (simp_all add: sa_kinds_def)

lemma istio_kinds_simps [simp]:
  "GatewayKind \<in> istio_kinds" "ServiceEntryKind \<in> istio_kinds" "VirtualServiceKind \<in> istio_kinds"
  "DestinationRuleKind \<in> istio_kinds" "AuthorizationPolicyKind \<in> istio_kinds"
  "UTSAKind \<notin> istio_kinds" "ServiceAccountKind \<notin> istio_kinds" "IAMPolicyMemberKind \<notin> istio_kinds"
  by (simp_all add: istio_kinds_def)

lemma same_off_upd [simp]: "ref \<in> F \<Longrightarrow> same_off F m (m(ref := x))"
  by (auto simp: same_off_def)

lemma write_of_kinds:
  assumes "kind_of ob \<in> K"
  shows "created ob m m' \<Longrightarrow> same_off (of_kinds K) m m'"
    and "updated ob ob' m m' \<Longrightarrow> same_off (of_kinds K) m m'"
    and "patched ob base m m' \<Longrightarrow> same_off (of_kinds K) m m'"
    and "upserted ob f m m' \<Longrightarrow> same_off (of_kinds K) m m'"
  using assms by (auto simp: created_def updated_def patched_def upserted_def stored_as_def)

lemma safe_branches:
  "safe R m \<Longrightarrow> safe R n \<Longrightarrow> safe R (if b then m else n)"
  "safe R m \<Longrightarrow> (\<And>x. safe R (f x)) \<Longrightarrow> safe R (case y of None \<Rightarrow> m | Some x \<Rightarrow> f x)"
  "(\<And>e. safe R (g e)) \<Longrightarrow> (\<And>x. safe R (h x)) \<Longrightarrow> safe R (case z of Inl e \<Rightarrow> g e | Inr x \<Rightarrow> h x)"
  "safe R m \<Longrightarrow> (\<And>x xs. safe R (k x xs)) \<Longrightarrow> safe R (case l of [] \<Rightarrow> m | x # xs \<Rightarrow> k x xs)"
  by (simp_all split: option.splits sum.splits list.splits)

context kube_api
begin

lemma kinds_reads:
  "changes_kinds store K (k8s_Get c k key)"
  "changes_kinds store K (k8s_List c k lo)"
  by (auto intro: safe_Get safe_List)

lemma kinds_writes:
  assumes "kind_of ob \<in> K"
  shows "changes_kinds store K (k8s_Create c ob)"
    and "changes_kinds store K (k8s_Update c ob)"
    and "changes_kinds store K (k8s_Patch c ob base)"
    and "changes_kinds store K (k8s_Delete c ob)"
    and "changes_kinds store K (k8s_CreateOrUpdate c ob f)"
  using assms
  by (auto intro: safe_Create safe_Update safe_Patch frame_Delete safe_CreateOrUpdate write_of_kinds)

lemma kinds_check:
  "changes_kinds store K (check_reply r)" "changes_kinds store K (check_error u)"
  by simp_all

text \<open>An answer has the kind that was asked for.\<close>

lemma kinds_Get:
  assumes f: "\<And>e. changes_kinds store K (f e)"
    and g: "\<And>ob. kind_of ob = k \<Longrightarrow> changes_kinds store K (g ob)"
  shows "changes_kinds store K (go_bind (k8s_Get c k key)
    (\<lambda>reply. case reply of Inl e \<Rightarrow> f e | Inr ob \<Rightarrow> g ob))"
proof (rule frame.safe_bind_Ok)
  fix x w w'
  assume "k8s_Get c k key w = (Ok x, w')"
  then show "changes_kinds store K (case x of Inl e \<Rightarrow> f e | Inr ob \<Rightarrow> g ob)"
    using f g by (cases x) (auto elim!: Get_OkD dest: stored_kind)
qed (rule kinds_reads)

lemma kinds_List:
  assumes "\<And>obs. (\<And>ob. ob \<in> set obs \<Longrightarrow> kind_of ob = k) \<Longrightarrow> changes_kinds store K (f obs)"
  shows "changes_kinds store K (go_bind (go_bind (k8s_List c k lo) check_reply) f)"
proof (rule frame.safe_bind_Ok)
  fix obs w w'
  assume "go_bind (k8s_List c k lo) check_reply w = (Ok obs, w')"
  then have "\<And>ob. ob \<in> set obs \<Longrightarrow> kind_of ob = k"
    by (auto elim!: go_bind_OkE elim: List_OkD)
  then show "changes_kinds store K (f obs)" by (rule assms)
qed (rule frame.safe_bind kinds_reads kinds_check)+

lemmas kinds_rules =
  kinds_Get kinds_List frame.safe_rules safe_branches kinds_reads kinds_writes kinds_check
  frame.safe_return frame.safe_err frame.safe_panic frame.safe_Join

section \<open>The service-account stages\<close>

lemma kinds_createIAMPolicyMember:
  assumes r: "sarClient r = c"
  shows "changes_kinds store sa_kinds (createIAMPolicyMember r u opts)"
  unfolding createIAMPolicyMember_def r
  by (rule kinds_rules | simp add: setUnionMetadata_OkD newIAMPolicyMember_def)+

lemma kinds_reconcileIAMServiceAccount:
  assumes r: "sarClient r = c"
  shows "changes_kinds store sa_kinds (reconcileIAMServiceAccount r sa)"
  unfolding reconcileIAMServiceAccount_def r
  by (rule kinds_rules | simp add: setUnionMetadata_OkD)+

lemma kinds_cleanupServiceAccount:
  assumes r: "sarClient r = c"
  shows "changes_kinds store sa_kinds (cleanupServiceAccount r sa)"
  unfolding cleanupServiceAccount_def cleanupIAMPolicyMembers_def r Let_def
  by (rule kinds_rules | simp)+

lemma kinds_cleanup_existing:
  assumes r: "sarClient r = c" and ob: "kind_of ob = ServiceAccountKind"
  shows "changes_kinds store sa_kinds (cleanup_existing r u ob errs)"
  unfolding cleanup_existing_def r
  by (rule kinds_rules kinds_cleanupServiceAccount [OF r] | simp add: ob)+

lemma kinds_CleanupRemovedServiceAccounts:
  assumes r: "sarClient r = c"
  shows "changes_kinds store sa_kinds (CleanupRemovedServiceAccounts r u sas)"
  unfolding CleanupRemovedServiceAccounts_def r
  by (rule kinds_rules kinds_cleanup_existing [OF r] | simp)+

lemma kinds_CreateOrUpdateServiceAccounts:
  assumes r: "sarClient r = c"
  shows "changes_kinds store sa_kinds (CreateOrUpdateServiceAccounts r u sas)"
  unfolding CreateOrUpdateServiceAccounts_def reconcileServiceAccountForDomain_def
    createIAMPolicyMembers_def cleanupRemovedServiceAccounts_eq reconcileServiceAccount_def r
  by (rule kinds_rules kinds_reconcileIAMServiceAccount [OF r] kinds_createIAMPolicyMember [OF r]
      kinds_CleanupRemovedServiceAccounts [OF r] | simp add: newK8sServiceAccount_def)+

section \<open>The Istio stages\<close>

lemma kinds_gateway:
  assumes r: "irClient r = c"
  shows "changes_kinds store istio_kinds (ensureGatewayExists r gw h)"
    and "changes_kinds store istio_kinds (ensureGatewayContainsHost r gw h)"
  unfolding ensureGatewayExists_def ensureGatewayContainsHost_def r Let_def
  by (rule kinds_rules | simp)+

lemma kinds_exists:
  assumes r: "irClient r = c"
  shows "changes_kinds store K (exists_in_egress r k labels)"
    and "changes_kinds store K (virtualServiceExists r name)"
  unfolding exists_in_egress_def virtualServiceExists_def r by (rule kinds_rules)+

lemma kinds_create_unless:
  assumes r: "irClient r = c" and "changes_kinds store K check" and "kind_of ob \<in> K"
  shows "changes_kinds store K (create_unless r check ob)"
  unfolding create_unless_def r using assms(2,3) by (intro kinds_rules)

lemma kinds_ensureExternalHost:
  assumes r: "irClient r = c"
  shows "changes_kinds store istio_kinds (ensureExternalHost r h)"
    and "changes_kinds store istio_kinds (ensureCloudSQLHost r q)"
  unfolding ensureExternalHost_def ensureCloudSQLHost_def destinationRuleToGatewayExists_def
    destinationRuleFromGatewayExists_def serviceEntryExists_def createServiceEntry_def r
  by (rule kinds_rules kinds_gateway [OF r] kinds_create_unless [OF r] kinds_exists [OF r]
      | simp only: kind_of.simps istio_kinds_simps)+

lemma kinds_EnsureHosts:
  assumes r: "irClient r = c"
  shows "changes_kinds store istio_kinds (EnsureExternalHosts r sas)"
    and "changes_kinds store istio_kinds (EnsureCloudSQLHosts r sas)"
  unfolding EnsureExternalHosts_def EnsureCloudSQLHosts_def
  by (rule kinds_rules kinds_ensureExternalHost [OF r])+

text \<open>Stages that are about policies only change policies.\<close>

lemma kinds_EnsureAuthorizationPolicies:
  assumes r: "irClient r = c" and K: "AuthorizationPolicyKind \<in> K"
  shows "changes_kinds store K (EnsureAuthorizationPolicies r sas)"
proof -
  have "changes_kinds store K (ensureAuthorizationPolicyForHost r sa apd parent protocol t)"
    for sa apd parent protocol t
    unfolding ensureAuthorizationPolicyForHost_def Let_def r by (rule kinds_rules | simp add: K)+
  then show ?thesis
    unfolding EnsureAuthorizationPolicies_def ensure_internal_policies_def by (intro kinds_rules)
qed

lemma kinds_delete_policy:
  assumes r: "irClient r = c" and ob: "kind_of ob \<in> K"
  shows "changes_kinds store K (delete_policy r ob errs)"
  unfolding delete_policy_def r by (rule kinds_rules | simp add: ob)+

lemma kinds_CleanupPolicies:
  assumes r: "irClient r = c" and K: "AuthorizationPolicyKind \<in> K"
  shows "changes_kinds store K (CleanupRemovedServiceAccountAuthzPolicies r utsa)"
    and "changes_kinds store K (IstioCleanup.CleanupAllResources r utsa)"
  unfolding CleanupRemovedServiceAccountAuthzPolicies_def IstioCleanup.CleanupAllResources_def
    CleanupUTSAServiceAccountAuthzPolicies_def r Let_def
  by (rule kinds_rules kinds_delete_policy [OF r] | simp add: K)+

lemma kinds_cleanupInternalHosts:
  assumes r: "irClient r = c" and K: "AuthorizationPolicyKind \<in> K"
  shows "changes_kinds store K (cleanupInternalHosts r utsas)"
  unfolding cleanupInternalHosts_def r by (rule kinds_rules | simp add: K)+

lemma kinds_remove_unused:
  assumes r: "irClient r = c" and K: "set resource_kinds \<subseteq> K"
  shows "changes_kinds store K (remove_unused r inUse hosts)"
proof -
  have step: "changes_kinds store K (removeByHostLabel r host k)" if "k \<in> K" for host k
    unfolding removeByHostLabel_def r by (rule kinds_rules | simp add: that)+
  show ?thesis
    unfolding remove_unused_def removeExternalHost_def resource_kinds_def [symmetric]
    by (rule kinds_rules step | use K in force)+
qed

lemma resource_istio: "set resource_kinds \<subseteq> istio_kinds"
  by (auto simp: resource_kinds_def istio_kinds_def)

lemma kinds_servers:
  assumes r: "irClient r = c"
  shows "changes_kinds store istio_kinds (external_servers aliased r inUse is attached servers g)"
    and "changes_kinds store istio_kinds (cloudsql_servers aliased r inUse is attached servers g)"
proof (induction "is" arbitrary: attached servers g)
  case (Cons i "is")
  case 1
  show ?case
    unfolding external_servers.simps r Let_def
    by (rule kinds_rules kinds_remove_unused [OF r resource_istio] Cons.IH | simp)+
  case 2
  show ?case
    unfolding cloudsql_servers.simps r Let_def
    by (rule kinds_rules kinds_remove_unused [OF r resource_istio] Cons.IH | simp)+
qed simp_all

lemma kinds_CleanupUnusedHosts:
  assumes r: "irClient r = c"
  shows "changes_kinds store istio_kinds (CleanupUnusedHosts aliased r)"
  unfolding CleanupUnusedHosts_def cleanupExternalHosts_def cleanupCloudSQLHosts_def r Let_def
  by (rule kinds_rules kinds_cleanupInternalHosts [OF r] kinds_servers [OF r] | simp)+

end

section \<open>Policies only go away\<close>

text \<open>Of the objects of the kinds \<open>K\<close>, none appears and none changes but to be deleted.\<close>

definition deletes_of :: "kind set \<Rightarrow> contents \<Rightarrow> contents \<Rightarrow> bool" where
  "deletes_of K m m' \<longleftrightarrow> deletes (m |` of_kinds K) (m' |` of_kinds K)"

lemma deletes_of_refl [simp]: "deletes_of K m m"
  by (simp add: deletes_of_def)

interpretation del_of: effect_order "on_store store (deletes_of K)" for store K
  by (rule effect_order_on_store) (auto simp: deletes_of_def intro: deletes_trans)

lemma deletes_deletes_of: "deletes m m' \<Longrightarrow> deletes_of K m m'"
  by (auto simp: deletes_of_def deletes_def restrict_map_def)

lemma updated_deletes_of: "updated ob ob' m m' \<Longrightarrow> kind_of ob \<notin> K \<Longrightarrow> deletes_of K m m'"
  by (auto simp: updated_def deletes_of_def)

context kube_api
begin

lemma del_of_calls:
  "safe (on_store store (deletes_of K)) (k8s_Get c k key)"
  "safe (on_store store (deletes_of K)) (k8s_List c k lo)"
  "safe (on_store store (deletes_of K)) (k8s_Delete c ob)"
  "safe (on_store store (deletes_of K)) (check_reply reply)"
  "safe (on_store store (deletes_of K)) (check_error u)"
proof -
  show "safe (on_store store (deletes_of K)) (k8s_Delete c ob)"
    by (rule safe_Delete) (auto intro: deletes_deletes_of deleted_deletes)
qed (auto intro: safe_Get safe_List)

lemma del_of_Update: "kind_of ob \<notin> K \<Longrightarrow> safe (on_store store (deletes_of K)) (k8s_Update c ob)"
  by (rule safe_Update) (auto intro: updated_deletes_of)

lemmas del_of_rules =
  del_of.safe_rules safe_branches del_of_calls del_of_Update
  del_of.safe_return del_of.safe_err del_of.safe_panic del_of.safe_Join

lemma del_of_remove_unused:
  assumes r: "irClient r = c"
  shows "safe (on_store store (deletes_of K)) (remove_unused r inUse hosts)"
  unfolding remove_unused_def removeExternalHost_def removeByHostLabel_def r
  by (rule del_of_rules)+

lemma del_of_servers:
  assumes r: "irClient r = c"
  shows "safe (on_store store (deletes_of {AuthorizationPolicyKind}))
      (external_servers aliased r inUse is attached servers g)"
    and "safe (on_store store (deletes_of {AuthorizationPolicyKind}))
      (cloudsql_servers aliased r inUse is attached servers g)"
proof (induction "is" arbitrary: attached servers g)
  case (Cons i "is")
  case 1
  show ?case
    unfolding external_servers.simps r Let_def
    by (rule del_of_rules del_of_remove_unused [OF r] Cons.IH | simp)+
  case 2
  show ?case
    unfolding cloudsql_servers.simps r Let_def
    by (rule del_of_rules del_of_remove_unused [OF r] Cons.IH | simp)+
qed simp_all

lemma del_of_CleanupUnusedHosts:
  assumes r: "irClient r = c"
  shows "safe (on_store store (deletes_of {AuthorizationPolicyKind})) (CleanupUnusedHosts aliased r)"
  unfolding CleanupUnusedHosts_def cleanupExternalHosts_def cleanupCloudSQLHosts_def
    cleanupInternalHosts_def r Let_def
  by (rule del_of_rules del_of_servers [OF r] | simp)+

end

text \<open>So a set of policies that is gone stays gone, and no new one joins it.\<close>

lemma deletes_of_policies:
  assumes del: "deletes_of {AuthorizationPolicyKind} m m'"
    and all: "\<And>ref. ref \<in> env_policies m utsa P \<Longrightarrow> gone m ref"
    and ref: "(AuthorizationPolicyKind, key) \<in> env_policies m' utsa P"
  shows "gone m' (AuthorizationPolicyKind, key)"
proof -
  let ?K = "of_kinds {AuthorizationPolicyKind}" and ?ref = "(AuthorizationPolicyKind, key)"
  from ref obtain ob where ob: "m' ?ref = Some ob" by (auto simp: env_policies_def)
  have "(m' |` ?K) ?ref = (m |` ?K) ?ref \<or> (m' |` ?K) ?ref = None
      \<or> (\<exists>t old. (m |` ?K) ?ref = Some old \<and> (m' |` ?K) ?ref = Some (terminating t old))"
    using del unfolding deletes_of_def deletes_def by (rule spec)
  then have "m ?ref = Some ob \<or> (\<exists>t old. m ?ref = Some old \<and> ob = terminating t old)"
    by (simp add: ob) (metis option.inject)
  then obtain old where old: "m ?ref = Some old" "ob = old \<or> (\<exists>t. ob = terminating t old)"
    by blast
  from ref ob old have "?ref \<in> env_policies m utsa P" by (auto simp: env_policies_def)
  then have "gone (m |` ?K) ?ref" using all by (simp add: gone_def)
  with del have "gone (m' |` ?K) ?ref" unfolding deletes_of_def by (rule deletes_gone)
  then show ?thesis by (simp add: gone_def)
qed

end
