(* ===== verification/Persist.thy ===== *)
theory Persist
  imports MemStore
begin

text \<open>
  \<^verbatim>\<open>internal/persist\<close>: the history of the allowlists, one row per service account and
  reconciliation, streamed into a BigQuery table.

  The BigQuery client is third-party code, a record of functions over the same external
  state as the Kubernetes client; every call goes to the log. What the rest of the
  operator relies on is the interface \<^verbatim>\<open>AllowlistPersister\<close>, stated as the locale
  \<open>allowlist_persister\<close>: persisting makes no calls to the cluster and leaves its contents
  alone. The \<open>Persister\<close> provides it.
\<close>

section \<open>The BigQuery client\<close>

record 's bigquery =
  bqNewClient :: "string \<Rightarrow> 's \<Rightarrow> bq_error option \<times> 's"
  bqCreate :: "string \<Rightarrow> string \<Rightarrow> string \<Rightarrow> bq_field list \<Rightarrow> 's \<Rightarrow> bq_error option \<times> 's"
  bqPut :: "string \<Rightarrow> string \<Rightarrow> string \<Rightarrow> AllowlistTableEntry \<Rightarrow> 's \<Rightarrow> bq_error option \<times> 's"
  bqClose :: "'s \<Rightarrow> bq_error option \<times> 's"

definition bq_NewClient :: "'s bigquery \<Rightarrow> string \<Rightarrow> ('s world, bq_error option) go" where
  "bq_NewClient bq projectID = call (bqNewClient bq projectID) (EBQNewClient projectID)"

definition bq_Create ::
    "'s bigquery \<Rightarrow> string \<Rightarrow> string \<Rightarrow> string \<Rightarrow> bq_field list \<Rightarrow> ('s world, bq_error option) go" where
  "bq_Create bq p d t schema = call (bqCreate bq p d t schema) (EBQCreateTable p d t schema)"

definition bq_Put ::
    "'s bigquery \<Rightarrow> string \<Rightarrow> string \<Rightarrow> string \<Rightarrow> AllowlistTableEntry \<Rightarrow> ('s world, bq_error option) go" where
  "bq_Put bq p d t entry = call (bqPut bq p d t entry) (EBQPut p d t entry)"

definition bq_Close :: "'s bigquery \<Rightarrow> ('s world, bq_error option) go" where
  "bq_Close bq = call (bqClose bq) EBQClose"

definition check_bq :: "bq_error option \<Rightarrow> ('w, unit) go" where
  "check_bq r = (case r of Some e \<Rightarrow> go_err (BigQueryError e) | None \<Rightarrow> go_return ())"

section \<open>The persister (\<^verbatim>\<open>persist.go\<close>)\<close>

record BigQuery =
  bqProjectID :: string
  bqDatasetID :: string
  bqTableID :: string

record Persister =
  BigQuerySink :: BigQuery

definition NewPersister :: "BigQuery \<Rightarrow> Persister" where
  "NewPersister sink = \<lparr>BigQuerySink = sink\<rparr>"

definition allowlist_schema :: "bq_field list" where
  "allowlist_schema =
     [\<lparr>fieldName = ''team'', fieldType = StringFieldType, fieldRequired = True, fieldRepeated = False\<rparr>,
      \<lparr>fieldName = ''environment'', fieldType = StringFieldType, fieldRequired = True, fieldRepeated = False\<rparr>,
      \<lparr>fieldName = ''serviceaccount'', fieldType = StringFieldType, fieldRequired = True, fieldRepeated = False\<rparr>,
      \<lparr>fieldName = ''internalallowlist'', fieldType = StringFieldType, fieldRequired = False, fieldRepeated = True\<rparr>,
      \<lparr>fieldName = ''externalallowlist'', fieldType = StringFieldType, fieldRequired = False, fieldRepeated = True\<rparr>,
      \<lparr>fieldName = ''cloudsqlallowlist'', fieldType = StringFieldType, fieldRequired = False, fieldRepeated = True\<rparr>,
      \<lparr>fieldName = ''githubactor'', fieldType = StringFieldType, fieldRequired = False, fieldRepeated = False\<rparr>,
      \<lparr>fieldName = ''githubrepo'', fieldType = StringFieldType, fieldRequired = False, fieldRepeated = False\<rparr>,
      \<lparr>fieldName = ''githubhash'', fieldType = StringFieldType, fieldRequired = False, fieldRepeated = False\<rparr>,
      \<lparr>fieldName = ''createdtimestamp'', fieldType = TimestampFieldType, fieldRequired = True, fieldRepeated = False\<rparr>]"

text \<open>\<^verbatim>\<open>errors.As\<close> finds a \<^verbatim>\<open>googleapi.Error\<close>; code 409 says that the table exists.\<close>

definition createAllowlistTableIfNotExists ::
    "'s bigquery \<Rightarrow> string \<Rightarrow> string \<Rightarrow> string \<Rightarrow> ('s world, unit) go" where
  "createAllowlistTableIfNotExists bq projectID datasetID tableID =
     go_bind (bq_Create bq projectID datasetID tableID allowlist_schema)
       (\<lambda>err. case err of
          Some (GoogleApiError code) \<Rightarrow>
            if code = 409 then go_return () else go_err (BigQueryError (GoogleApiError code))
        | _ \<Rightarrow> check_bq err)"

definition extractAllowlistForServiceAccount ::
    "AllowlistTableEntry \<Rightarrow> UnionServiceAccount \<Rightarrow> AllowlistTableEntry" where
  "extractAllowlistForServiceAccount tableEntry sa =
     \<lparr>ateTeam = ateTeam tableEntry,
      ateEnvironment = ateEnvironment tableEntry,
      ateServiceAccount = usaName sa,
      ateInternalAllowlist = map hostHost (usaInternalAllowlist sa),
      ateExternalAllowlist = map hostHost (usaExternalAllowlist sa),
      ateCloudSQLAllowlist = map sqlIP (usaCloudSQL sa),
      ateGithubActor = ateGithubActor tableEntry,
      ateGithubRepo = ateGithubRepo tableEntry,
      ateGithubHash = ateGithubHash tableEntry,
      ateCreatedTimestamp = ateCreatedTimestamp tableEntry\<rparr>"

definition base_entry :: "UnionTeamServiceAccounts \<Rightarrow> AllowlistTableEntry" where
  "base_entry utsa =
     (let annotations = metaAnnotations (utsaMeta utsa) in
      \<lparr>ateTeam = specProject (utsaSpec utsa),
       ateEnvironment = specDomain (utsaSpec utsa),
       ateServiceAccount = [],
       ateInternalAllowlist = [],
       ateExternalAllowlist = [],
       ateCloudSQLAllowlist = [],
       ateGithubActor = map_get annotations ''data.nav.no/github.actor'',
       ateGithubRepo = map_get annotations ''data.nav.no/github.repository'',
       ateGithubHash = map_get annotations ''data.nav.no/github.sha'',
       ateCreatedTimestamp = Some (metaCreationTimestamp (utsaMeta utsa))\<rparr>)"

text \<open>
  \<^verbatim>\<open>defer func() { if cerr := bqClient.Close(); cerr != nil && err == nil { err = cerr } }()\<close>:
  the client is closed on every way out, and its error is returned if there was no other.
\<close>

definition defer_close :: "'s bigquery \<Rightarrow> ('s world, unit) go \<Rightarrow> ('s world, unit) go" where
  "defer_close bq body = (\<lambda>w.
     case body w of (res, w1) \<Rightarrow>
       (case bq_Close bq w1 of
          (Ok cerr, w2) \<Rightarrow> (case (res, cerr) of
              (Ok u, Some e) \<Rightarrow> Err (BigQueryError e)
            | _ \<Rightarrow> res, w2)
        | (_, w2) \<Rightarrow> (res, w2)))"

definition PersistAllowlist ::
    "'s bigquery \<Rightarrow> Persister \<Rightarrow> UnionTeamServiceAccounts \<Rightarrow> ('s world, unit) go" where
  "PersistAllowlist bq p utsa =
     (let sink = BigQuerySink p in
      go_bind (bq_NewClient bq (bqProjectID sink))
        (\<lambda>err. case err of
           Some e \<Rightarrow> go_err (BigQueryError e)
         | None \<Rightarrow> defer_close bq
             (go_seq (createAllowlistTableIfNotExists bq (bqProjectID sink) (bqDatasetID sink) (bqTableID sink))
               (for_each (\<lambda>sa.
                  go_bind (bq_Put bq (bqProjectID sink) (bqDatasetID sink) (bqTableID sink)
                      (extractAllowlistForServiceAccount (base_entry utsa) sa)) check_bq)
                 (specServiceAccounts (utsaSpec utsa))))))"

section \<open>What a run sends\<close>

definition allowlist_rows :: "UnionTeamServiceAccounts \<Rightarrow> AllowlistTableEntry list" where
  "allowlist_rows utsa =
     map (extractAllowlistForServiceAccount (base_entry utsa)) (specServiceAccounts (utsaSpec utsa))"

fun stored_row :: "event \<Rightarrow> AllowlistTableEntry list" where
  "stored_row (EBQPut _ _ _ row None) = [row]"
| "stored_row _ = []"

definition stored_rows :: "event list \<Rightarrow> AllowlistTableEntry list" where
  "stored_rows es = concat (map stored_row es)"

lemma stored_rows_simps [simp]:
  "stored_rows [] = []"
  "stored_rows (e # es) = stored_row e @ stored_rows es"
  "stored_rows (es @ fs) = stored_rows es @ stored_rows fs"
  by (simp_all add: stored_rows_def)

lemma stored_rows_puts [simp]: "stored_rows (map (\<lambda>r. EBQPut p d t r None) rows) = rows"
  by (induction rows) simp_all

definition table_ready :: "bq_error option \<Rightarrow> bool" where
  "table_ready reply \<longleftrightarrow> reply = None \<or> reply = Some (GoogleApiError 409)"

lemma bq_NewClient_run:
  obtains err w' where "bq_NewClient bq p w = (Ok err, w')"
    "events w' = events w @ [EBQNewClient p err]"
  by (cases "bqNewClient bq p (ext w)") (simp add: bq_NewClient_def call_def)

lemma createAllowlistTable_run:
  obtains reply w' where
    "createAllowlistTableIfNotExists bq p d t w
       = (if table_ready reply then Ok () else Err (BigQueryError (the reply)), w')"
    "events w' = events w @ [EBQCreateTable p d t allowlist_schema reply]"
proof -
  obtain reply s' where reply: "bqCreate bq p d t allowlist_schema (ext w) = (reply, s')"
    by (cases "bqCreate bq p d t allowlist_schema (ext w)")
  let ?w = "w\<lparr>ext := s', events := events w @ [EBQCreateTable p d t allowlist_schema reply]\<rparr>"
  have "createAllowlistTableIfNotExists bq p d t w
      = (if table_ready reply then Ok () else Err (BigQueryError (the reply)), ?w)"
    by (cases reply)
      (simp_all add: createAllowlistTableIfNotExists_def bq_Create_def check_bq_def call_def
        reply go_defs table_ready_def split: bq_error.splits)
  then show thesis by (rule that) simp
qed

lemma put_row_run:
  obtains reply w' where
    "go_bind (bq_Put bq p d t row) check_bq w
       = (case reply of None \<Rightarrow> Ok () | Some e \<Rightarrow> Err (BigQueryError e), w')"
    "events w' = events w @ [EBQPut p d t row reply]"
proof -
  obtain reply s' where reply: "bqPut bq p d t row (ext w) = (reply, s')"
    by (cases "bqPut bq p d t row (ext w)")
  let ?w = "w\<lparr>ext := s', events := events w @ [EBQPut p d t row reply]\<rparr>"
  have "go_bind (bq_Put bq p d t row) check_bq w
      = (case reply of None \<Rightarrow> Ok () | Some e \<Rightarrow> Err (BigQueryError e), ?w)"
    by (cases reply) (simp_all add: bq_Put_def check_bq_def call_def reply go_defs)
  then show thesis by (rule that) simp
qed

text \<open>Rows are sent in order until one is refused.\<close>

lemma put_rows_run:
  "for_each (\<lambda>x. go_bind (bq_Put bq p d t (f x)) check_bq) xs w = (res, w')
     \<Longrightarrow> (res = Ok () \<and> events w' = events w @ map (\<lambda>x. EBQPut p d t (f x) None) xs)
       \<or> (\<exists>ys y zs e. xs = ys @ y # zs \<and> res = Err (BigQueryError e)
            \<and> events w' = events w @ map (\<lambda>x. EBQPut p d t (f x) None) ys @ [EBQPut p d t (f y) (Some e)])"
proof (induction xs arbitrary: w)
  case Nil
  then show ?case by (simp add: go_defs)
next
  case (Cons x xs)
  let ?put = "\<lambda>x. go_bind (bq_Put bq p d t (f x)) check_bq"
  obtain reply w1 where
    put: "?put x w = (case reply of None \<Rightarrow> Ok () | Some e \<Rightarrow> Err (BigQueryError e), w1)" and
    ev: "events w1 = events w @ [EBQPut p d t (f x) reply]" by (rule put_row_run)
  show ?case
  proof (cases reply)
    case (Some e)
    with Cons.prems put have "res = Err (BigQueryError e)" "w' = w1"
      by (auto simp: go_seq_def go_bind_def [of "?put x"])
    with ev Some show ?thesis
      by (intro disjI2 exI [of _ "[]"] exI [of _ x] exI [of _ xs] exI [of _ e]) simp
  next
    case None
    with Cons.prems put have "for_each ?put xs w1 = (res, w')"
      by (simp add: go_seq_def go_bind_def [of "?put x"])
    from Cons.IH [OF this] show ?thesis
    proof (elim disjE exE conjE)
      fix ys y zs e
      assume "xs = ys @ y # zs" "res = Err (BigQueryError e)"
        "events w' = events w1 @ map (\<lambda>x. EBQPut p d t (f x) None) ys @ [EBQPut p d t (f y) (Some e)]"
      then show ?thesis using ev None
        by (intro disjI2 exI [of _ "x # ys"] exI [of _ y] exI [of _ zs] exI [of _ e]) simp
    qed (use ev None in simp)
  qed
qed

text \<open>
  The four ways a run can go, with the calls it makes and what it returns. The client is
  closed whenever it could be opened.
\<close>

inductive persist_trace ::
    "BigQuery \<Rightarrow> AllowlistTableEntry list \<Rightarrow> event list \<Rightarrow> unit res \<Rightarrow> bool"
  for sink rows where
  Unreachable: "persist_trace sink rows [EBQNewClient (bqProjectID sink) (Some e)] (Err (BigQueryError e))"
| NoTable: "\<not> table_ready (Some e) \<Longrightarrow>
    persist_trace sink rows
      [EBQNewClient (bqProjectID sink) None,
       EBQCreateTable (bqProjectID sink) (bqDatasetID sink) (bqTableID sink) allowlist_schema (Some e),
       EBQClose closed] (Err (BigQueryError e))"
| Refused: "table_ready reply \<Longrightarrow> rows = sent @ row # rest \<Longrightarrow>
    persist_trace sink rows
      ([EBQNewClient (bqProjectID sink) None,
        EBQCreateTable (bqProjectID sink) (bqDatasetID sink) (bqTableID sink) allowlist_schema reply]
       @ map (\<lambda>r. EBQPut (bqProjectID sink) (bqDatasetID sink) (bqTableID sink) r None) sent
       @ [EBQPut (bqProjectID sink) (bqDatasetID sink) (bqTableID sink) row (Some e), EBQClose closed])
      (Err (BigQueryError e))"
| Stored: "table_ready reply \<Longrightarrow>
    persist_trace sink rows
      ([EBQNewClient (bqProjectID sink) None,
        EBQCreateTable (bqProjectID sink) (bqDatasetID sink) (bqTableID sink) allowlist_schema reply]
       @ map (\<lambda>r. EBQPut (bqProjectID sink) (bqDatasetID sink) (bqTableID sink) r None) rows
       @ [EBQClose closed])
      (case closed of None \<Rightarrow> Ok () | Some e \<Rightarrow> Err (BigQueryError e))"

lemma defer_close_run:
  assumes "body w = (res, w1)"
  shows "\<exists>closed w2. defer_close bq body w = ((case (res, closed) of
      (Ok u, Some e) \<Rightarrow> Err (BigQueryError e) | _ \<Rightarrow> res), w2)
    \<and> events w2 = events w1 @ [EBQClose closed]"
  using assms by (auto simp: defer_close_def bq_Close_def call_def split: prod.splits)

lemma PersistAllowlist_run:
  assumes run: "PersistAllowlist bq p utsa w = (res, w')"
  shows "\<exists>es. events w' = events w @ es \<and> persist_trace (BigQuerySink p) (allowlist_rows utsa) es res"
proof -
  let ?P = "bqProjectID (BigQuerySink p)" and ?D = "bqDatasetID (BigQuerySink p)"
    and ?T = "bqTableID (BigQuerySink p)"
  let ?f = "extractAllowlistForServiceAccount (base_entry utsa)"
  let ?put = "\<lambda>sa. go_bind (bq_Put bq ?P ?D ?T (?f sa)) check_bq"
  let ?accounts = "specServiceAccounts (utsaSpec utsa)"
  let ?create = "createAllowlistTableIfNotExists bq ?P ?D ?T"
  obtain err w1 where new: "bq_NewClient bq ?P w = (Ok err, w1)"
    and ev1: "events w1 = events w @ [EBQNewClient ?P err]" by (rule bq_NewClient_run)
  show ?thesis
  proof (cases err)
    case (Some e)
    with run new have "res = Err (BigQueryError e)" "w' = w1"
      by (auto simp: PersistAllowlist_def Let_def go_bind_def go_err_def)
    with Some ev1 show ?thesis by (auto intro: persist_trace.Unreachable)
  next
    case None
    let ?body = "go_seq ?create (for_each ?put ?accounts)"
    have close: "defer_close bq ?body w1 = (res, w')"
      using run new None by (simp add: PersistAllowlist_def Let_def go_bind_def)
    obtain reply w2 where
      create: "?create w1 = (if table_ready reply then Ok () else Err (BigQueryError (the reply)), w2)" and
      ev2: "events w2 = events w1 @ [EBQCreateTable ?P ?D ?T allowlist_schema reply]"
      by (rule createAllowlistTable_run)
    show ?thesis
    proof (cases "table_ready reply")
      case False
      then obtain e where reply: "reply = Some e" by (auto simp: table_ready_def)
      from False create reply have "?body w1 = (Err (BigQueryError e), w2)"
        by (simp add: go_seq_def go_bind_def)
      from defer_close_run [where body = ?body and bq = bq, OF this] close obtain closed where
        "res = Err (BigQueryError e)" "events w' = events w2 @ [EBQClose closed]" by auto
      with False ev1 ev2 None reply show ?thesis
        by (auto intro!: persist_trace.NoTable)
    next
      case True
      obtain r3 w3 where puts: "for_each ?put ?accounts w2 = (r3, w3)" by (cases "for_each ?put ?accounts w2")
      with True create have body: "?body w1 = (r3, w3)"
        by (simp add: go_seq_def go_bind_def)
      from defer_close_run [where body = ?body and bq = bq, OF this] close obtain closed where
        res: "res = (case (r3, closed) of (Ok u, Some e) \<Rightarrow> Err (BigQueryError e) | _ \<Rightarrow> r3)" and
        ev4: "events w' = events w3 @ [EBQClose closed]" by auto
      from put_rows_run [OF puts] show ?thesis
      proof (elim disjE exE conjE)
        assume r3: "r3 = Ok ()" and ev3: "events w3 = events w2 @ map (\<lambda>x. EBQPut ?P ?D ?T (?f x) None) ?accounts"
        have "res = (case closed of None \<Rightarrow> Ok () | Some e \<Rightarrow> Err (BigQueryError e))"
          using res r3 by (simp split: option.splits)
        with persist_trace.Stored [OF True, of "BigQuerySink p" "allowlist_rows utsa" closed]
          ev1 ev2 ev3 ev4 None show ?thesis
          by (simp add: allowlist_rows_def comp_def)
      next
        fix ys y zs e
        assume split: "?accounts = ys @ y # zs" and r3: "r3 = Err (BigQueryError e)" and
          ev3: "events w3 = events w2 @ map (\<lambda>x. EBQPut ?P ?D ?T (?f x) None) ys @ [EBQPut ?P ?D ?T (?f y) (Some e)]"
        have "allowlist_rows utsa = map ?f ys @ ?f y # map ?f zs"
          using split by (simp add: allowlist_rows_def)
        from persist_trace.Refused [OF True this, of "BigQuerySink p" e closed] res r3 ev1 ev2 ev3 ev4 None
        show ?thesis by (simp add: comp_def)
      qed
    qed
  qed
qed

text \<open>
  C32. Persisting the allowlists goes one of four ways, whatever BigQuery answers: the
  client cannot be opened; the table cannot be created, an answer 409 (it exists) not being
  an error; a row is refused, after the rows of the accounts before it were sent in order;
  or all rows are sent. An opened client is closed in the end, and the error of closing is
  returned only when there was no other.
\<close>

theorem PersistAllowlist_traces:
  "\<exists>es. events (snd (PersistAllowlist bq p utsa w)) = events w @ es
     \<and> persist_trace (BigQuerySink p) (allowlist_rows utsa) es (fst (PersistAllowlist bq p utsa w))"
  by (rule PersistAllowlist_run) simp

inductive_cases persist_OkE: "persist_trace sink rows es (Ok ())"

text \<open>
  C33. Without an error there is exactly one row per service account of the specification,
  in its order, each with the project, the domain, the account's name and the hosts and
  addresses of its three allowlists, in a table that exists.
\<close>

theorem PersistAllowlist_complete:
  assumes "PersistAllowlist bq p utsa w = (Ok (), w')"
  shows "\<exists>es. events w' = events w @ es
    \<and> stored_rows es = allowlist_rows utsa
    \<and> map ateServiceAccount (allowlist_rows utsa) = map usaName (specServiceAccounts (utsaSpec utsa))
    \<and> map ateExternalAllowlist (allowlist_rows utsa)
        = map (\<lambda>sa. map hostHost (usaExternalAllowlist sa)) (specServiceAccounts (utsaSpec utsa))
    \<and> map ateInternalAllowlist (allowlist_rows utsa)
        = map (\<lambda>sa. map hostHost (usaInternalAllowlist sa)) (specServiceAccounts (utsaSpec utsa))
    \<and> map ateCloudSQLAllowlist (allowlist_rows utsa)
        = map (\<lambda>sa. map sqlIP (usaCloudSQL sa)) (specServiceAccounts (utsaSpec utsa))
    \<and> list_all (\<lambda>row. ateTeam row = specProject (utsaSpec utsa)
         \<and> ateEnvironment row = specDomain (utsaSpec utsa)) (allowlist_rows utsa)"
proof -
  from PersistAllowlist_run [OF assms] obtain es where es: "events w' = events w @ es"
    and trace: "persist_trace (BigQuerySink p) (allowlist_rows utsa) es (Ok ())" by blast
  from trace have "stored_rows es = allowlist_rows utsa"
    by (rule persist_OkE) simp_all
  with es show ?thesis
    by (intro exI [of _ es])
      (simp add: allowlist_rows_def extractAllowlistForServiceAccount_def base_entry_def Let_def comp_def list_all_iff)
qed

text \<open>An instance: the table exists already, and the second of two accounts has no allowlist.\<close>

definition mem_bigquery :: "mem bigquery" where
  "mem_bigquery =
     \<lparr>bqNewClient = (\<lambda>p. with_faults (\<lambda>msg. Some (OtherBigQueryError msg)) (\<lambda>s. (None, s))),
      bqCreate = (\<lambda>p d t schema. with_faults (\<lambda>msg. Some (OtherBigQueryError msg))
        (\<lambda>s. (Some (GoogleApiError 409), s))),
      bqPut = (\<lambda>p d t row. with_faults (\<lambda>msg. Some (OtherBigQueryError msg)) (\<lambda>s. (None, s))),
      bqClose = with_faults (\<lambda>msg. Some (OtherBigQueryError msg)) (\<lambda>s. (None, s))\<rparr>"

definition example_sink :: BigQuery where
  "example_sink = \<lparr>bqProjectID = ''gcp'', bqDatasetID = ''union'', bqTableID = ''allowlist''\<rparr>"

definition example_accounts :: UnionTeamServiceAccounts where
  "example_accounts =
     \<lparr>utsaMeta = zero_meta\<lparr>metaName := ''team'', metaNamespace := ''union''\<rparr>,
      utsaSpec = \<lparr>specProject = ''proj'', specDomain = ''dev'',
        specServiceAccounts =
          [\<lparr>usaName = ''a'',
             usaExternalAllowlist = [\<lparr>hostHost = ''x.no'', hostPaths = []\<rparr>],
             usaInternalAllowlist = [], usaCloudSQL = []\<rparr>,
           \<lparr>usaName = ''b'', usaExternalAllowlist = [], usaInternalAllowlist = [], usaCloudSQL = []\<rparr>]\<rparr>,
      utsaStatusConditions = []\<rparr>"

theorem PersistAllowlist_complete_witness:
  "map ateServiceAccount (stored_rows (events (snd (PersistAllowlist mem_bigquery
      (NewPersister example_sink) example_accounts (example_world []))))) = [''a'', ''b'']"
proof -
  let ?run = "PersistAllowlist mem_bigquery (NewPersister example_sink) example_accounts (example_world [])"
  have ok: "fst ?run = Ok ()"
    by (simp add: PersistAllowlist_def createAllowlistTableIfNotExists_def defer_close_def bq_NewClient_def
        bq_Create_def bq_Put_def bq_Close_def check_bq_def mem_bigquery_def with_faults_def call_def
        example_accounts_def example_world_def Let_def go_defs)
  then obtain w' where run: "?run = (Ok (), w')" by (metis prod.collapse)
  have "map ateServiceAccount (stored_rows (events w'))
      = map usaName (specServiceAccounts (utsaSpec example_accounts))"
    using PersistAllowlist_complete [OF run] by (auto simp: example_world_def)
  also have "\<dots> = [''a'', ''b'']" by (simp add: example_accounts_def)
  finally show ?thesis by (simp only: run snd_conv)
qed

section \<open>The interface \<^verbatim>\<open>AllowlistPersister\<close>\<close>

text \<open>
  BigQuery is not the cluster: its calls leave the cluster's contents alone. From that the
  persister has the contract the controller relies on.
\<close>

locale bigquery_api =
  fixes bq :: "'s bigquery" and store :: "'s \<Rightarrow> contents"
  assumes new_store: "bqNewClient bq p s = (r, s') \<Longrightarrow> store s' = store s"
    and create_store: "bqCreate bq p d t schema s = (r, s') \<Longrightarrow> store s' = store s"
    and put_store: "bqPut bq p d t row s = (r, s') \<Longrightarrow> store s' = store s"
    and close_store: "bqClose bq s = (r, s') \<Longrightarrow> store s' = store s"

locale allowlist_persister =
  fixes persist :: "UnionTeamServiceAccounts \<Rightarrow> ('s world, unit) go" and store :: "'s \<Rightarrow> contents"
  assumes persist_calls: "emits is_bigquery (persist utsa)"
    and persist_store: "persist utsa w = (r, w') \<Longrightarrow> store (ext w') = store (ext w)"
begin

lemma persist_safe: "(\<And>m. S m m) \<Longrightarrow> safe (on_store store S) (persist utsa)"
  by (metis persist_store on_store_def safe_def surjective_pairing)

lemma persist_post: "ok_post (\<lambda>w. A (store (ext w))) (persist utsa) (\<lambda>_ w. A (store (ext w)))"
  by (rule ok_postI) (simp add: persist_store)

lemma persist_no_write: "emits (\<lambda>e. \<not> is_write e) (persist utsa)"
  using persist_calls
proof (rule emits_mono)
  show "is_bigquery e \<Longrightarrow> \<not> is_write e" for e by (cases e) simp_all
qed

end

lemma persist_trace_bigquery: "persist_trace sink rows es res \<Longrightarrow> list_all is_bigquery es"
  by (induction rule: persist_trace.induct) (simp_all add: list_all_iff)

lemma PersistAllowlist_emits: "emits is_bigquery (PersistAllowlist bq p utsa)"
proof (rule safeI)
  fix w
  obtain r w' where run: "PersistAllowlist bq p utsa w = (r, w')" by (cases "PersistAllowlist bq p utsa w")
  from PersistAllowlist_run [OF run] show "emits_rel is_bigquery w (snd (PersistAllowlist bq p utsa w))"
    using run by (auto simp: emits_rel_def dest: persist_trace_bigquery)
qed

context bigquery_api
begin

lemma effect_order_same: "effect_order (on_store store (=))"
  by (rule effect_order_on_store) simp_all

lemma same_calls:
  "safe (on_store store (=)) (bq_NewClient bq pr)"
  "safe (on_store store (=)) (bq_Create bq pr d t schema)"
  "safe (on_store store (=)) (bq_Put bq pr d t row)"
  "safe (on_store store (=)) (bq_Close bq)"
  by (auto simp: bq_NewClient_def bq_Create_def bq_Put_def bq_Close_def call_def safe_def on_store_def
      dest: new_store create_store put_store close_store split: prod.splits)

lemma same_check: "safe (on_store store (=)) (check_bq r)"
  by (auto simp: check_bq_def go_defs safe_def on_store_def split: option.splits)

lemma same_defer_close:
  assumes "safe (on_store store (=)) body"
  shows "safe (on_store store (=)) (defer_close bq body)"
proof (rule safeI)
  fix w
  obtain r w1 where body: "body w = (r, w1)" by (cases "body w")
  obtain r2 w2 where close: "bq_Close bq w1 = (r2, w2)" by (cases "bq_Close bq w1")
  from safeD [OF assms body] safeD [OF same_calls(4) close] have "on_store store (=) w w2"
    by (simp add: on_store_def)
  with body close show "on_store store (=) w (snd (defer_close bq body w))"
    by (cases r2) (simp_all add: defer_close_def)
qed

lemma same_PersistAllowlist: "safe (on_store store (=)) (PersistAllowlist bq p utsa)"
  unfolding PersistAllowlist_def createAllowlistTableIfNotExists_def Let_def
  by (intro effect_order.safe_rules [OF effect_order_same] same_calls same_defer_close)
    (auto intro!: effect_order.safe_rules [OF effect_order_same] same_calls same_defer_close same_check
      effect_order.safe_err [OF effect_order_same] effect_order.safe_return [OF effect_order_same]
      split: option.splits bq_error.splits)

end

sublocale bigquery_api \<subseteq> persister: allowlist_persister "PersistAllowlist bq p" store for p
proof unfold_locales
  show "emits is_bigquery (PersistAllowlist bq p utsa)" for utsa
    by (rule PersistAllowlist_emits)
  show "store (ext w') = store (ext w)" if "PersistAllowlist bq p utsa w = (r, w')" for utsa w r w'
    using safeD [OF same_PersistAllowlist that] by (simp add: on_store_def)
qed

interpretation mem_bq: bigquery_api mem_bigquery mem_store
  by unfold_locales (auto simp: mem_bigquery_def elim!: with_faults_cases)

end
