(* ===== verification/Controller.thy ===== *)
theory Controller
  imports StageFrames Persist
begin

text \<open>
  \<^verbatim>\<open>internal/controller\<close>: the reconciliation of one UnionTeamServiceAccounts resource,
  which puts the other components together: the finalizer protocol on the resource itself,
  then the persister, the service-account stages and the Istio stages, in this order, each
  of them only when the one before it returned without error.

  The scheme's \<^verbatim>\<open>ObjectKinds\<close> and the three finalizer functions of controller-runtime's
  \<^verbatim>\<open>controllerutil\<close> are third-party code and parameters of the reconciler; the locale
  \<open>finalizer_util\<close> states what the latter do. A \<^verbatim>\<open>ctrl.Result\<close> is always the zero value, so a
  reconciliation returns nothing or an error.
\<close>

section \<open>The reconciler\<close>

definition unionFinalizer :: string where
  "unionFinalizer = ''data.nav.no/finalizer''"

text \<open>The group version is what \<^verbatim>\<open>gvk.GroupVersion().String()\<close> returns.\<close>

record GroupVersionKind =
  gvkGroupVersion :: string
  gvkKind :: string

record finalizer_ops =
  fContains :: "UnionTeamServiceAccounts \<Rightarrow> string \<Rightarrow> bool"
  fAdd :: "UnionTeamServiceAccounts \<Rightarrow> string \<Rightarrow> UnionTeamServiceAccounts"
  fRemove :: "UnionTeamServiceAccounts \<Rightarrow> string \<Rightarrow> UnionTeamServiceAccounts"

text \<open>
  \<open>ctlAliased\<close> is the parameter of \<open>CleanupUnusedHosts\<close>. The configuration is a pointer,
  and reading through nil panics.
\<close>

record 's UTSAReconciler =
  ctlClient :: "'s client"
  ctlObjectKinds :: "UnionTeamServiceAccounts \<Rightarrow> goerror + GroupVersionKind list"
  ctlFinalizers :: finalizer_ops
  ctlOnpremHosts :: OnpremHostMap
  ctlUnionConfig :: "UnionDataplaneConfig option"
  ctlPersister :: "UnionTeamServiceAccounts \<Rightarrow> ('s world, unit) go"
  ctlAliased :: bool

definition ctl_istio :: "'s UTSAReconciler \<Rightarrow> 's IstioReconciler" where
  "ctl_istio r = \<lparr>irClient = ctlClient r, irOnpremHosts = ctlOnpremHosts r\<rparr>"

definition ctl_accounts :: "'s UTSAReconciler \<Rightarrow> UnionDataplaneConfig \<Rightarrow> 's SAReconciler" where
  "ctl_accounts r cfg =
     \<lparr>sarClient = ctlClient r, sarFastRegistrationBucket = cfgFastRegistrationBucket cfg,
      sarDataBucket = cfgDataBucket cfg\<rparr>"

definition union_env ::
    "UnionDataplaneConfig \<Rightarrow> GroupVersionKind \<Rightarrow> UnionTeamServiceAccounts \<Rightarrow> UnionEnv" where
  "union_env cfg gvk utsa =
     \<lparr>envUTSAOwnerReference = Some
        \<lparr>uorAPIVersion = gvkGroupVersion gvk, uorKind = gvkKind gvk,
         uorName = metaName (utsaMeta utsa), uorUID = metaUID (utsaMeta utsa)\<rparr>,
      envProject = specProject (utsaSpec utsa),
      envDomain = specDomain (utsaSpec utsa),
      envGCPProjectName = cfgGCPProjectName cfg\<rparr>"

text \<open>\<^verbatim>\<open>r.Update(ctx, utsa)\<close>, which decodes the server's answer into the resource.\<close>

definition update_utsa ::
    "'s UTSAReconciler \<Rightarrow> UnionTeamServiceAccounts \<Rightarrow> ('s world, UnionTeamServiceAccounts) go" where
  "update_utsa r utsa =
     go_bind (go_bind (k8s_Update (ctlClient r) (UTSAObj utsa)) check_reply)
       (\<lambda>answer. go_return (as_UTSA answer))"

text \<open>The deletion branch, the finalizer step and the stages of a normal reconciliation.\<close>

definition reconcile_deletion :: "'s UTSAReconciler \<Rightarrow> UnionTeamServiceAccounts \<Rightarrow> ('s world, unit) go"
  where
  "reconcile_deletion r utsa =
     (if fContains (ctlFinalizers r) utsa unionFinalizer
      then go_seq (IstioCleanup.CleanupAllResources (ctl_istio r) utsa)
        (go_bind (update_utsa r (fRemove (ctlFinalizers r) utsa unionFinalizer)) (\<lambda>_. go_return ()))
      else go_return ())"

definition ensure_finalizer ::
    "'s UTSAReconciler \<Rightarrow> UnionTeamServiceAccounts \<Rightarrow> ('s world, UnionTeamServiceAccounts) go" where
  "ensure_finalizer r utsa =
     (if \<not> fContains (ctlFinalizers r) utsa unionFinalizer
      then update_utsa r (fAdd (ctlFinalizers r) utsa unionFinalizer)
      else go_return utsa)"

definition reconcile_resources ::
    "'s UTSAReconciler \<Rightarrow> UnionDataplaneConfig \<Rightarrow> UnionEnv \<Rightarrow> ServiceAccount list
       \<Rightarrow> UnionTeamServiceAccounts \<Rightarrow> ('s world, unit) go" where
  "reconcile_resources r cfg unionEnv serviceAccounts utsa =
     (let saReconciler = ctl_accounts r cfg; istioReconciler = ctl_istio r in
      go_seq (CreateOrUpdateServiceAccounts saReconciler unionEnv serviceAccounts)
     (go_seq (CleanupRemovedServiceAccounts saReconciler unionEnv serviceAccounts)
     (go_seq (EnsureExternalHosts istioReconciler serviceAccounts)
     (go_seq (EnsureCloudSQLHosts istioReconciler serviceAccounts)
     (go_seq (EnsureAuthorizationPolicies istioReconciler serviceAccounts)
     (go_seq (CleanupRemovedServiceAccountAuthzPolicies istioReconciler utsa)
             (CleanupUnusedHosts (ctlAliased r) istioReconciler)))))))"

definition reconcile_stages ::
    "'s UTSAReconciler \<Rightarrow> UnionDataplaneConfig \<Rightarrow> UnionEnv \<Rightarrow> ServiceAccount list
       \<Rightarrow> UnionTeamServiceAccounts \<Rightarrow> ('s world, unit) go" where
  "reconcile_stages r cfg unionEnv serviceAccounts utsa =
     go_seq (ctlPersister r utsa) (reconcile_resources r cfg unionEnv serviceAccounts utsa)"

definition Reconcile :: "'s UTSAReconciler \<Rightarrow> key \<Rightarrow> ('s world, unit) go" where
  "Reconcile r req =
     (case ctlUnionConfig r of
        None \<Rightarrow> go_panic
      | Some cfg \<Rightarrow>
          go_bind (k8s_Get (ctlClient r) UTSAKind req)
            (\<lambda>reply. case reply of
               Inl e \<Rightarrow> (if IsNotFound e then go_return () else go_err (ApiError e))
             | Inr ob \<Rightarrow>
                 (let utsa = as_UTSA ob in
                  case ctlObjectKinds r utsa of
                    Inl e \<Rightarrow> go_err e
                  | Inr gvks \<Rightarrow> (case gvks of
                      [] \<Rightarrow> go_return ()
                    | gvk # _ \<Rightarrow>
                        (let unionEnv = union_env cfg gvk utsa;
                             serviceAccounts = map (mkServiceAccount unionEnv)
                               (specServiceAccounts (utsaSpec utsa)) in
                         if \<not> Time_IsZero (metaDeletionTimestamp (utsaMeta utsa))
                         then reconcile_deletion r utsa
                         else go_bind (ensure_finalizer r utsa)
                           (reconcile_stages r cfg unionEnv serviceAccounts))))))"

section \<open>The finalizer functions\<close>

text \<open>
  As documented by controller-runtime: the functions look at and change the list of
  finalizers only; adding puts the finalizer in the list if it is not there, removing
  takes it out, and the others stay.
\<close>

locale finalizer_util =
  fixes F :: finalizer_ops
  assumes contains: "fContains F u f \<longleftrightarrow> f \<in> set (metaFinalizers (utsaMeta u))"
    and add: "\<exists>fs. fAdd F u f = u\<lparr>utsaMeta := utsaMeta u\<lparr>metaFinalizers := fs\<rparr>\<rparr>
      \<and> set fs = insert f (set (metaFinalizers (utsaMeta u)))"
    and remove: "\<exists>fs. fRemove F u f = u\<lparr>utsaMeta := utsaMeta u\<lparr>metaFinalizers := fs\<rparr>\<rparr>
      \<and> set fs = set (metaFinalizers (utsaMeta u)) - {f}"
begin

lemma add_sel:
  "utsaSpec (fAdd F u f) = utsaSpec u"
  "metaName (utsaMeta (fAdd F u f)) = metaName (utsaMeta u)"
  "metaNamespace (utsaMeta (fAdd F u f)) = metaNamespace (utsaMeta u)"
  "metaDeletionTimestamp (utsaMeta (fAdd F u f)) = metaDeletionTimestamp (utsaMeta u)"
  "f \<in> set (metaFinalizers (utsaMeta (fAdd F u f)))"
proof -
  obtain fs where fs: "fAdd F u f = u\<lparr>utsaMeta := utsaMeta u\<lparr>metaFinalizers := fs\<rparr>\<rparr>"
      "set fs = insert f (set (metaFinalizers (utsaMeta u)))"
    using add by blast
  show "utsaSpec (fAdd F u f) = utsaSpec u"
    "metaName (utsaMeta (fAdd F u f)) = metaName (utsaMeta u)"
    "metaNamespace (utsaMeta (fAdd F u f)) = metaNamespace (utsaMeta u)"
    "metaDeletionTimestamp (utsaMeta (fAdd F u f)) = metaDeletionTimestamp (utsaMeta u)"
    "f \<in> set (metaFinalizers (utsaMeta (fAdd F u f)))"
    unfolding fs(1) by (simp_all add: fs(2))
qed

lemma remove_sel:
  "utsaSpec (fRemove F u f) = utsaSpec u"
  "metaName (utsaMeta (fRemove F u f)) = metaName (utsaMeta u)"
  "metaNamespace (utsaMeta (fRemove F u f)) = metaNamespace (utsaMeta u)"
  "metaDeletionTimestamp (utsaMeta (fRemove F u f)) = metaDeletionTimestamp (utsaMeta u)"
  "set (metaFinalizers (utsaMeta (fRemove F u f))) = set (metaFinalizers (utsaMeta u)) - {f}"
proof -
  obtain fs where fs: "fRemove F u f = u\<lparr>utsaMeta := utsaMeta u\<lparr>metaFinalizers := fs\<rparr>\<rparr>"
      "set fs = set (metaFinalizers (utsaMeta u)) - {f}"
    using remove by blast
  show "utsaSpec (fRemove F u f) = utsaSpec u"
    "metaName (utsaMeta (fRemove F u f)) = metaName (utsaMeta u)"
    "metaNamespace (utsaMeta (fRemove F u f)) = metaNamespace (utsaMeta u)"
    "metaDeletionTimestamp (utsaMeta (fRemove F u f)) = metaDeletionTimestamp (utsaMeta u)"
    "set (metaFinalizers (utsaMeta (fRemove F u f))) = set (metaFinalizers (utsaMeta u)) - {f}"
    unfolding fs(1) by (simp_all add: fs(2))
qed

end

definition list_finalizers :: finalizer_ops where
  "list_finalizers =
     \<lparr>fContains = (\<lambda>u f. f \<in> set (metaFinalizers (utsaMeta u))),
      fAdd = (\<lambda>u f. if f \<in> set (metaFinalizers (utsaMeta u)) then u
        else u\<lparr>utsaMeta := (utsaMeta u)\<lparr>metaFinalizers := metaFinalizers (utsaMeta u) @ [f]\<rparr>\<rparr>),
      fRemove = (\<lambda>u f. u\<lparr>utsaMeta := (utsaMeta u)
        \<lparr>metaFinalizers := removeAll f (metaFinalizers (utsaMeta u))\<rparr>\<rparr>)\<rparr>"

interpretation list_finalizers: finalizer_util list_finalizers
proof unfold_locales
  show "\<exists>fs. fAdd list_finalizers u f = u\<lparr>utsaMeta := (utsaMeta u)\<lparr>metaFinalizers := fs\<rparr>\<rparr>
      \<and> set fs = insert f (set (metaFinalizers (utsaMeta u)))" for u f
  proof (cases "f \<in> set (metaFinalizers (utsaMeta u))")
    case True
    then show ?thesis
      by (intro exI [of _ "metaFinalizers (utsaMeta u)"]) (auto simp: list_finalizers_def)
  qed (auto simp: list_finalizers_def)
qed (auto simp: list_finalizers_def)

section \<open>The finalizer protects every other write\<close>

text \<open>
  A monitor over the log: whether the resource is known to hold the finalizer, from what
  was read and from the updates the server accepted; and whether a call is allowed.
  Anything that leaves a trace outside of the resource needs the finalizer, and an update
  of the resource must send it or take it from a resource that has it.
\<close>

definition holds_finalizer :: "UnionTeamServiceAccounts \<Rightarrow> bool" where
  "holds_finalizer u \<longleftrightarrow> unionFinalizer \<in> set (metaFinalizers (utsaMeta u))"

fun held_after :: "bool \<Rightarrow> event \<Rightarrow> bool" where
  "held_after held (EGet k key (Inr ob)) = (if k = UTSAKind then holds_finalizer (as_UTSA ob) else held)"
| "held_after held (EUpdate (UTSAObj u) (Inr ob)) = holds_finalizer u"
| "held_after held _ = held"

fun allowed :: "bool \<Rightarrow> event \<Rightarrow> bool" where
  "allowed held (EUpdate (UTSAObj u) r) \<longleftrightarrow> held \<or> holds_finalizer u"
| "allowed held e \<longleftrightarrow> is_write e \<or> is_bigquery e \<longrightarrow> held"

primrec guarded :: "bool \<Rightarrow> event list \<Rightarrow> bool" where
  "guarded held [] \<longleftrightarrow> True"
| "guarded held (e # es) \<longleftrightarrow> allowed held e \<and> guarded (held_after held e) es"

text \<open>The stages neither read nor update the resource itself.\<close>

fun stage_event :: "event \<Rightarrow> bool" where
  "stage_event (EGet k key r) \<longleftrightarrow> k \<noteq> UTSAKind"
| "stage_event (EUpdate ob r) \<longleftrightarrow> kind_of ob \<noteq> UTSAKind"
| "stage_event _ \<longleftrightarrow> True"

lemma stage_held: "stage_event e \<Longrightarrow> held_after held e = held"
  by (cases "(held, e)" rule: held_after.cases) auto

lemma allowed_held [simp]: "allowed True e"
  by (cases "(True, e)" rule: allowed.cases) auto

lemma guarded_stages: "list_all stage_event es \<Longrightarrow> guarded True es"
  by (induction es) (simp_all add: stage_held)

lemma sa_stage_event: "sa_event u e \<Longrightarrow> stage_event e"
  by (cases e) auto

lemma bigquery_stage_event: "is_bigquery e \<Longrightarrow> stage_event e"
  by (cases e) auto

lemmas stage_rules = emits_rules safe_branches emits_check
  emits.safe_return emits.safe_err emits.safe_panic emits.safe_Join

lemma emits_stage_hosts:
  "emits stage_event (EnsureExternalHosts r sas)"
  "emits stage_event (EnsureCloudSQLHosts r sas)"
  unfolding EnsureExternalHosts_def EnsureCloudSQLHosts_def ensureExternalHost_def
    ensureCloudSQLHost_def ensure_defs Let_def
  by (rule stage_rules | simp)+

lemma emits_stage_policies:
  "emits stage_event (EnsureAuthorizationPolicies r sas)"
  "emits stage_event (CleanupRemovedServiceAccountAuthzPolicies r utsa)"
  "emits stage_event (IstioCleanup.CleanupAllResources r utsa)"
  unfolding EnsureAuthorizationPolicies_def ensure_internal_policies_def
    ensureAuthorizationPolicyForHost_def CleanupRemovedServiceAccountAuthzPolicies_def
    IstioCleanup.CleanupAllResources_def CleanupUTSAServiceAccountAuthzPolicies_def
    delete_policy_def Let_def
  by (rule stage_rules | simp)+

lemma emits_stage_servers:
  "emits stage_event (external_servers aliased r inUse is attached servers g)"
  "emits stage_event (cloudsql_servers aliased r inUse is attached servers g)"
proof (induction "is" arbitrary: attached servers g)
  case (Cons i "is")
  have remove: "emits stage_event (remove_unused r inUse hosts)" for hosts
    unfolding remove_unused_def removeExternalHost_def removeByHostLabel_def
    by (rule stage_rules | simp)+
  case 1
  show ?case
    unfolding external_servers.simps Let_def by (rule stage_rules remove Cons.IH | simp)+
  case 2
  show ?case
    unfolding cloudsql_servers.simps Let_def by (rule stage_rules remove Cons.IH | simp)+
qed simp_all

lemma emits_stage_unused: "emits stage_event (CleanupUnusedHosts aliased r)"
  unfolding CleanupUnusedHosts_def cleanupExternalHosts_def cleanupCloudSQLHosts_def
    cleanupInternalHosts_def Let_def
  by (rule stage_rules emits_stage_servers | simp)+

lemma emits_reconcile_resources:
  "emits stage_event (reconcile_resources r cfg u (map (mkServiceAccount u) accounts) utsa)"
proof -
  have "emits stage_event (CreateOrUpdateServiceAccounts (ctl_accounts r cfg) u
      (map (mkServiceAccount u) accounts))"
    using CreateOrUpdateServiceAccounts_emits sa_stage_event by (rule emits_mono)
  moreover have "emits stage_event (CleanupRemovedServiceAccounts (ctl_accounts r cfg) u
      (map (mkServiceAccount u) accounts))"
    using emits_CleanupRemovedServiceAccounts sa_stage_event by (rule emits_mono)
  ultimately show ?thesis
    unfolding reconcile_resources_def Let_def
    by (intro emits.safe_seq emits_stage_hosts emits_stage_policies emits_stage_unused)
qed

lemma emits_reconcile_stages:
  assumes persister: "\<And>utsa. emits is_bigquery (ctlPersister r utsa)"
  shows "emits stage_event (reconcile_stages r cfg u (map (mkServiceAccount u) accounts) utsa)"
  unfolding reconcile_stages_def
  by (rule emits.safe_seq [OF emits_mono [OF persister] emits_reconcile_resources])
    (rule bigquery_stage_event)

text \<open>The first call of a reconciliation, and an update of the resource.\<close>

lemma Get_run:
  obtains reply w' where "k8s_Get c k key w = (Ok reply, w')"
    "events w' = events w @ [EGet k key reply]"
  by (cases "cGet c k key (ext w)") (simp add: k8s_Get_def call_def)

lemma update_utsa_run:
  obtains (refused) e w' where "update_utsa r u w = (Err (ApiError e), w')"
      "events w' = events w @ [EUpdate (UTSAObj u) (Inl e)]"
      "k8s_Update (ctlClient r) (UTSAObj u) w = (Ok (Inl e), w')"
    | (accepted) ob w' where "update_utsa r u w = (Ok (as_UTSA ob), w')"
      "events w' = events w @ [EUpdate (UTSAObj u) (Inr ob)]"
      "k8s_Update (ctlClient r) (UTSAObj u) w = (Ok (Inr ob), w')"
proof -
  obtain reply s' where reply: "cUpdate (ctlClient r) (UTSAObj u) (ext w) = (reply, s')"
    by (cases "cUpdate (ctlClient r) (UTSAObj u) (ext w)")
  let ?w = "w\<lparr>ext := s', events := events w @ [EUpdate (UTSAObj u) reply]\<rparr>"
  show ?thesis
  proof (cases reply)
    case (Inl e)
    show ?thesis
      by (rule refused [of e ?w]) (simp_all add: update_utsa_def k8s_Update_def call_def check_reply_def
          go_defs reply Inl)
  next
    case (Inr ob)
    show ?thesis
      by (rule accepted [of ob ?w]) (simp_all add: update_utsa_def k8s_Update_def call_def check_reply_def
          go_defs reply Inr)
  qed
qed

lemma emits_run:
  assumes "emits P m" and "m w = (res, w')"
  obtains es where "events w' = events w @ es" "list_all P es"
  using safeD [OF assms] by (auto simp: emits_rel_def)

text \<open>The deletion branch and a normal reconciliation, from a resource as it was read.\<close>

lemma guarded_deletion:
  assumes F: "finalizer_util (ctlFinalizers r)" and run: "reconcile_deletion r utsa w = (res, w')"
  shows "\<exists>es. events w' = events w @ es \<and> guarded (holds_finalizer utsa) es"
proof (cases "holds_finalizer utsa")
  case True
  let ?u = "fRemove (ctlFinalizers r) utsa unionFinalizer"
  have run': "go_seq (IstioCleanup.CleanupAllResources (ctl_istio r) utsa)
      (go_bind (update_utsa r ?u) (\<lambda>_. go_return ())) w = (res, w')"
    using run True F by (simp add: reconcile_deletion_def finalizer_util.contains holds_finalizer_def)
  obtain res1 w1 where clean: "IstioCleanup.CleanupAllResources (ctl_istio r) utsa w = (res1, w1)"
    by (cases "IstioCleanup.CleanupAllResources (ctl_istio r) utsa w")
  then obtain es where es: "events w1 = events w @ es" "list_all stage_event es"
    by (rule emits_run [OF emits_stage_policies(3)])
  show ?thesis
  proof (cases "res1 = Ok ()")
    case True
    have "\<exists>reply. events w' = events w1 @ [EUpdate (UTSAObj ?u) reply]"
      using run' clean True
      by (cases rule: update_utsa_run [of r ?u w1]) (auto simp: go_seq_def go_bind_def go_return_def)
    then obtain reply where "events w' = events w @ es @ [EUpdate (UTSAObj ?u) reply]"
      using es by auto
    moreover have "guarded True (es @ [EUpdate (UTSAObj ?u) reply])"
      using es(2) by (induction es) (simp_all add: stage_held)
    ultimately show ?thesis using \<open>holds_finalizer utsa\<close> by auto
  next
    case False
    with run' clean have "w' = w1" by (cases res1) (auto simp: go_seq_def go_bind_def)
    with es \<open>holds_finalizer utsa\<close> guarded_stages show ?thesis by auto
  qed
next
  case False
  with run F have "w' = w"
    by (simp add: reconcile_deletion_def finalizer_util.contains holds_finalizer_def go_defs)
  then show ?thesis by (auto intro: exI [of _ "[]"])
qed

lemma guarded_live:
  assumes F: "finalizer_util (ctlFinalizers r)"
    and persister: "\<And>utsa. emits is_bigquery (ctlPersister r utsa)"
    and run: "go_bind (ensure_finalizer r utsa)
      (reconcile_stages r cfg u (map (mkServiceAccount u) accounts)) w = (res, w')"
  shows "\<exists>es. events w' = events w @ es \<and> guarded (holds_finalizer utsa) es"
proof -
  note stages = emits_run [OF emits_reconcile_stages [OF persister]]
  show ?thesis
  proof (cases "holds_finalizer utsa")
    case True
    with F run have "reconcile_stages r cfg u (map (mkServiceAccount u) accounts) utsa w = (res, w')"
      by (simp add: ensure_finalizer_def finalizer_util.contains holds_finalizer_def)
    then obtain es where "events w' = events w @ es" "list_all stage_event es" by (rule stages)
    with True guarded_stages show ?thesis by auto
  next
    case False
    let ?u = "fAdd (ctlFinalizers r) utsa unionFinalizer"
    have held: "holds_finalizer ?u"
      using finalizer_util.add_sel(5) [OF F] by (simp add: holds_finalizer_def)
    have run': "go_bind (update_utsa r ?u) (reconcile_stages r cfg u (map (mkServiceAccount u) accounts)) w
        = (res, w')"
      using run False F by (simp add: ensure_finalizer_def finalizer_util.contains holds_finalizer_def)
    show ?thesis
    proof (cases rule: update_utsa_run [of r ?u w])
      case (refused e w1)
      with run' have "events w' = events w @ [EUpdate (UTSAObj ?u) (Inl e)]"
        by (auto simp: go_bind_def)
      with held show ?thesis by auto
    next
      case (accepted ob w1)
      with run' have "reconcile_stages r cfg u (map (mkServiceAccount u) accounts) (as_UTSA ob) w1 = (res, w')"
        by (simp add: go_bind_def)
      then obtain es where "events w' = events w1 @ es" "list_all stage_event es" by (rule stages)
      with accepted held guarded_stages show ?thesis
        by (intro exI [of _ "EUpdate (UTSAObj ?u) (Inr ob) # es"]) simp
    qed
  qed
qed

text \<open>The ways a reconciliation can go.\<close>

lemma Reconcile_run:
  obtains (unconfigured) "snd (Reconcile r req w) = w"
    | (nothing) reply where "events (snd (Reconcile r req w)) = events w @ [EGet UTSAKind req reply]"
    | (deletion) ob w1 where "events w1 = events w @ [EGet UTSAKind req (Inr ob)]"
        "Reconcile r req w = reconcile_deletion r (as_UTSA ob) w1"
    | (live) ob w1 cfg u where "events w1 = events w @ [EGet UTSAKind req (Inr ob)]"
        "Reconcile r req w = go_bind (ensure_finalizer r (as_UTSA ob)) (reconcile_stages r cfg u
           (map (mkServiceAccount u) (specServiceAccounts (utsaSpec (as_UTSA ob))))) w1"
proof (cases "ctlUnionConfig r")
  case None
  then show ?thesis by (intro unconfigured) (simp add: Reconcile_def go_defs)
next
  case (Some cfg)
  obtain reply w1 where get: "k8s_Get (ctlClient r) UTSAKind req w = (Ok reply, w1)"
    and ev: "events w1 = events w @ [EGet UTSAKind req reply]" by (rule Get_run)
  note run = Reconcile_def Some get go_bind_def [of "k8s_Get (ctlClient r) UTSAKind req"] Let_def
  show ?thesis
  proof (cases reply)
    case (Inl e)
    then have "events (snd (Reconcile r req w)) = events w @ [EGet UTSAKind req reply]"
      using ev by (simp add: run go_return_def go_err_def)
    then show ?thesis by (rule nothing)
  next
    case (Inr ob)
    note ob = Inr
    show ?thesis
    proof (cases "\<exists>gvk gvks. ctlObjectKinds r (as_UTSA ob) = Inr (gvk # gvks)")
      case False
      then have "Reconcile r req w = (Ok (), w1) \<or> (\<exists>e. Reconcile r req w = (Err e, w1))"
        by (auto simp: run ob go_return_def go_err_def split: sum.split list.split)
      then have "snd (Reconcile r req w) = w1" by auto
      with ev have "events (snd (Reconcile r req w)) = events w @ [EGet UTSAKind req reply]" by simp
      then show ?thesis by (rule nothing)
    next
      case True
      then obtain gvk gvks where kinds: "ctlObjectKinds r (as_UTSA ob) = Inr (gvk # gvks)" by blast
      show ?thesis
      proof (cases "Time_IsZero (metaDeletionTimestamp (utsaMeta (as_UTSA ob)))")
        case True
        then show ?thesis
          using ev ob by (intro live [of w1 ob cfg "union_env cfg gvk (as_UTSA ob)"]) (simp_all add: run kinds)
      next
        case False
        then show ?thesis
          using ev ob by (intro deletion [of w1 ob]) (simp_all add: run kinds)
      qed
    qed
  qed
qed

text \<open>
  C4. Whatever the API server and BigQuery answer, a reconciliation makes no write, and no
  call to BigQuery, before it knows that the finalizer is on the resource: it was read
  with it, or an update that adds it was accepted. Nothing happens after the update that
  removes it.
\<close>

theorem Reconcile_guarded:
  assumes "finalizer_util (ctlFinalizers r)" and "\<And>utsa. emits is_bigquery (ctlPersister r utsa)"
  shows "\<exists>es. events (snd (Reconcile r req w)) = events w @ es \<and> guarded False es"
proof -
  have later: ?thesis if "events w1 = events w @ [EGet UTSAKind req (Inr ob)]"
      "\<exists>es. events (snd (Reconcile r req w)) = events w1 @ es \<and> guarded (holds_finalizer (as_UTSA ob)) es"
    for ob w1
    using that by (auto intro: exI [of _ "EGet UTSAKind req (Inr ob) # es" for es])
  show ?thesis
  proof (cases rule: Reconcile_run [of r req w])
    case unconfigured
    then show ?thesis by (auto intro: exI [of _ "[]"])
  next
    case (nothing reply)
    then show ?thesis by simp
  next
    case (deletion ob w1)
    with guarded_deletion [OF assms(1) surjective_pairing, of "as_UTSA ob" w1] show ?thesis
      by (intro later [of w1 ob]) simp_all
  next
    case (live ob w1 cfg u)
    with guarded_live [OF assms surjective_pairing, where utsa = "as_UTSA ob" and w = w1] show ?thesis
      by (intro later [of w1 ob]) simp_all
  qed
qed

section \<open>The cluster after a reconciliation\<close>

lemma stamped_UTSAD:
  assumes "stamped (UTSAObj u) ob'"
  obtains u' where "ob' = UTSAObj u'" "utsaSpec u' = utsaSpec u"
    "metaFinalizers (utsaMeta u') = metaFinalizers (utsaMeta u)"
proof -
  have eq: "u\<lparr>utsaMeta := a\<rparr> = v\<lparr>utsaMeta := b\<rparr> \<Longrightarrow> utsaSpec v = utsaSpec u" for u v a b
    by (cases u, cases v) simp
  show thesis
  proof (cases ob')
    case (UTSAObj u')
    with assms have "utsaSpec u' = utsaSpec u"
      by (auto simp: stamped_def unstamp_def dest: eq)
    with UTSAObj stampedD(6) [OF assms] show thesis by (intro that [of u']) simp_all
  qed (use stampedD(1) [OF assms] in simp_all)
qed

lemma kind_UTSA: "kind_of ob = UTSAKind \<Longrightarrow> ob = UTSAObj (as_UTSA ob)"
  by (cases ob) simp_all

context kube_api
begin

lemma frame_update_utsa:
  assumes r: "ctlClient r = c" and ref: "ref_of (UTSAObj u) \<in> F"
  shows "safe (on_store store (same_off F)) (update_utsa r u)"
  unfolding update_utsa_def r
  by (intro frame.safe_bind frame_Update ref) simp_all

lemma ensure_finalizer_stored:
  assumes r: "ctlClient r = c" and F: "finalizer_util (ctlFinalizers r)"
    and stored: "store (ext w) (UTSAKind, key) = Some (UTSAObj utsa)"
    and run: "ensure_finalizer r utsa w = (Ok u', w')"
  shows "utsaSpec u' = utsaSpec utsa"
    and "\<exists>u''. store (ext w') (UTSAKind, key) = Some (UTSAObj u'') \<and> holds_finalizer u''
           \<and> utsaSpec u'' = utsaSpec utsa"
    and "same_off {(UTSAKind, key)} (store (ext w)) (store (ext w'))"
proof -
  have "utsaSpec u' = utsaSpec utsa \<and> (\<exists>u''. store (ext w') (UTSAKind, key) = Some (UTSAObj u'')
      \<and> holds_finalizer u'' \<and> utsaSpec u'' = utsaSpec utsa)
      \<and> same_off {(UTSAKind, key)} (store (ext w)) (store (ext w'))"
  proof (cases "holds_finalizer utsa")
    case True
    with run F have "u' = utsa" "w' = w"
      by (auto simp: ensure_finalizer_def finalizer_util.contains holds_finalizer_def)
    with stored True show ?thesis by simp
  next
    case False
    let ?u = "fAdd (ctlFinalizers r) utsa unionFinalizer"
    note sel = finalizer_util.add_sel [OF F, where u = utsa and f = unionFinalizer]
    from run False F have run': "update_utsa r ?u w = (Ok u', w')"
      by (simp add: ensure_finalizer_def finalizer_util.contains holds_finalizer_def)
    have ref: "ref_of (UTSAObj ?u) = (UTSAKind, key)"
      using store_ref [OF stored] by (simp add: ref_of_def sel)
    from sel(5) have held: "holds_finalizer ?u" by (simp add: holds_finalizer_def)
    then have live: "\<not> removable (UTSAObj ?u)" by (auto simp: removable_def holds_finalizer_def)
    show ?thesis
    proof (cases rule: update_utsa_run [of r ?u w])
      case (refused e w1)
      with run' show ?thesis by simp
    next
      case (accepted ob w1)
      with run' have w1: "w1 = w'" "u' = as_UTSA ob" by simp_all
      have upd: "updated (UTSAObj ?u) ob (store (ext w)) (store (ext w'))"
        using accepted(3) unfolding r w1(1) by (rule Update_OkD)
      then have "stamped (UTSAObj ?u) ob" "store (ext w') (UTSAKind, key) = Some ob"
        using live ref by (auto simp: updated_def)
      with w1 held sel(1) updated_same_off [OF upd] ref show ?thesis
        by (auto simp: holds_finalizer_def elim!: stamped_UTSAD)
    qed
  qed
  then show "utsaSpec u' = utsaSpec utsa"
    and "\<exists>u''. store (ext w') (UTSAKind, key) = Some (UTSAObj u'') \<and> holds_finalizer u''
           \<and> utsaSpec u'' = utsaSpec utsa"
    and "same_off {(UTSAKind, key)} (store (ext w)) (store (ext w'))"
    by simp_all
qed

end

lemma provisioned_off_istio:
  "same_off (of_kinds istio_kinds) m m' \<Longrightarrow> account_provisioned r sa m \<Longrightarrow> account_provisioned r sa m'"
  by (simp add: account_provisioned_def same_off_def of_kinds_def)

lemma env_policies_spec: "utsaSpec u = utsaSpec v \<Longrightarrow> env_policies m u = env_policies m v"
  by (simp add: env_policies_def fun_eq_iff)

lemma policy_istio: "AuthorizationPolicyKind \<in> istio_kinds"
  by simp

text \<open>The worlds between the stages of a run without error.\<close>

lemma reconcile_stages_OkE:
  assumes "reconcile_stages r cfg u sas utsa w = (Ok (), w')"
  obtains w1 w2 w3 w4 w5 w6 w7 where
    "ctlPersister r utsa w = (Ok (), w1)"
    "CreateOrUpdateServiceAccounts (ctl_accounts r cfg) u sas w1 = (Ok (), w2)"
    "CleanupRemovedServiceAccounts (ctl_accounts r cfg) u sas w2 = (Ok (), w3)"
    "EnsureExternalHosts (ctl_istio r) sas w3 = (Ok (), w4)"
    "EnsureCloudSQLHosts (ctl_istio r) sas w4 = (Ok (), w5)"
    "EnsureAuthorizationPolicies (ctl_istio r) sas w5 = (Ok (), w6)"
    "CleanupRemovedServiceAccountAuthzPolicies (ctl_istio r) utsa w6 = (Ok (), w7)"
    "CleanupUnusedHosts (ctlAliased r) (ctl_istio r) w7 = (Ok (), w')"
  using assms unfolding reconcile_stages_def reconcile_resources_def Let_def
  by (elim go_seq_OkE) blast

context kube_fresh
begin

lemma reconcile_stages_Ok:
  assumes r: "ctlClient r = c" and persister: "allowlist_persister (ctlPersister r) store"
    and run: "reconcile_stages r cfg u (map (mkServiceAccount u) accounts) utsa w = (Ok (), w')"
  shows "\<forall>a \<in> set accounts. account_provisioned (ctl_accounts r cfg) (mkServiceAccount u a) (store (ext w'))"
    and "same_off (of_kinds (sa_kinds \<union> istio_kinds)) (store (ext w)) (store (ext w'))"
    and "(AuthorizationPolicyKind, key) \<in> env_policies (store (ext w')) utsa
           (\<lambda>n. n \<noteq> [] \<and> n \<notin> listed_accounts utsa)
         \<Longrightarrow> gone (store (ext w')) (AuthorizationPolicyKind, key)"
proof -
  let ?sas = "map (mkServiceAccount u) accounts" and ?sar = "ctl_accounts r cfg" and ?ir = "ctl_istio r"
  let ?P = "\<lambda>n. n \<noteq> [] \<and> n \<notin> listed_accounts utsa"
  have sar: "sarClient ?sar = c" and ir: "irClient ?ir = c"
    using r by (simp_all add: ctl_accounts_def ctl_istio_def)
  from run obtain w1 w2 w3 w4 w5 w7 w8 where
    s1: "ctlPersister r utsa w = (Ok (), w1)" and
    s2: "CreateOrUpdateServiceAccounts ?sar u ?sas w1 = (Ok (), w2)" and
    s3: "CleanupRemovedServiceAccounts ?sar u ?sas w2 = (Ok (), w3)" and
    s4: "EnsureExternalHosts ?ir ?sas w3 = (Ok (), w4)" and
    s5: "EnsureCloudSQLHosts ?ir ?sas w4 = (Ok (), w5)" and
    s6: "EnsureAuthorizationPolicies ?ir ?sas w5 = (Ok (), w7)" and
    s7: "CleanupRemovedServiceAccountAuthzPolicies ?ir utsa w7 = (Ok (), w8)" and
    s8: "CleanupUnusedHosts (ctlAliased r) ?ir w8 = (Ok (), w')"
    by (rule reconcile_stages_OkE)
  have e1: "store (ext w1) = store (ext w)" using persister s1 by (rule allowlist_persister.persist_store)
  have e2: "same_off (of_kinds sa_kinds) (store (ext w1)) (store (ext w2))"
    using safeD [OF kinds_CreateOrUpdateServiceAccounts [OF sar] s2] by (simp add: on_store_def)
  have e3: "same_off (of_kinds sa_kinds) (store (ext w2)) (store (ext w3))"
    using safeD [OF kinds_CleanupRemovedServiceAccounts [OF sar] s3] by (simp add: on_store_def)
  have "same_off (of_kinds istio_kinds) (store (ext w3)) (store (ext w7))"
    using safeD [OF kinds_EnsureHosts(1) [OF ir] s4] safeD [OF kinds_EnsureHosts(2) [OF ir] s5]
      safeD [OF kinds_EnsureAuthorizationPolicies [OF ir policy_istio] s6]
    by (simp add: on_store_def same_off_def)
  with safeD [OF kinds_CleanupPolicies(1) [OF ir policy_istio] s7]
    safeD [OF kinds_CleanupUnusedHosts [OF ir] s8]
  have e8: "same_off (of_kinds istio_kinds) (store (ext w3)) (store (ext w'))"
    by (simp add: on_store_def same_off_def)
  have "account_provisioned ?sar (mkServiceAccount u a) (store (ext w'))" if a: "a \<in> set accounts" for a
  proof (rule provisioned_off_istio [OF e8], rule same_off_provisioned)
    show "same_off (removed_refs u (saName ` set ?sas)) (store (ext w2)) (store (ext w3))"
      using safeD [OF frame_CleanupRemovedServiceAccounts [OF sar] s3] by (simp only: on_store_def)
    show "saName (mkServiceAccount u a) \<in> saName ` set ?sas" using a by (auto simp: image_image)
    show "account_provisioned ?sar (mkServiceAccount u a) (store (ext w2))"
      using CreateOrUpdate_provisions [OF sar s2] a by blast
  qed
  then show "\<forall>a \<in> set accounts. account_provisioned ?sar (mkServiceAccount u a) (store (ext w'))" ..
  show "same_off (of_kinds (sa_kinds \<union> istio_kinds)) (store (ext w)) (store (ext w'))"
    using e1 e2 e3 e8 by (simp add: same_off_def of_kinds_def)
  show "gone (store (ext w')) (AuthorizationPolicyKind, key)"
    if "(AuthorizationPolicyKind, key) \<in> env_policies (store (ext w')) utsa ?P"
  proof (rule deletes_of_policies [OF _ _ that])
    show "deletes_of {AuthorizationPolicyKind} (store (ext w8)) (store (ext w'))"
      using safeD [OF del_of_CleanupUnusedHosts [OF ir] s8] by (simp add: on_store_def)
    fix ref
    assume ref: "ref \<in> env_policies (store (ext w8)) utsa ?P"
    have off: "same_off (env_policies (store (ext w7)) utsa ?P) (store (ext w7)) (store (ext w8))"
      using safeD [OF frame_CleanupRemovedPolicies [OF ir] s7, of "store (ext w7)"]
      by (simp add: on_store_def off_from_def)
    have "ref \<in> env_policies (store (ext w7)) utsa ?P"
    proof (rule ccontr)
      assume no: "ref \<notin> env_policies (store (ext w7)) utsa ?P"
      with off have "store (ext w8) ref = store (ext w7) ref" by (rule same_offD)
      with ref no show False by (simp add: env_policies_def)
    qed
    with CleanupRemovedPolicies_gone [OF ir s7] show "gone (store (ext w8)) ref" .
  qed
qed

end

context kube_fresh
begin

lemma Reconcile_found:
  assumes r: "ctlClient r = c" and cfg: "ctlUnionConfig r = Some cfg"
    and stored: "store (ext w) (UTSAKind, req) = Some (UTSAObj utsa)"
    and kinds: "ctlObjectKinds r utsa = Inr (gvk # gvks)"
  obtains (failed) e w1 where "Reconcile r req w = (Err (ApiError e), w1)"
      "store (ext w1) = store (ext w)"
    | (found) w1 where "store (ext w1) = store (ext w)"
      "Reconcile r req w = (if \<not> Time_IsZero (metaDeletionTimestamp (utsaMeta utsa))
         then reconcile_deletion r utsa w1
         else go_bind (ensure_finalizer r utsa) (reconcile_stages r cfg (union_env cfg gvk utsa)
           (map (mkServiceAccount (union_env cfg gvk utsa)) (specServiceAccounts (utsaSpec utsa)))) w1)"
proof -
  obtain reply w1 where get: "k8s_Get c UTSAKind req w = (Ok reply, w1)"
    by (cases "k8s_Get c UTSAKind req w") (auto elim!: Get_OkD)
  then have same: "store (ext w1) = store (ext w)" by (auto elim: Get_OkD)
  show thesis
  proof (cases reply)
    case (Inl e)
    have "\<not> IsNotFound e"
      using Get_NotFoundD [of UTSAKind req w e w1] get Inl stored by auto
    with get Inl cfg same show thesis
      by (intro failed [of e w1]) (simp_all add: Reconcile_def r go_bind_def go_err_def)
  next
    case (Inr ob)
    with get stored have "ob = UTSAObj utsa" by (auto elim!: Get_OkD)
    with get Inr cfg same kinds show thesis
      by (intro found [of w1]) (simp_all add: Reconcile_def r go_bind_def [of "k8s_Get c UTSAKind req"] Let_def)
  qed
qed

lemma Reconcile_live_stages:
  assumes r: "ctlClient r = c" and F: "finalizer_util (ctlFinalizers r)"
    and cfg: "ctlUnionConfig r = Some cfg"
    and stored: "store (ext w) (UTSAKind, req) = Some (UTSAObj utsa)"
    and live: "Time_IsZero (metaDeletionTimestamp (utsaMeta utsa))"
    and kinds: "ctlObjectKinds r utsa = Inr (gvk # gvks)"
    and run: "Reconcile r req w = (Ok (), w')"
  obtains u w1 where "utsaSpec u = utsaSpec utsa"
    "\<exists>u'. store (ext w1) (UTSAKind, req) = Some (UTSAObj u') \<and> holds_finalizer u'
      \<and> utsaSpec u' = utsaSpec utsa"
    "same_off {(UTSAKind, req)} (store (ext w)) (store (ext w1))"
    "reconcile_stages r cfg (union_env cfg gvk utsa)
      (map (mkServiceAccount (union_env cfg gvk utsa)) (specServiceAccounts (utsaSpec utsa))) u w1 = (Ok (), w')"
  using r cfg stored kinds
proof (cases rule: Reconcile_found)
  case (found w1)
  with run live obtain u w2 where fin: "ensure_finalizer r utsa w1 = (Ok u, w2)"
    and stages: "reconcile_stages r cfg (union_env cfg gvk utsa)
      (map (mkServiceAccount (union_env cfg gvk utsa)) (specServiceAccounts (utsaSpec utsa))) u w2 = (Ok (), w')"
    by (auto elim!: go_bind_OkE)
  note after = ensure_finalizer_stored [OF r F _ fin, of req, unfolded found(1), OF stored]
  from that [OF after stages] show thesis .
qed (use run in simp)

lemma Reconcile_live:
  assumes r: "ctlClient r = c" and F: "finalizer_util (ctlFinalizers r)"
    and persister: "allowlist_persister (ctlPersister r) store"
    and cfg: "ctlUnionConfig r = Some cfg"
    and stored: "store (ext w) (UTSAKind, req) = Some (UTSAObj utsa)"
    and live: "Time_IsZero (metaDeletionTimestamp (utsaMeta utsa))"
    and kinds: "ctlObjectKinds r utsa = Inr (gvk # gvks)"
    and run: "Reconcile r req w = (Ok (), w')"
  shows "\<forall>a \<in> set (specServiceAccounts (utsaSpec utsa)).
      account_provisioned (ctl_accounts r cfg) (mkServiceAccount (union_env cfg gvk utsa) a) (store (ext w'))"
    and "\<exists>u'. store (ext w') (UTSAKind, req) = Some (UTSAObj u') \<and> holds_finalizer u'
      \<and> utsaSpec u' = utsaSpec utsa"
    and "\<forall>key. (AuthorizationPolicyKind, key) \<in> env_policies (store (ext w')) utsa
        (\<lambda>n. n \<noteq> [] \<and> n \<notin> listed_accounts utsa) \<longrightarrow> gone (store (ext w')) (AuthorizationPolicyKind, key)"
proof -
  let ?u = "union_env cfg gvk utsa"
  let ?sas = "map (mkServiceAccount ?u) (specServiceAccounts (utsaSpec utsa))"
  obtain u1 w2 where spec: "utsaSpec u1 = utsaSpec utsa"
    and stored1: "\<exists>u'. store (ext w2) (UTSAKind, req) = Some (UTSAObj u') \<and> holds_finalizer u'
      \<and> utsaSpec u' = utsaSpec utsa"
    and stages: "reconcile_stages r cfg ?u ?sas u1 w2 = (Ok (), w')"
    using r F cfg stored live kinds run by (rule Reconcile_live_stages)
  note ok = reconcile_stages_Ok [OF r persister stages]
  show "\<forall>a \<in> set (specServiceAccounts (utsaSpec utsa)).
      account_provisioned (ctl_accounts r cfg) (mkServiceAccount ?u a) (store (ext w'))" by (rule ok(1))
  have "store (ext w') (UTSAKind, req) = store (ext w2) (UTSAKind, req)"
    using ok(2) by (rule same_offD) simp
  with stored1 show "\<exists>u'. store (ext w') (UTSAKind, req) = Some (UTSAObj u') \<and> holds_finalizer u'
      \<and> utsaSpec u' = utsaSpec utsa" by simp
  have env: "env_policies m u1 = env_policies m utsa" for m
    using spec by (rule env_policies_spec)
  have listed: "listed_accounts u1 = listed_accounts utsa"
    using spec by (simp add: listed_accounts_def)
  show "\<forall>key. (AuthorizationPolicyKind, key) \<in> env_policies (store (ext w')) utsa
        (\<lambda>n. n \<noteq> [] \<and> n \<notin> listed_accounts utsa) \<longrightarrow> gone (store (ext w')) (AuthorizationPolicyKind, key)"
    using ok(3) unfolding env listed by blast
qed

lemma Reconcile_terminating:
  assumes r: "ctlClient r = c" and F: "finalizer_util (ctlFinalizers r)"
    and cfg: "ctlUnionConfig r = Some cfg"
    and stored: "store (ext w) (UTSAKind, req) = Some (UTSAObj utsa)"
    and dying: "\<not> Time_IsZero (metaDeletionTimestamp (utsaMeta utsa))"
    and held: "holds_finalizer utsa"
    and kinds: "ctlObjectKinds r utsa = Inr (gvk # gvks)"
    and D: "D = env_policies (store (ext w)) utsa (\<lambda>n. n \<in> listed_accounts utsa)"
    and run: "Reconcile r req w = (res, w')"
  shows "same_off (insert (UTSAKind, req) D) (store (ext w)) (store (ext w'))"
    and "store (ext w') (UTSAKind, req) \<noteq> Some (UTSAObj utsa) \<or> res = Ok ()
      \<Longrightarrow> \<forall>ref \<in> D. gone (store (ext w')) ref"
    and "res = Ok () \<Longrightarrow> (if set (metaFinalizers (utsaMeta utsa)) = {unionFinalizer}
      then store (ext w') (UTSAKind, req) = None
      else \<exists>u'. store (ext w') (UTSAKind, req) = Some (UTSAObj u') \<and> \<not> holds_finalizer u')"
proof -
  let ?m = "store (ext w)"
  let ?goal = "same_off (insert (UTSAKind, req) D) ?m (store (ext w'))
    \<and> (store (ext w') (UTSAKind, req) \<noteq> Some (UTSAObj utsa) \<or> res = Ok () \<longrightarrow> (\<forall>ref \<in> D. gone (store (ext w')) ref))
    \<and> (res = Ok () \<longrightarrow> (if set (metaFinalizers (utsaMeta utsa)) = {unionFinalizer}
        then store (ext w') (UTSAKind, req) = None
        else \<exists>u'. store (ext w') (UTSAKind, req) = Some (UTSAObj u') \<and> \<not> holds_finalizer u'))"
  have notD: "(UTSAKind, req) \<notin> D" using stored by (auto simp: D env_policies_def)
  have ?goal
    using r cfg stored kinds
  proof (cases rule: Reconcile_found)
    case (failed e w1)
    with run have "res = Err (ApiError e)" "store (ext w') = ?m" by simp_all
    with stored show ?thesis by simp
  next
    case (found w1)
    let ?u = "fRemove (ctlFinalizers r) utsa unionFinalizer"
    note sel = finalizer_util.remove_sel [OF F, where u = utsa and f = unionFinalizer]
    obtain res1 w2 where clean: "CleanupUTSAServiceAccountAuthzPolicies (ctl_istio r) utsa w1 = (res1, w2)"
      by (cases "CleanupUTSAServiceAccountAuthzPolicies (ctl_istio r) utsa w1")
    have ir: "irClient (ctl_istio r) = c" using r by (simp add: ctl_istio_def)
    have off: "same_off D ?m (store (ext w2))"
      using safeD [OF frame_CleanupUTSAPolicies [OF ir] clean, of ?m] found(1)
      by (simp add: on_store_def off_from_def D)
    have kept: "store (ext w2) (UTSAKind, req) = Some (UTSAObj utsa)"
      using same_offD [OF off notD] stored by simp
    have body: "go_seq (IstioCleanup.CleanupAllResources (ctl_istio r) utsa)
        (go_bind (update_utsa r ?u) (\<lambda>_. go_return ())) w1 = (res, w')"
      using run found(2) dying held F
      by (simp add: reconcile_deletion_def finalizer_util.contains holds_finalizer_def)
    show ?thesis
    proof (cases "res1 = Ok ()")
      case False
      with body clean have "res = res1" "w' = w2"
        by (cases res1; auto simp: go_seq_def go_bind_def IstioCleanup.CleanupAllResources_def)+
      with off kept False show ?thesis by (auto intro: same_off_mono)
    next
      case True
      have gone: "gone (store (ext w2)) ref" if "ref \<in> D" for ref
        using CleanupUTSAPolicies_gone [OF ir clean [unfolded True]] that found(1) by (simp add: D)
      from body clean True have update: "go_bind (update_utsa r ?u) (\<lambda>_. go_return ()) w2 = (res, w')"
        by (simp add: go_seq_def go_bind_def IstioCleanup.CleanupAllResources_def)
      have ref: "ref_of (UTSAObj ?u) = (UTSAKind, req)"
        using store_ref [OF stored] by (simp add: ref_of_def sel)
      have "safe (on_store store (same_off {(UTSAKind, req)})) (go_bind (update_utsa r ?u) (\<lambda>_. go_return ()))"
        by (intro frame.safe_bind frame_update_utsa r) (simp_all add: ref)
      from safeD [OF this update] have off2: "same_off {(UTSAKind, req)} (store (ext w2)) (store (ext w'))"
        by (simp add: on_store_def)
      have gone': "\<forall>ref \<in> D. gone (store (ext w')) ref"
      proof
        fix ref
        assume "ref \<in> D"
        with notD have "ref \<notin> {(UTSAKind, req)}" by auto
        with off2 have "store (ext w') ref = store (ext w2) ref" by (rule same_offD)
        with gone [OF \<open>ref \<in> D\<close>] show "gone (store (ext w')) ref" by (simp add: gone_def)
      qed
      have off': "same_off (insert (UTSAKind, req) D) ?m (store (ext w'))"
        using off off2 by (simp add: same_off_def)
      have final: "if set (metaFinalizers (utsaMeta utsa)) = {unionFinalizer}
          then store (ext w') (UTSAKind, req) = None
          else \<exists>u'. store (ext w') (UTSAKind, req) = Some (UTSAObj u') \<and> \<not> holds_finalizer u'" if "res = Ok ()"
      proof (cases rule: update_utsa_run [of r ?u w2])
        case (refused e w3)
        with update that show ?thesis by (simp add: go_bind_def)
      next
        case (accepted ob w3)
        with update have w3: "w3 = w'" by (simp add: go_bind_def go_return_def)
        have upd: "updated (UTSAObj ?u) ob (store (ext w2)) (store (ext w'))"
          using accepted(3) unfolding r w3 by (rule Update_OkD)
        have rem: "removable (UTSAObj ?u) \<longleftrightarrow> set (metaFinalizers (utsaMeta utsa)) = {unionFinalizer}"
          using dying held sel(4,5)
          by (auto simp: removable_def Time_IsZero_def holds_finalizer_def
              simp flip: set_empty split: option.splits)
        show ?thesis
        proof (cases "removable (UTSAObj ?u)")
          case True
          with upd ref rem show ?thesis by (simp add: updated_def)
        next
          case False
          with upd ref have "stamped (UTSAObj ?u) ob" "store (ext w') (UTSAKind, req) = Some ob"
            by (simp_all add: updated_def)
          with False rem sel(5) show ?thesis
            by (auto simp: holds_finalizer_def elim!: stamped_UTSAD)
        qed
      qed
      with off' gone' show ?thesis by blast
    qed
  qed
  then show "same_off (insert (UTSAKind, req) D) (store (ext w)) (store (ext w'))"
    and "store (ext w') (UTSAKind, req) \<noteq> Some (UTSAObj utsa) \<or> res = Ok ()
      \<Longrightarrow> \<forall>ref \<in> D. gone (store (ext w')) ref"
    and "res = Ok () \<Longrightarrow> (if set (metaFinalizers (utsaMeta utsa)) = {unionFinalizer}
      then store (ext w') (UTSAKind, req) = None
      else \<exists>u'. store (ext w') (UTSAKind, req) = Some (UTSAObj u') \<and> \<not> holds_finalizer u')"
    by blast+
qed

end

text \<open>
  C1. End to end: when a reconciliation of a live resource returns without error, every
  service account of its specification is provisioned; no policy of the environment is
  left for an account that is not in it, but those marked for deletion; and the resource
  is stored with its finalizer and an unchanged specification.
\<close>

theorem Reconcile_complete:
  assumes "kube_fresh (ctlClient r) store" and "finalizer_util (ctlFinalizers r)"
    and "allowlist_persister (ctlPersister r) store"
    and "ctlUnionConfig r = Some cfg"
    and "store (ext w) (UTSAKind, req) = Some (UTSAObj utsa)"
    and "Time_IsZero (metaDeletionTimestamp (utsaMeta utsa))"
    and "ctlObjectKinds r utsa = Inr (gvk # gvks)"
    and "Reconcile r req w = (Ok (), w')"
  shows "(\<forall>a \<in> set (specServiceAccounts (utsaSpec utsa)).
      account_provisioned (ctl_accounts r cfg) (mkServiceAccount (union_env cfg gvk utsa) a) (store (ext w')))
    \<and> (\<exists>u'. store (ext w') (UTSAKind, req) = Some (UTSAObj u') \<and> holds_finalizer u'
         \<and> utsaSpec u' = utsaSpec utsa)
    \<and> (\<forall>key. (AuthorizationPolicyKind, key) \<in> env_policies (store (ext w')) utsa
           (\<lambda>n. n \<noteq> [] \<and> n \<notin> listed_accounts utsa)
         \<longrightarrow> gone (store (ext w')) (AuthorizationPolicyKind, key))"
  by (intro conjI kube_fresh.Reconcile_live [OF assms(1) refl assms(2-8)])

text \<open>
  C5. Deletion: of a resource that is being deleted, with the finalizer on it, a
  reconciliation touches nothing but the resource and the policies of the accounts its
  specification lists. The resource changes only after all those policies are gone, and
  without an error it then has lost the finalizer, or is gone if that was its only one.
\<close>

theorem Reconcile_deletion:
  assumes "kube_fresh (ctlClient r) store" and "finalizer_util (ctlFinalizers r)"
    and "ctlUnionConfig r = Some cfg"
    and "store (ext w) (UTSAKind, req) = Some (UTSAObj utsa)"
    and "\<not> Time_IsZero (metaDeletionTimestamp (utsaMeta utsa))" and "holds_finalizer utsa"
    and "ctlObjectKinds r utsa = Inr (gvk # gvks)"
    and "D = env_policies (store (ext w)) utsa (\<lambda>n. n \<in> listed_accounts utsa)"
    and "Reconcile r req w = (res, w')"
  shows "same_off (insert (UTSAKind, req) D) (store (ext w)) (store (ext w'))
    \<and> (store (ext w') (UTSAKind, req) \<noteq> Some (UTSAObj utsa) \<or> res = Ok ()
       \<longrightarrow> (\<forall>ref \<in> D. gone (store (ext w')) ref))
    \<and> (res = Ok () \<longrightarrow> (if set (metaFinalizers (utsaMeta utsa)) = {unionFinalizer}
         then store (ext w') (UTSAKind, req) = None
         else \<exists>u'. store (ext w') (UTSAKind, req) = Some (UTSAObj u') \<and> \<not> holds_finalizer u'))"
  using kube_fresh.Reconcile_terminating [OF assms(1) refl assms(2-9)] by blast

section \<open>No provisioning without an audit record\<close>

fun provisions :: "event \<Rightarrow> bool" where
  "provisions (ECreate _ _) = True"
| "provisions (EPatch _ _ _) = True"
| "provisions (ECreateOrUpdate _ _ _) = True"
| "provisions (EUpdate ob _) = (kind_of ob \<noteq> UTSAKind)"
| "provisions _ = False"

text \<open>The resource as the server last answered it.\<close>

fun answered :: "UnionTeamServiceAccounts option \<Rightarrow> event \<Rightarrow> UnionTeamServiceAccounts option" where
  "answered u (EGet k key (Inr ob)) = (if k = UTSAKind then Some (as_UTSA ob) else u)"
| "answered u (EUpdate (UTSAObj x) (Inr ob)) = Some (as_UTSA ob)"
| "answered u _ = u"

lemma bigquery_not_provisions: "list_all is_bigquery es \<Longrightarrow> list_all (\<lambda>e. \<not> provisions e) es"
proof (induction es)
  case (Cons e es)
  then show ?case by (cases e) simp_all
qed simp

lemma emits_deletion: "emits (\<lambda>e. \<not> provisions e) (reconcile_deletion r utsa)"
  unfolding reconcile_deletion_def update_utsa_def IstioCleanup.CleanupAllResources_def
    CleanupUTSAServiceAccountAuthzPolicies_def delete_policy_def
  by (rule stage_rules | simp)+

definition audited ::
    "Persister \<Rightarrow> UnionTeamServiceAccounts option \<Rightarrow> event list \<Rightarrow> event list \<Rightarrow> bool" where
  "audited p u pre post \<longleftrightarrow> list_all (\<lambda>e. \<not> provisions e) pre
     \<and> (post = [] \<or> (\<exists>rs es utsa. pre = rs @ es \<and> foldl answered u rs = Some utsa
          \<and> persist_trace (BigQuerySink p) (allowlist_rows utsa) es (Ok ())))"

lemma audited_Cons: "audited p (answered u e) pre post \<Longrightarrow> \<not> provisions e \<Longrightarrow> audited p u (e # pre) post"
  unfolding audited_def by (metis append_Cons foldl.simps(2) list.pred_inject(2))

lemma audited_stages:
  assumes P: "ctlPersister r = PersistAllowlist bq p"
    and run: "reconcile_stages r cfg u (map (mkServiceAccount u) accounts) utsa w = (res, w')"
  shows "\<exists>pre post. events w' = events w @ pre @ post \<and> audited p (Some utsa) pre post"
proof -
  obtain res1 w1 where persist: "PersistAllowlist bq p utsa w = (res1, w1)"
    by (cases "PersistAllowlist bq p utsa w")
  then obtain es where es: "events w1 = events w @ es"
    "persist_trace (BigQuerySink p) (allowlist_rows utsa) es res1"
    by (auto dest: PersistAllowlist_run)
  then have quiet: "list_all (\<lambda>e. \<not> provisions e) es"
    by (intro bigquery_not_provisions persist_trace_bigquery)
  show ?thesis
  proof (cases "res1 = Ok ()")
    case True
    with run persist P have "reconcile_resources r cfg u (map (mkServiceAccount u) accounts) utsa w1 = (res, w')"
      by (simp add: reconcile_stages_def go_seq_def go_bind_def)
    then obtain fs where "events w' = events w1 @ fs" by (rule emits_run [OF emits_reconcile_resources])
    moreover have "audited p (Some utsa) es fs"
      unfolding audited_def using quiet es(2) True
      by (intro conjI disjI2 exI [of _ "[]"] exI [of _ es] exI [of _ utsa]) simp_all
    ultimately show ?thesis using es(1) by auto
  next
    case False
    with run persist P have "w' = w1" by (cases res1) (auto simp: reconcile_stages_def go_seq_def go_bind_def)
    with es quiet show ?thesis by (intro exI [of _ es] exI [of _ "[]"]) (simp add: audited_def)
  qed
qed

text \<open>
  C7. Audit before effect: with the BigQuery persister, whatever the servers answer, the
  log of a reconciliation splits in two. The first part creates, patches and updates
  nothing but the resource itself; and the second is empty unless the first ends with a
  complete run of the persister for the resource as the server last answered it, so that
  the row of every service account is stored before anything is provisioned for it.
\<close>

theorem Reconcile_audited:
  "\<exists>pre post. events (snd (Reconcile (r\<lparr>ctlPersister := PersistAllowlist bq p\<rparr>) req w))
       = events w @ pre @ post \<and> audited p None pre post"
proof -
  let ?r = "r\<lparr>ctlPersister := PersistAllowlist bq p\<rparr>"
  have later: ?thesis if ev: "events w1 = events w @ [EGet UTSAKind req (Inr ob)]"
      and rest: "\<exists>pre post. events (snd (Reconcile ?r req w)) = events w1 @ pre @ post
        \<and> audited p (Some (as_UTSA ob)) pre post" for ob w1
  proof -
    from rest obtain pre post where *: "events (snd (Reconcile ?r req w)) = events w1 @ pre @ post"
      "audited p (Some (as_UTSA ob)) pre post" by blast
    then have "audited p None (EGet UTSAKind req (Inr ob) # pre) post" by (intro audited_Cons) simp_all
    with * ev show ?thesis by (intro exI [of _ "EGet UTSAKind req (Inr ob) # pre"] exI [of _ post]) simp
  qed
  show ?thesis
  proof (cases rule: Reconcile_run [of ?r req w])
    case unconfigured
    then show ?thesis by (auto simp: audited_def)
  next
    case (nothing reply)
    then show ?thesis by (intro exI [of _ "[EGet UTSAKind req reply]"] exI [of _ "[]"]) (simp add: audited_def)
  next
    case (deletion ob w1)
    from emits_run [OF emits_deletion surjective_pairing] obtain es where
      "events (snd (reconcile_deletion ?r (as_UTSA ob) w1)) = events w1 @ es"
      "list_all (\<lambda>e. \<not> provisions e) es" by blast
    with deletion show ?thesis
      by (intro later [of w1 ob] exI [of _ es] exI [of _ "[]"]) (simp_all add: audited_def)
  next
    case (live ob w1 cfg u)
    let ?utsa = "as_UTSA ob"
    let ?stages = "reconcile_stages ?r cfg u (map (mkServiceAccount u) (specServiceAccounts (utsaSpec ?utsa)))"
    let ?u = "fAdd (ctlFinalizers ?r) ?utsa unionFinalizer"
    note stages = audited_stages [of ?r bq p cfg u "specServiceAccounts (utsaSpec ?utsa)", simplified]
    show ?thesis
    proof (rule later [OF live(1)], cases "fContains (ctlFinalizers ?r) ?utsa unionFinalizer")
      case True
      with live(2) have "Reconcile ?r req w = ?stages ?utsa w1"
        by (simp add: ensure_finalizer_def)
      with stages [of ?utsa w1] show "\<exists>pre post. events (snd (Reconcile ?r req w)) = events w1 @ pre @ post
          \<and> audited p (Some ?utsa) pre post" by (cases "?stages ?utsa w1") auto
    next
      case False
      then have run: "Reconcile ?r req w = go_bind (update_utsa ?r ?u) ?stages w1"
        using live(2) by (simp add: ensure_finalizer_def)
      show "\<exists>pre post. events (snd (Reconcile ?r req w)) = events w1 @ pre @ post
          \<and> audited p (Some ?utsa) pre post"
      proof (cases rule: update_utsa_run [of ?r ?u w1])
        case (refused e w2)
        with run show ?thesis
          by (intro exI [of _ "[EUpdate (UTSAObj ?u) (Inl e)]"] exI [of _ "[]"])
            (simp add: audited_def go_bind_def)
      next
        case (accepted ob2 w2)
        with run have "Reconcile ?r req w = ?stages (as_UTSA ob2) w2" by (simp add: go_bind_def)
        with stages [of "as_UTSA ob2" w2] obtain pre post where
          *: "events (snd (Reconcile ?r req w)) = events w2 @ pre @ post"
          "audited p (Some (as_UTSA ob2)) pre post" by (cases "?stages (as_UTSA ob2) w2") auto
        then have "audited p (Some ?utsa) (EUpdate (UTSAObj ?u) (Inr ob2) # pre) post"
          by (intro audited_Cons) simp_all
        with * accepted(2) show ?thesis
          by (intro exI [of _ "EUpdate (UTSAObj ?u) (Inr ob2) # pre"] exI [of _ post]) simp
      qed
    qed
  qed
qed

section \<open>Instances\<close>

text \<open>The controller on the in-memory API server, and a resource in two stages of its life.\<close>

definition example_ctl :: "mem UTSAReconciler" where
  "example_ctl =
     \<lparr>ctlClient = mem_client 0,
      ctlObjectKinds = (\<lambda>_. Inr [\<lparr>gvkGroupVersion = ''data.nav.no/v1alpha1'',
        gvkKind = ''UnionTeamServiceAccounts''\<rparr>]),
      ctlFinalizers = list_finalizers,
      ctlOnpremHosts = Map.empty,
      ctlUnionConfig = Some \<lparr>cfgGCPProjectName = ''gcp'', cfgFastRegistrationBucket = ''fast'',
        cfgDataBucket = ''data'', cfgOnpremHostMapFilePath = [],
        cfgAllowlistHistory = \<lparr>ahProject = ''gcp'', ahBigqueryDataset = ''union'', ahTableName = ''allowlist''\<rparr>\<rparr>,
      ctlPersister = PersistAllowlist mem_bigquery (NewPersister example_sink),
      ctlAliased = True\<rparr>"

definition example_resource ::
    "UnionServiceAccount list \<Rightarrow> string list \<Rightarrow> int option \<Rightarrow> UnionTeamServiceAccounts" where
  "example_resource accounts finalizers deletion =
     \<lparr>utsaMeta = (new_meta ''team'' ''union'' Map.empty)
        \<lparr>metaFinalizers := finalizers, metaDeletionTimestamp := deletion\<rparr>,
      utsaSpec = \<lparr>specProject = ''proj'', specDomain = ''dev'', specServiceAccounts = accounts\<rparr>,
      utsaStatusConditions = []\<rparr>"

lemma example_ctl_ok:
  "kube_fresh (ctlClient example_ctl) mem_store" "finalizer_util (ctlFinalizers example_ctl)"
  "allowlist_persister (ctlPersister example_ctl) mem_store"
  by (simp_all add: example_ctl_def mem_fresh.kube_fresh_axioms list_finalizers.finalizer_util_axioms
      mem_bq.persister.allowlist_persister_axioms)

lemma example_stored:
  "\<not> removable (UTSAObj (example_resource sas fs t))
     \<Longrightarrow> mem_store (ext (example_world (UTSAObj (example_resource sas fs t) # obs))) (UTSAKind, (''union'', ''team''))
       = Some (UTSAObj (example_resource sas fs t))"
  by (simp add: mem_store_def mem_objects_def example_world_def ref_of_def example_resource_def)

theorem Reconcile_guarded_witness:
  "\<exists>es. events (snd (Reconcile example_ctl (''union'', ''team'')
      (example_world [UTSAObj (example_resource [] [] None)]))) = es \<and> guarded False es"
  using Reconcile_guarded [OF example_ctl_ok(2), of "(''union'', ''team'')"
      "example_world [UTSAObj (example_resource [] [] None)]"]
    PersistAllowlist_emits
  by (auto simp: example_world_def example_ctl_def)

lemmas persist_program_defs =
  PersistAllowlist_def createAllowlistTableIfNotExists_def defer_close_def bq_NewClient_def
  bq_Create_def bq_Put_def bq_Close_def check_bq_def mem_bigquery_def

theorem Reconcile_deletion_witness:
  "case Reconcile example_ctl (''union'', ''team'')
      (example_world [UTSAObj (example_resource [example_account] [unionFinalizer] (Some 5)), example_policy]) of
     (res, w') \<Rightarrow> res = Ok () \<and> gone (mem_store (ext w')) (ref_of example_policy)
       \<and> mem_store (ext w') (UTSAKind, (''union'', ''team'')) = None"
proof -
  let ?u = "example_resource [example_account] [unionFinalizer] (Some 5)" and ?req = "(''union'', ''team'')"
  let ?w = "example_world [UTSAObj ?u, example_policy]"
  let ?run = "Reconcile example_ctl ?req ?w"
  obtain res w' where run: "?run = (res, w')" by (cases ?run)
  have "fst ?run = Ok ()"
    by (simp add: Reconcile_def reconcile_deletion_def update_utsa_def IstioCleanup.CleanupAllResources_def
        CleanupUTSAServiceAccountAuthzPolicies_def delete_policy_def example_ctl_def list_finalizers_def
        ctl_istio_def example_resource_def example_account_def example_world_def example_policy_def
        egress_opts_def inEgressNamespace_def EgressNamespace_def Time_IsZero_def unionFinalizer_def
        Let_def mem_eval)
  with run have ok: "res = Ok ()" by simp
  have stored: "mem_store (ext ?w) (UTSAKind, ?req) = Some (UTSAObj ?u)"
    by (rule example_stored) (simp add: removable_def example_resource_def)
  let ?D = "env_policies (mem_store (ext ?w)) ?u (\<lambda>n. n \<in> listed_accounts ?u)"
  have policy: "ref_of example_policy \<in> ?D"
    by (auto simp: env_policies_def example_policy_def example_world_def example_resource_def mem_store_def
      mem_objects_def removable_def ref_of_def EgressNamespace_def listed_accounts_def example_account_def)
  have "set (metaFinalizers (utsaMeta ?u)) = {unionFinalizer}" "\<not> Time_IsZero (metaDeletionTimestamp (utsaMeta ?u))"
    "holds_finalizer ?u"
    by (simp_all add: example_resource_def Time_IsZero_def holds_finalizer_def)
  then show ?thesis
    using Reconcile_deletion [OF example_ctl_ok(1,2) _ stored _ _ _ refl run] policy ok run
    by (simp add: example_ctl_def)
qed

theorem Reconcile_complete_witness:
  "case Reconcile example_ctl (''union'', ''team'')
      (example_world [UTSAObj (example_resource [] [] None), example_policy]) of
     (res, w') \<Rightarrow> res = Ok ()
       \<and> (\<exists>u'. mem_store (ext w') (UTSAKind, (''union'', ''team'')) = Some (UTSAObj u') \<and> holds_finalizer u')
       \<and> (\<forall>key. (AuthorizationPolicyKind, key) \<in> env_policies (mem_store (ext w'))
              (example_resource [] [] None) (\<lambda>n. n = ''sa'') \<longrightarrow> gone (mem_store (ext w')) (AuthorizationPolicyKind, key))"
proof -
  let ?u = "example_resource [] [] None" and ?req = "(''union'', ''team'')"
  let ?w = "example_world [UTSAObj ?u, example_policy]"
  let ?run = "Reconcile example_ctl ?req ?w"
  obtain res w' where run: "?run = (res, w')" by (cases ?run)
  have "fst ?run = Ok ()"
    by (simp add: Reconcile_def ensure_finalizer_def update_utsa_def reconcile_stages_def
        reconcile_resources_def ctl_accounts_def ctl_istio_def union_env_def example_ctl_def
        list_finalizers_def example_resource_def example_world_def example_policy_def map_get_def
        Time_IsZero_def unionFinalizer_def mkServiceAccount_def sa_program_defs delete_policy_def
        cleanupRemovedServiceAccounts_eq persist_program_defs
        EnsureExternalHosts_def EnsureCloudSQLHosts_def EnsureAuthorizationPolicies_def
        CleanupRemovedServiceAccountAuthzPolicies_def CleanupUnusedHosts_def cleanupInternalHosts_def
        cleanupExternalHosts_def cleanupCloudSQLHosts_def egress_opts_def inEgressNamespace_def
        internal_labels_def EgressNamespace_def externalGatewayName_def cloudSQLGatewayName_def
        Let_def mem_eval)
  with run have ok: "?run = (Ok (), w')" by simp
  have stored: "mem_store (ext ?w) (UTSAKind, ?req) = Some (UTSAObj ?u)"
    by (rule example_stored) (simp add: removable_def example_resource_def)
  have live: "Time_IsZero (metaDeletionTimestamp (utsaMeta ?u))"
    by (simp add: example_resource_def Time_IsZero_def)
  obtain cfg gvk where cfg: "ctlUnionConfig example_ctl = Some cfg"
    "ctlObjectKinds example_ctl ?u = Inr [gvk]" by (simp add: example_ctl_def)
  have "env_policies m ?u (\<lambda>n. n = ''sa'')
      \<subseteq> env_policies m ?u (\<lambda>n. n \<noteq> [] \<and> n \<notin> listed_accounts ?u)" for m
    by (auto simp: env_policies_def listed_accounts_def example_resource_def)
  with Reconcile_complete [OF example_ctl_ok cfg(1) stored live cfg(2) ok]
  show ?thesis unfolding ok by blast
qed

end
