(* ===== verification/Reachability.thy ===== *)
theory Reachability
  imports Controller
begin

text \<open>
  The end of the chain: a host on an allowlist is reachable after a reconciliation, because
  what the stages that create have built is not taken away by the stages that clean up.

  The cleanups delete by label, and what they delete is decided by the hosts a gateway
  lists. A host can therefore lose its resources to another host: one with the same
  resource name, or one of the other gateway. \<open>undisputed\<close> says that no host of the
  specification does this, \<open>owned\<close> that nothing in the cluster does; the latter is an
  invariant of all stages.
\<close>

section \<open>Nothing in the cluster disputes a host\<close>

fun harmless :: "string \<Rightarrow> string \<Rightarrow> string \<Rightarrow> object \<Rightarrow> bool" where
  "harmless gw host name (VirtualServiceObj vs) \<longleftrightarrow>
     (ref_of (VirtualServiceObj vs) = (VirtualServiceKind, (EgressNamespace, name))
        \<longrightarrow> labels_of (VirtualServiceObj vs) ''host'' \<in> {None, Some host})"
| "harmless gw host name (GatewayObj g) \<longleftrightarrow>
     (\<forall>other \<in> {externalGatewayName, cloudSQLGatewayName} - {gw}.
        ref_of (GatewayObj g) = (GatewayKind, (EgressNamespace, other))
        \<longrightarrow> host \<notin> server_hosts (gwServers g))"
| "harmless gw host name _ \<longleftrightarrow> True"

definition owned :: "string \<Rightarrow> string \<Rightarrow> string \<Rightarrow> contents \<Rightarrow> bool" where
  "owned gw host name m \<longleftrightarrow> (\<forall>ob \<in> ran m. harmless gw host name ob)"

definition undisputed :: "ServiceAccount list \<Rightarrow> string \<Rightarrow> string \<Rightarrow> string \<Rightarrow> bool" where
  "undisputed sas gw host name \<longleftrightarrow>
     (\<forall>h \<in> set (external_hosts sas). (Host_Name h = name \<longrightarrow> hostHost h = host)
        \<and> (gw \<noteq> externalGatewayName \<longrightarrow> hostHost h \<noteq> host))
     \<and> (\<forall>q \<in> set (cloudsql_hosts sas). (CloudSQL_Name q = name \<longrightarrow> CloudSQL_Host q = host)
        \<and> (gw \<noteq> cloudSQLGatewayName \<longrightarrow> CloudSQL_Host q \<noteq> host))"

definition owned_step :: "string \<Rightarrow> string \<Rightarrow> string \<Rightarrow> contents \<Rightarrow> contents \<Rightarrow> bool" where
  "owned_step gw host name m m' \<longleftrightarrow> (owned gw host name m \<longrightarrow> owned gw host name m')"

interpretation own: effect_order "on_store store (owned_step gw host name)" for store gw host name
  by (rule effect_order_on_store) (auto simp: owned_step_def)

lemma owned_step_refl [simp]: "owned_step gw host name m m"
  by (simp add: owned_step_def)

lemma harmless_other:
  "kind_of ob \<noteq> VirtualServiceKind \<Longrightarrow> kind_of ob \<noteq> GatewayKind \<Longrightarrow> harmless gw host name ob"
  by (cases ob) simp_all

lemma harmless_stamped:
  assumes "stamped ob ob'"
  shows "harmless gw host name ob' = harmless gw host name ob"
proof (cases ob)
  case (GatewayObj g)
  with assms stamped_ref [OF assms] show ?thesis by (auto elim!: stamped_GatewayD)
next
  case (VirtualServiceObj vs)
  with stampedD [OF assms] obtain vs' where "ob' = VirtualServiceObj vs'" by (cases ob') simp_all
  with VirtualServiceObj stamped_ref [OF assms] stampedD(4) [OF assms] show ?thesis by simp
qed (use stampedD(1) [OF assms] in \<open>auto intro!: harmless_other\<close>)

lemma harmless_terminating: "harmless gw host name (terminating t ob) = harmless gw host name ob"
  by (cases ob) (simp_all add: terminating_def ref_of_def)

lemma owned_upd: "owned gw host name m \<Longrightarrow> harmless gw host name ob \<Longrightarrow> owned gw host name (m(ref \<mapsto> ob))"
  by (auto simp: owned_def ran_def)

lemma owned_del: "owned gw host name m \<Longrightarrow> owned gw host name (m(ref := None))"
  by (auto simp: owned_def ran_def)

lemma owned_writes:
  "created ob m m' \<Longrightarrow> harmless gw host name ob \<Longrightarrow> owned_step gw host name m m'"
  "updated ob ob' m m' \<Longrightarrow> harmless gw host name ob \<Longrightarrow> owned_step gw host name m m'"
  by (auto simp: created_def stored_as_def updated_def owned_step_def harmless_stamped
      intro: owned_upd owned_del)

lemma owned_deleted: "deleted ob m m' \<Longrightarrow> owned_step gw host name m m'"
  unfolding deleted_def owned_step_def
proof (elim exE conjE, intro impI)
  fix old
  assume old: "m (ref_of ob) = Some old" and m: "owned gw host name m"
    and m': "if metaFinalizers (meta_of old) = [] then m' = m(ref_of ob := None)
      else \<exists>t. m' = m(ref_of ob \<mapsto> terminating t old)"
  from old m have "harmless gw host name old" unfolding owned_def by (meson ranI)
  with m m' show "owned gw host name m'"
    by (auto simp: harmless_terminating intro: owned_upd owned_del split: if_splits)
qed

text \<open>Stages that are about other kinds of objects.\<close>

lemma owned_frame:
  assumes api: "kube_api c store"
    and frame: "same_off (of_kinds K) (store s) (store s')" and K: "VirtualServiceKind \<notin> K" "GatewayKind \<notin> K"
    and m: "owned gw host name (store s)"
  shows "owned gw host name (store s')"
  unfolding owned_def
proof
  fix ob
  assume "ob \<in> ran (store s')"
  then obtain ref where ref: "store s' ref = Some ob" by (auto simp: ran_def)
  show "harmless gw host name ob"
  proof (cases "ref \<in> of_kinds K")
    case True
    then have "kind_of ob \<in> K"
      using kube_api.store_ref [OF api ref] by (metis ref_of_kinds)
    with K show ?thesis by (metis harmless_other)
  next
    case False
    with frame ref have "store s ref = Some ob" by (metis same_offD)
    with m show ?thesis unfolding owned_def by (meson ranI)
  qed
qed

section \<open>The stages that create keep it so\<close>

context kube_api
begin

lemma own_reads:
  "safe (on_store store (owned_step gw host name)) (k8s_Get c k key)"
  "safe (on_store store (owned_step gw host name)) (k8s_List c k lo)"
  "safe (on_store store (owned_step gw host name)) (check_reply reply)"
  "safe (on_store store (owned_step gw host name)) (check_error err)"
  by (auto intro: safe_Get safe_List simp: owned_step_def)

lemma own_Create:
  "harmless gw host name ob \<Longrightarrow> safe (on_store store (owned_step gw host name)) (k8s_Create c ob)"
  by (rule safe_Create) (auto intro: owned_writes)

lemma own_Delete: "safe (on_store store (owned_step gw host name)) (k8s_Delete c ob)"
  by (rule safe_Delete) (auto intro: owned_deleted)

lemmas own_rules =
  own.safe_rules safe_branches own_reads own_Create own_Delete
  own.safe_return own.safe_err own.safe_panic own.safe_Join

lemma own_exists:
  assumes r: "irClient r = c"
  shows "safe (on_store store (owned_step gw host name)) (exists_in_egress r k labels)"
    and "safe (on_store store (owned_step gw host name)) (virtualServiceExists r n)"
  unfolding exists_in_egress_def virtualServiceExists_def r by (rule own_rules)+

lemma own_create_unless:
  assumes r: "irClient r = c" and "safe (on_store store (owned_step gw host name)) check"
    and "harmless gw host name ob"
  shows "safe (on_store store (owned_step gw host name)) (create_unless r check ob)"
  unfolding create_unless_def r using assms(2,3) by (intro own_rules)

text \<open>A gateway that was just read gets one more host.\<close>

lemma own_ensureGatewayContainsHost:
  assumes r: "irClient r = c" and h: "gw' \<noteq> gw \<Longrightarrow> h \<noteq> host"
  shows "safe (on_store store (owned_step gw host name)) (ensureGatewayContainsHost r gw' h)"
  unfolding ensureGatewayContainsHost_def r
proof (rule safe_Get_bind [OF own.effect_order_axioms])
  fix ob and w :: "'s world"
  let ?send = "\<lambda>g server servers. GatewayObj (g\<lparr>gwServers :=
      server\<lparr>srvHosts := appendSortedCompact (srvHosts server) h\<rparr> # servers\<rparr>)"
  assume old: "store (ext w) (GatewayKind, (EgressNamespace, gw')) = Some ob"
  then obtain g where g: "ob = GatewayObj g" by (rule stored_gateway)
  have ref: "ref_of (GatewayObj g) = (GatewayKind, (EgressNamespace, gw'))"
    using store_ref [OF old] g by simp
  have step: "owned_step gw host name (store (ext w)) m'"
    if "gwServers g = server # servers" "updated (?send g server servers) ob' (store (ext w)) m'"
    for server servers ob' m'
  proof -
    have "owned gw host name (store (ext w)) \<Longrightarrow> harmless gw host name (?send g server servers)"
      using old g ref that(1) h
      by (auto simp: owned_def server_hosts_def ref_of_def dest!: bspec [OF _ ranI])
    with owned_writes(2) [OF that(2)] show ?thesis by (auto simp: owned_step_def)
  qed
  then show "on_store store (owned_step gw host name) w (snd ((case Inr ob of
      Inl e \<Rightarrow> go_err (ApiError e)
    | Inr ob \<Rightarrow> (let gateway = as_Gateway ob in case gwServers gateway of
          [] \<Rightarrow> go_panic
        | server # servers \<Rightarrow> go_bind (k8s_Update c (?send gateway server servers))
            (\<lambda>reply. case reply of Inl e \<Rightarrow> go_err (ApiError e) | Inr answer \<Rightarrow> go_return ()))) w))"
    unfolding g
    by (auto simp: on_store_def call_defs go_defs Let_def owned_step_def dest!: update
        split: list.splits prod.splits sum.splits)
qed (simp_all add: owned_step_def)

lemma own_ensureGatewayExists:
  assumes r: "irClient r = c" and h: "gw' \<noteq> gw \<Longrightarrow> h \<noteq> host"
  shows "safe (on_store store (owned_step gw host name)) (ensureGatewayExists r gw' h)"
proof -
  have "harmless gw host name (GatewayObj (newGateway gw' h))"
    using h by (auto simp: newGateway_def server_hosts_def ref_of_def)
  then show ?thesis
    unfolding ensureGatewayExists_def r by (intro own_rules) simp_all
qed

lemma own_ensureExternalHost:
  assumes r: "irClient r = c"
    and h: "Host_Name h = name \<longrightarrow> hostHost h = host" "gw \<noteq> externalGatewayName \<longrightarrow> hostHost h \<noteq> host"
  shows "safe (on_store store (owned_step gw host name)) (ensureExternalHost r h)"
proof -
  have vs: "harmless gw host name (VirtualServiceObj (newVirtualServiceForExternalHost h))"
    using h(1) by (simp add: builder_defs ref_of_def managedByLabel_def)
  show ?thesis
    unfolding ensureExternalHost_def exists_defs createServiceEntry_def r
    by (intro own.safe_seq own_ensureGatewayExists own_ensureGatewayContainsHost own_create_unless
        own_exists r vs own_rules) (use h(2) in auto)
qed

lemma own_ensureCloudSQLHost:
  assumes r: "irClient r = c"
    and q: "CloudSQL_Name q = name \<longrightarrow> CloudSQL_Host q = host" "gw \<noteq> cloudSQLGatewayName \<longrightarrow> CloudSQL_Host q \<noteq> host"
  shows "safe (on_store store (owned_step gw host name)) (ensureCloudSQLHost r q)"
proof -
  have vs: "harmless gw host name (VirtualServiceObj (newVirtualServiceForCloudSQLHost q))"
    using q(1) by (simp add: builder_defs ref_of_def managedByLabel_def)
  show ?thesis
    unfolding ensureCloudSQLHost_def exists_defs createServiceEntry_def r
    by (intro own.safe_seq own_ensureGatewayContainsHost own_create_unless
        own_exists r vs own_rules) (use q(2) in auto)
qed

lemma own_EnsureHosts:
  assumes r: "irClient r = c" and own: "undisputed sas gw host name"
  shows "safe (on_store store (owned_step gw host name)) (EnsureExternalHosts r sas)"
    and "safe (on_store store (owned_step gw host name)) (EnsureCloudSQLHosts r sas)"
  unfolding EnsureExternalHosts_flat EnsureCloudSQLHosts_flat
  by (intro own.safe_for_each own_ensureExternalHost own_ensureCloudSQLHost r;
      use own in \<open>simp add: undisputed_def\<close>)+

end

section \<open>The gateway keeps listing a host in use\<close>

definition lists_step :: "string \<Rightarrow> string \<Rightarrow> contents \<Rightarrow> contents \<Rightarrow> bool" where
  "lists_step gw host m m' \<longleftrightarrow> (gateway_lists m gw host \<longrightarrow> gateway_lists m' gw host)"

interpretation lists: effect_order "on_store store (lists_step gw host)" for store gw host
  by (rule effect_order_on_store) (auto simp: lists_step_def)

lemma lists_step_refl [simp]: "lists_step gw host m m"
  by (simp add: lists_step_def)

lemma lists_frame:
  "same_off D m m' \<Longrightarrow> (GatewayKind, (EgressNamespace, gw)) \<notin> D \<Longrightarrow> gateway_lists m' gw host = gateway_lists m gw host"
  by (simp add: gateway_lists_def same_off_def)

lemma gateway_hosts_write:
  assumes "host \<in> gateway_hosts g" and "host \<in> set inUse"
  shows "host \<in> gateway_hosts (write_hosts at (sorted_keys inUse) i g)"
  using assms
  by (auto simp: gateway_hosts_def write_hosts_def set_hosts_def nth_Cons'
      split: list.splits nat.splits simp: Let_def list_update.simps)

definition sendable :: "string \<Rightarrow> string \<Rightarrow> Gateway \<Rightarrow> bool" where
  "sendable gw host g \<longleftrightarrow> ref_of (GatewayObj g) = (GatewayKind, (EgressNamespace, gw))
     \<and> \<not> removable (GatewayObj g) \<and> host \<in> gateway_hosts g"

lemma sendable_write:
  "sendable gw host g \<Longrightarrow> host \<in> set inUse \<Longrightarrow> sendable gw host (write_hosts at (sorted_keys inUse) i g)"
  by (simp add: sendable_def gateway_hosts_write) (simp add: write_hosts_def removable_def)

context kube_api
begin

lemma lists_calls:
  "safe (on_store store (lists_step gw host)) (check_error err)"
  "safe (on_store store (lists_step gw host)) (check_reply reply)"
  by simp_all

lemma lists_remove_unused:
  assumes "irClient r = c"
  shows "safe (on_store store (lists_step gw host)) (remove_unused r inUse hosts)"
proof (rule safe_mono)
  show "changes_kinds store (set resource_kinds) (remove_unused r inUse hosts)"
    using assms by (rule kinds_remove_unused) simp
  fix w w' :: "'s world"
  assume "on_store store (same_off (of_kinds (set resource_kinds))) w w'"
  then show "on_store store (lists_step gw host) w w'"
    using lists_frame [of "of_kinds (set resource_kinds)"]
    by (simp add: on_store_def lists_step_def resource_kinds_def)
qed

lemma lists_Update_then:
  assumes g: "sendable gw host g"
    and rest: "\<And>g'. sendable gw host g' \<Longrightarrow> safe (on_store store (lists_step gw host)) (f g')"
  shows "safe (on_store store (lists_step gw host)) (go_bind (k8s_Update c (GatewayObj g))
    (\<lambda>reply. case reply of Inl e \<Rightarrow> go_err (ApiError e) | Inr answer \<Rightarrow> f (as_Gateway answer)))"
proof (rule lists.safe_bind_Ok)
  show "safe (on_store store (lists_step gw host)) (k8s_Update c (GatewayObj g))"
  proof (rule safe_Update)
    show "lists_step gw host m m'" if "updated (GatewayObj g) ob' m m'" for ob' m m'
      using that g
      by (auto simp: updated_def sendable_def lists_step_def gateway_lists_def gateway_hosts_def
          elim!: stamped_GatewayD)
  qed simp
  fix reply and w w' :: "'s world"
  assume run: "k8s_Update c (GatewayObj g) w = (Ok reply, w')"
  show "safe (on_store store (lists_step gw host))
      (case reply of Inl e \<Rightarrow> go_err (ApiError e) | Inr answer \<Rightarrow> f (as_Gateway answer))"
  proof (cases reply)
    case (Inr answer)
    with run have "stamped (GatewayObj g) answer"
      using Update_OkD by (auto simp: updated_def)
    moreover from this obtain g' where "answer = GatewayObj g'" "gwServers g' = gwServers g"
      by (auto elim: stamped_GatewayD)
    ultimately have "sendable gw host g'" "answer = GatewayObj g'"
      using g stamped_ref stamped_removable by (auto simp: sendable_def gateway_hosts_def)
    with Inr rest show ?thesis by simp
  qed simp
qed

lemma lists_servers:
  assumes r: "irClient r = c" and host: "host \<in> set inUse"
  shows "sendable gw host g \<Longrightarrow> safe (on_store store (lists_step gw host))
      (external_servers al r inUse is at servers g)"
    and "sendable gw host g \<Longrightarrow> safe (on_store store (lists_step gw host))
      (cloudsql_servers al r inUse is at servers g)"
proof (induction "is" arbitrary: at servers g)
  case (Cons i "is")
  have used: "inUse \<noteq> []" using host by auto
  {
    case 1
    with used Cons.IH(1) show ?case
      by (auto simp: r Let_def intro!: lists.safe_seq lists_remove_unused [OF r] lists_Update_then
          sendable_write host split: option.splits)
  next
    case 2
    with used Cons.IH(2) show ?case
      by (auto simp: r Let_def intro!: lists.safe_seq lists_remove_unused [OF r] lists_Update_then
          sendable_write host split: option.splits)
  }
qed simp_all

lemma lists_gateway_loop:
  assumes run: "go_bind (k8s_Get c GatewayKind (EgressNamespace, gw))
      (\<lambda>reply. case reply of
         Inl e \<Rightarrow> (if IsNotFound e then go_return () else go_err (ApiError e))
       | Inr ob \<Rightarrow> f (as_Gateway ob)) w = (res, w')"
    and loop: "\<And>g. sendable gw host g \<Longrightarrow> safe (on_store store (lists_step gw host)) (f g)"
    and listed: "gateway_lists (store (ext w)) gw host"
  shows "gateway_lists (store (ext w')) gw host"
proof -
  from listed obtain g where g: "store (ext w) (GatewayKind, (EgressNamespace, gw)) = Some (GatewayObj g)"
    "host \<in> gateway_hosts g" by (auto simp: gateway_lists_def)
  obtain x w1 where get: "k8s_Get c GatewayKind (EgressNamespace, gw) w = (x, w1)"
    by (cases "k8s_Get c GatewayKind (EgressNamespace, gw) w")
  then obtain reply where x: "x = Ok reply" and same: "store (ext w1) = store (ext w)"
    and old: "\<And>ob. reply = Inr ob \<Longrightarrow> store (ext w) (GatewayKind, (EgressNamespace, gw)) = Some ob"
    by (rule Get_OkD) blast
  show ?thesis
  proof (cases reply)
    case (Inl e)
    with run get x same listed show ?thesis by (auto simp: go_defs split: if_splits)
  next
    case (Inr ob)
    with old g have ob: "ob = GatewayObj g" by simp
    have "sendable gw host g"
      using store_ref [OF g(1)] store_live [OF g(1)] g(2) by (simp add: sendable_def)
    moreover have "f g w1 = (res, w')" using run get x Inr ob by (simp add: go_bind_def)
    ultimately have "on_store store (lists_step gw host) w1 w'" using loop by (blast intro: safeD)
    with same listed show ?thesis by (simp add: on_store_def lists_step_def)
  qed
qed

lemma cleanup_hosts_lists:
  assumes r: "irClient r = c"
  shows "cleanupExternalHosts al r utsas w = (res, w') \<Longrightarrow> h \<in> set (external_hosts_in_use utsas)
      \<Longrightarrow> gateway_lists (store (ext w)) externalGatewayName h
      \<Longrightarrow> gateway_lists (store (ext w')) externalGatewayName h"
    and "cleanupCloudSQLHosts al r utsas w = (res, w') \<Longrightarrow> h \<in> set (cloudsql_hosts_in_use utsas)
      \<Longrightarrow> gateway_lists (store (ext w)) cloudSQLGatewayName h
      \<Longrightarrow> gateway_lists (store (ext w')) cloudSQLGatewayName h"
  unfolding cleanupExternalHosts_def cleanupCloudSQLHosts_def r Let_def
  by (erule lists_gateway_loop [where f = "\<lambda>g. external_servers al r (external_hosts_in_use utsas)
        [0..<length (gwServers g)] True (gwServers g) g"], rule lists_servers(1) [OF r], assumption+)
    (erule lists_gateway_loop [where f = "\<lambda>g. cloudsql_servers al r (cloudsql_hosts_in_use utsas)
        [0..<length (gwServers g)] True (gwServers g) g"], rule lists_servers(2) [OF r], assumption+)

end

section \<open>The stages that clean up leave a ready host alone\<close>

text \<open>A host is ready, and the VirtualService of its name is its own.\<close>

definition kept :: "string \<Rightarrow> string \<Rightarrow> string \<Rightarrow> contents \<Rightarrow> bool" where
  "kept gw host name m \<longleftrightarrow> host_ready gw host name m
     \<and> (\<forall>ob. m (VirtualServiceKind, (EgressNamespace, name)) = Some ob
          \<longrightarrow> labels_of ob ''host'' \<in> {None, Some host})"

lemma in_use_one:
  "u \<in> set utsas \<Longrightarrow> set (external_hosts_in_use [u]) \<subseteq> set (external_hosts_in_use utsas)"
  "u \<in> set utsas \<Longrightarrow> set (cloudsql_hosts_in_use [u]) \<subseteq> set (cloudsql_hosts_in_use utsas)"
  by (auto simp: external_hosts_in_use_def cloudsql_hosts_in_use_def)

context kube_api
begin

lemma owned_kept:
  assumes own: "owned gw host name (store s)" and ready: "host_ready gw host name (store s)"
  shows "kept gw host name (store s)"
  unfolding kept_def
proof (intro conjI allI impI ready)
  fix ob
  assume ob: "store s (VirtualServiceKind, (EgressNamespace, name)) = Some ob"
  with own have "harmless gw host name ob" unfolding owned_def by (meson ranI)
  moreover from stored_kind [OF ob] obtain vs where "ob = VirtualServiceObj vs" by (cases ob) simp_all
  ultimately show "labels_of ob ''host'' \<in> {None, Some host}"
    using store_ref [OF ob] by simp
qed

lemma owned_served:
  assumes own: "owned gw host name (store s)" and "other \<in> {externalGatewayName, cloudSQLGatewayName}" "other \<noteq> gw"
  shows "host \<notin> served (store s) other"
proof (cases "store s (GatewayKind, (EgressNamespace, other))")
  case (Some ob)
  then obtain g where g: "ob = GatewayObj g" by (rule stored_gateway)
  from own Some have "harmless gw host name ob" unfolding owned_def by (meson ranI)
  with assms(2,3) Some g store_ref [OF Some] show ?thesis by (auto simp: served_def)
qed (simp add: served_def)

lemma labelled_off:
  assumes off: "same_off (insert (GatewayKind, key) (host_refs (store s) H)) (store s) (store s')"
    and "labelled (store s) k labels" and "(''host'', host) \<in> set labels" and "k \<noteq> GatewayKind" and "host \<notin> H"
  shows "labelled (store s') k labels"
proof -
  from assms(2) obtain ref ob where ob: "store s ref = Some ob" "kind_of ob = k"
    "lo_matches (egress_opts labels) ob" by (auto simp: labelled_def)
  then have "labels_of ob ''host'' = Some host" using assms(3) by (auto simp: egress_matches list_all_iff)
  with ob assms(4,5) store_ref [OF ob(1)]
  have "ref \<notin> insert (GatewayKind, key) (host_refs (store s) H)" by (auto simp: host_refs_def ref_of_def)
  with off ob(1) have "store s' ref = Some ob" by (metis same_offD)
  with ob show ?thesis unfolding labelled_def by blast
qed

lemma kept_off:
  assumes off: "same_off (insert (GatewayKind, key) (host_refs (store s) H)) (store s) (store s')"
    and host: "host \<notin> H" and lists: "gateway_lists (store s') gw host" and kept: "kept gw host name (store s)"
  shows "kept gw host name (store s')"
proof -
  let ?ref = "(VirtualServiceKind, (EgressNamespace, name))"
  note ready = kept [unfolded kept_def host_ready_def]
  then obtain ob where ob: "store s ?ref = Some ob" "labels_of ob ''host'' \<in> {None, Some host}" by blast
  then have "?ref \<notin> insert (GatewayKind, key) (host_refs (store s) H)" using host by (auto simp: host_refs_def)
  with off ob(1) have "store s' ?ref = Some ob" by (metis same_offD)
  with ready lists ob(2) labelled_off [OF off _ _ _ host] show ?thesis
    unfolding kept_def host_ready_def by auto
qed

lemma kept_frame:
  assumes "same_off (of_kinds {AuthorizationPolicyKind}) (store s) (store s')"
  shows "kept gw host name (store s') = kept gw host name (store s)"
    and "served (store s') other = served (store s) other"
proof -
  have same: "store s' ref = store s ref" if "fst ref \<noteq> AuthorizationPolicyKind" for ref
    using assms that by (cases ref) (simp add: same_off_def)
  have "labelled (store s') k labels = labelled (store s) k labels" if "k \<noteq> AuthorizationPolicyKind" for k labels
  proof -
    have "(store s' ref = Some ob \<and> kind_of ob = k) = (store s ref = Some ob \<and> kind_of ob = k)" for ref ob
      using same [of ref] store_ref [of _ ref ob] that by (cases ref) (auto simp: ref_of_def)
    then show ?thesis unfolding labelled_def by blast
  qed
  then show "kept gw host name (store s') = kept gw host name (store s)"
    by (simp add: kept_def host_ready_def gateway_lists_def same)
  show "served (store s') other = served (store s) other" by (simp add: served_def same)
qed

lemma cleanup_hosts_kept:
  assumes r: "irClient r = c" and kept: "kept gw host name (store (ext w))"
    and gw: "gw = externalGatewayName \<and> host \<in> set (external_hosts_in_use utsas)
        \<and> host \<notin> served (store (ext w)) cloudSQLGatewayName
      \<or> gw = cloudSQLGatewayName \<and> host \<in> set (cloudsql_hosts_in_use utsas)
        \<and> host \<notin> served (store (ext w)) externalGatewayName"
    and ext_run: "cleanupExternalHosts al r utsas w = (res1, w1)"
    and sql_run: "cleanupCloudSQLHosts al r utsas w1 = (res2, w2)"
  shows "host_ready gw host name (store (ext w2))"
proof -
  note off1 = cleanup_hosts_off(1) [OF r ext_run] and off2 = cleanup_hosts_off(2) [OF r sql_run]
  have names: "externalGatewayName \<noteq> cloudSQLGatewayName"
    by (simp add: externalGatewayName_def cloudSQLGatewayName_def)
  have no_gateway: "(GatewayKind, key) \<notin> host_refs (store s) H" for key s H
    by (rule host_refs_not_gateway [OF kube_api_axioms])
  have same1: "store (ext w1) (GatewayKind, (EgressNamespace, cloudSQLGatewayName))
      = store (ext w) (GatewayKind, (EgressNamespace, cloudSQLGatewayName))"
    using off1 by (rule same_offD) (use names no_gateway in auto)
  have same2: "store (ext w2) (GatewayKind, (EgressNamespace, externalGatewayName))
      = store (ext w1) (GatewayKind, (EgressNamespace, externalGatewayName))"
    using off2 by (rule same_offD) (use names no_gateway in auto)
  have lists: "gateway_lists (store (ext w)) gw host" using kept by (simp add: kept_def host_ready_def)
  from gw have "kept gw host name (store (ext w2))"
  proof
    assume gw: "gw = externalGatewayName \<and> host \<in> set (external_hosts_in_use utsas)
      \<and> host \<notin> served (store (ext w)) cloudSQLGatewayName"
    have lists1: "gateway_lists (store (ext w1)) gw host"
      using cleanup_hosts_lists(1) [OF r ext_run] gw lists by blast
    have "kept gw host name (store (ext w1))"
      by (rule kept_off [OF off1 _ lists1 kept]) (use gw in blast)
    with lists1 gw same1 same2 show ?thesis
      by (intro kept_off [OF off2]) (auto simp: served_def gateway_lists_def)
  next
    assume gw: "gw = cloudSQLGatewayName \<and> host \<in> set (cloudsql_hosts_in_use utsas)
      \<and> host \<notin> served (store (ext w)) externalGatewayName"
    have lists1: "gateway_lists (store (ext w1)) gw host"
      using lists gw same1 by (simp add: gateway_lists_def)
    have kept1: "kept gw host name (store (ext w1))"
      by (rule kept_off [OF off1 _ lists1 kept]) (use gw in blast)
    have lists2: "gateway_lists (store (ext w2)) gw host"
      using cleanup_hosts_lists(2) [OF r sql_run] gw lists1 by blast
    show ?thesis
      by (rule kept_off [OF off2 _ lists2 kept1]) (use gw in blast)
  qed
  then show ?thesis by (simp add: kept_def)
qed

end

context kube_fresh
begin

lemma CleanupUnusedHosts_keeps_ready:
  assumes r: "irClient r = c" and u: "store (ext w) (UTSAKind, req) = Some (UTSAObj u)"
    and own: "owned gw host name (store (ext w))" and ready: "host_ready gw host name (store (ext w))"
    and gw: "gw = externalGatewayName \<and> host \<in> set (external_hosts_in_use [u])
      \<or> gw = cloudSQLGatewayName \<and> host \<in> set (cloudsql_hosts_in_use [u])"
    and run: "CleanupUnusedHosts al r w = (Ok (), w')"
  shows "host_ready gw host name (store (ext w'))"
proof -
  let ?lo = "\<lparr>loNamespace = None, loLabels = []\<rparr>"
  from run obtain items w1 w2 w3 where
      list: "k8s_List c UTSAKind ?lo w = (Ok (Inr items), w1)" and
      internal: "cleanupInternalHosts r (map as_UTSA items) w1 = (Ok (), w2)" and
      external: "cleanupExternalHosts al r (map as_UTSA items) w2 = (Ok (), w3)" and
      cloudsql: "cleanupCloudSQLHosts al r (map as_UTSA items) w3 = (Ok (), w')"
    unfolding CleanupUnusedHosts_def r Let_def by (auto elim!: go_bind_OkE go_seq_OkE)
  have "UTSAObj u \<in> set items"
    using list u by (rule List_completeD) (simp_all add: lo_matches_def)
  then have u_in: "u \<in> set (map as_UTSA items)" by force
  from list have same: "store (ext w1) = store (ext w)" by (auto elim: List_OkD)
  have frame: "same_off (of_kinds {AuthorizationPolicyKind}) (store (ext w1)) (store (ext w2))"
    using safeD [OF kinds_cleanupInternalHosts [OF r] internal] by (simp add: on_store_def)
  have names: "externalGatewayName \<noteq> cloudSQLGatewayName"
    by (simp add: externalGatewayName_def cloudSQLGatewayName_def)
  have "kept gw host name (store (ext w2))"
    unfolding kept_frame(1) [OF frame] same by (rule owned_kept [OF own ready])
  moreover have "gw = externalGatewayName \<and> host \<in> set (external_hosts_in_use (map as_UTSA items))
        \<and> host \<notin> served (store (ext w2)) cloudSQLGatewayName
      \<or> gw = cloudSQLGatewayName \<and> host \<in> set (cloudsql_hosts_in_use (map as_UTSA items))
        \<and> host \<notin> served (store (ext w2)) externalGatewayName"
    unfolding kept_frame(2) [OF frame] same
    using gw names owned_served [OF own] in_use_one [OF u_in] by auto
  ultimately show ?thesis using external cloudsql by (rule cleanup_hosts_kept [OF r])
qed

lemma Reconcile_keeps_ready:
  assumes r: "ctlClient r = c" and F: "finalizer_util (ctlFinalizers r)"
    and persister: "allowlist_persister (ctlPersister r) store"
    and cfg: "ctlUnionConfig r = Some cfg"
    and stored: "store (ext w) (UTSAKind, req) = Some (UTSAObj utsa)"
    and live: "Time_IsZero (metaDeletionTimestamp (utsaMeta utsa))"
    and kinds: "ctlObjectKinds r utsa = Inr (gvk # gvks)"
    and run: "Reconcile r req w = (Ok (), w')"
    and sas: "sas = map (mkServiceAccount (union_env cfg gvk utsa)) (specServiceAccounts (utsaSpec utsa))"
    and spec: "undisputed sas gw host name" and own: "owned gw host name (store (ext w))"
    and gw: "gw = externalGatewayName \<and> host \<in> set (external_hosts_in_use [utsa])
      \<or> gw = cloudSQLGatewayName \<and> host \<in> set (cloudsql_hosts_in_use [utsa])"
    and ready: "\<And>m. \<forall>h \<in> set (external_hosts sas). external_ready h m
      \<Longrightarrow> \<forall>q \<in> set (cloudsql_hosts sas). cloudsql_ready q m \<Longrightarrow> host_ready gw host name m"
  shows "host_ready gw host name (store (ext w'))"
proof -
  let ?ir = "ctl_istio r"
  have ir: "irClient ?ir = c" and sar: "sarClient (ctl_accounts r cfg) = c"
    using r by (simp_all add: ctl_istio_def ctl_accounts_def)
  obtain u w0 where u: "\<exists>u'. store (ext w0) (UTSAKind, req) = Some (UTSAObj u') \<and> holds_finalizer u'
        \<and> utsaSpec u' = utsaSpec utsa"
    and first: "same_off {(UTSAKind, req)} (store (ext w)) (store (ext w0))"
    and stages: "reconcile_stages r cfg (union_env cfg gvk utsa) sas u w0 = (Ok (), w')"
    using r F cfg stored live kinds run unfolding sas by (rule Reconcile_live_stages)
  from stages obtain w1 w2 w3 w4 w5 w6 w7 where
    s1: "ctlPersister r u w0 = (Ok (), w1)" and
    s2: "CreateOrUpdateServiceAccounts (ctl_accounts r cfg) (union_env cfg gvk utsa) sas w1 = (Ok (), w2)" and
    s3: "CleanupRemovedServiceAccounts (ctl_accounts r cfg) (union_env cfg gvk utsa) sas w2 = (Ok (), w3)" and
    s4: "EnsureExternalHosts ?ir sas w3 = (Ok (), w4)" and
    s5: "EnsureCloudSQLHosts ?ir sas w4 = (Ok (), w5)" and
    s6: "EnsureAuthorizationPolicies ?ir sas w5 = (Ok (), w6)" and
    s7: "CleanupRemovedServiceAccountAuthzPolicies ?ir u w6 = (Ok (), w7)" and
    s8: "CleanupUnusedHosts (ctlAliased r) ?ir w7 = (Ok (), w')"
    by (rule reconcile_stages_OkE)
  have e1: "store (ext w1) = store (ext w0)" using persister s1 by (rule allowlist_persister.persist_store)
  have e3: "same_off (of_kinds sa_kinds) (store (ext w0)) (store (ext w3))"
    using safeD [OF kinds_CreateOrUpdateServiceAccounts [OF sar] s2]
      safeD [OF kinds_CleanupRemovedServiceAccounts [OF sar] s3]
    by (simp add: on_store_def same_off_def e1)
  have e5: "same_off (of_kinds istio_kinds) (store (ext w3)) (store (ext w5))"
    using safeD [OF kinds_EnsureHosts(1) [OF ir] s4] safeD [OF kinds_EnsureHosts(2) [OF ir] s5]
    by (simp add: on_store_def same_off_def)
  have e7: "same_off (of_kinds {AuthorizationPolicyKind}) (store (ext w5)) (store (ext w7))"
    using safeD [OF kinds_EnsureAuthorizationPolicies [OF ir] s6, of "{AuthorizationPolicyKind}"]
      safeD [OF kinds_CleanupPolicies(1) [OF ir] s7, of "{AuthorizationPolicyKind}"]
    by (simp add: on_store_def same_off_def)
  note frame = owned_frame [OF kube_api_axioms]
  have "owned gw host name (store (ext w0))"
    by (rule frame [OF same_off_mono [OF first], of "{UTSAKind}"]) (use own in auto)
  then have own3: "owned gw host name (store (ext w3))"
    by (rule frame [OF e3, rotated -1]) (simp_all add: sa_kinds_def)
  have own5: "owned gw host name (store (ext w5))"
    using own3 safeD [OF own_EnsureHosts(1) [OF ir spec] s4] safeD [OF own_EnsureHosts(2) [OF ir spec] s5]
    by (simp add: on_store_def owned_step_def)
  then have own7: "owned gw host name (store (ext w7))"
    by (rule frame [OF e7, rotated -1]) simp_all
  have "host_ready gw host name (store (ext w5))"
    using ensure_hosts_ready [OF ir s4 s5] ready by blast
  then have "kept gw host name (store (ext w5))" by (rule owned_kept [OF own5])
  then have "kept gw host name (store (ext w7))" by (simp only: kept_frame(1) [OF e7])
  then have ready7: "host_ready gw host name (store (ext w7))" by (simp add: kept_def)
  have "store (ext w7) (UTSAKind, req) = store (ext w0) (UTSAKind, req)"
    using same_offD [OF e3, of "(UTSAKind, req)"] same_offD [OF e5, of "(UTSAKind, req)"]
      same_offD [OF e7, of "(UTSAKind, req)"] by (simp add: sa_kinds_def)
  with u obtain u' where u': "store (ext w7) (UTSAKind, req) = Some (UTSAObj u')"
    "utsaSpec u' = utsaSpec utsa" by auto
  then have in_use: "external_hosts_in_use [u'] = external_hosts_in_use [utsa]"
    "cloudsql_hosts_in_use [u'] = cloudsql_hosts_in_use [utsa]"
    by (simp_all add: external_hosts_in_use_def cloudsql_hosts_in_use_def)
  show ?thesis
    by (rule CleanupUnusedHosts_keeps_ready [OF ir u'(1) own7 ready7 _ s8]) (use gw in_use in simp)
qed

end

lemma hosts_in_use:
  assumes sas: "sas = map (mkServiceAccount env) (specServiceAccounts (utsaSpec utsa))"
  shows "h \<in> set (external_hosts sas) \<Longrightarrow> hostHost h \<in> set (external_hosts_in_use [utsa])"
    and "q \<in> set (cloudsql_hosts sas) \<Longrightarrow> CloudSQL_Host q \<in> set (cloudsql_hosts_in_use [utsa])"
  unfolding sas
  by (auto simp: external_hosts_def external_hosts_in_use_def cloudsql_hosts_def cloudsql_hosts_in_use_def
      mkServiceAccount_def)

lemma Reconcile_hosts_ready:
  assumes "kube_fresh (ctlClient r) store" and "finalizer_util (ctlFinalizers r)"
    and "allowlist_persister (ctlPersister r) store"
    and "ctlUnionConfig r = Some cfg"
    and "store (ext w) (UTSAKind, req) = Some (UTSAObj utsa)"
    and "Time_IsZero (metaDeletionTimestamp (utsaMeta utsa))"
    and "ctlObjectKinds r utsa = Inr (gvk # gvks)"
    and "Reconcile r req w = (Ok (), w')"
    and "sas = map (mkServiceAccount (union_env cfg gvk utsa)) (specServiceAccounts (utsaSpec utsa))"
  shows "(\<forall>h \<in> set (external_hosts sas).
       undisputed sas externalGatewayName (hostHost h) (Host_Name h)
       \<longrightarrow> owned externalGatewayName (hostHost h) (Host_Name h) (store (ext w))
       \<longrightarrow> external_ready h (store (ext w')))
    \<and> (\<forall>q \<in> set (cloudsql_hosts sas).
       undisputed sas cloudSQLGatewayName (CloudSQL_Host q) (CloudSQL_Name q)
       \<longrightarrow> owned cloudSQLGatewayName (CloudSQL_Host q) (CloudSQL_Name q) (store (ext w))
       \<longrightarrow> cloudsql_ready q (store (ext w')))"
proof -
  note keeps = kube_fresh.Reconcile_keeps_ready [OF assms(1) refl assms(2-9)]
  note in_use = hosts_in_use [OF assms(9)]
  show ?thesis
    unfolding external_ready_def cloudsql_ready_def
    by (intro conjI ballI impI keeps) (auto simp: external_ready_def cloudsql_ready_def in_use)
qed

text \<open>
  C3. Allowed hosts are reachable. When a reconciliation of a live resource returns without
  error, every external host and Cloud SQL address of its specification that nothing
  disputes is served by its gateway and has its VirtualService, the DestinationRules of both
  directions and its ServiceEntry, whatever the stages that clean up have removed. A host is
  undisputed when no other host of the specification has its resource name or its text on
  the other gateway, and no VirtualService of its name and no host list of the other gateway
  in the cluster belongs to another host.
\<close>

theorem Reconcile_reaches:
  assumes "kube_fresh (ctlClient r) store" and "finalizer_util (ctlFinalizers r)"
    and "allowlist_persister (ctlPersister r) store"
    and "ctlUnionConfig r = Some cfg"
    and "store (ext w) (UTSAKind, req) = Some (UTSAObj utsa)"
    and "Time_IsZero (metaDeletionTimestamp (utsaMeta utsa))"
    and "ctlObjectKinds r utsa = Inr (gvk # gvks)"
    and "Reconcile r req w = (Ok (), w')"
    and "sas = map (mkServiceAccount (union_env cfg gvk utsa)) (specServiceAccounts (utsaSpec utsa))"
  shows "(\<forall>h \<in> set (external_hosts sas).
       undisputed sas externalGatewayName (hostHost h) (Host_Name h)
       \<longrightarrow> owned externalGatewayName (hostHost h) (Host_Name h) (store (ext w))
       \<longrightarrow> external_ready h (store (ext w')))
    \<and> (\<forall>q \<in> set (cloudsql_hosts sas).
       undisputed sas cloudSQLGatewayName (CloudSQL_Host q) (CloudSQL_Name q)
       \<longrightarrow> owned cloudSQLGatewayName (CloudSQL_Host q) (CloudSQL_Name q) (store (ext w))
       \<longrightarrow> cloudsql_ready q (store (ext w')))"
  using assms by (rule Reconcile_hosts_ready)

end
