(* ===== verification/Progress.thy ===== *)
theory Progress
  imports Responsive Reachability
begin

text \<open>
  Reconciliations come to an end: on a server that answers (\<open>kube_serves\<close>), each stage
  either meets an outage or returns without error, and so does the whole. What can stop a
  reconciliation for good is a clash of names, a gateway the stages cannot extend, or a
  protocol for which there is no policy; the theorems say that nothing else can.
\<close>

section \<open>The service-account stages\<close>

lemma removable_new: "metaDeletionTimestamp (meta_of ob) = None \<Longrightarrow> \<not> removable ob"
  by (simp add: removable_def)

text \<open>With an owner the metadata can be set, and what a write looks at stays as it is.\<close>

lemma setUnionMetadata_owned:
  assumes "envUTSAOwnerReference u = Some owner"
  obtains ob' where "setUnionMetadata ob u a = Ok ob'" "ref_of ob' = ref_of ob"
    "removable ob' = removable ob" "namespace_of ob' = namespace_of ob"
proof -
  from assms obtain ob' where ob': "setUnionMetadata ob u a = Ok ob'"
    by (simp add: setUnionMetadata_def OwnerReferences_def)
  then show thesis
    by (intro that [of ob']) (simp_all add: removable_def setUnionMetadata_OkD)
qed

lemma namespace_ref: "ref_of ob = (k, (ns, n)) \<Longrightarrow> namespace_of ob = ns"
  by (simp add: ref_of_def)

lemma wp_metadata:
  assumes owner: "envUTSAOwnerReference u = Some owner" and f: "\<And>x. progress d store (R x) (f x) Q"
  shows "progress d store (\<lambda>m. \<forall>x. ref_of x = ref_of ob \<longrightarrow> removable x = removable ob
      \<longrightarrow> namespace_of x = namespace_of ob \<longrightarrow> R x m) (go_bind (go_lift (setUnionMetadata ob u a)) f) Q"
proof -
  obtain x where x: "setUnionMetadata ob u a = Ok x" "ref_of x = ref_of ob"
    "removable x = removable ob" "namespace_of x = namespace_of ob"
    using owner by (rule setUnionMetadata_owned)
  have "go_bind (go_lift (setUnionMetadata ob u a)) f = f x"
    by (rule ext) (simp add: x go_defs)
  with x(2-) f [of x] show ?thesis by (auto elim: progress_pre)
qed

context kube_serves
begin

lemma progress_reconcileIAMServiceAccount:
  assumes r: "sarClient r = c" and owner: "envUTSAOwnerReference (saUnionEnv sa) = Some owner"
    and acc: "\<And>ob. namespace_of ob = Namespace (saUnionEnv sa) \<Longrightarrow> accepts ob"
  shows "progress outages store (\<lambda>_. True) (reconcileIAMServiceAccount r sa) (\<lambda>_ _. True)"
  unfolding reconcileIAMServiceAccount_def r
  by (rule progress_pre, (rule wp_metadata [OF owner] wp_rules)+)
    (auto simp: acc removable_new dest: namespace_ref split: option.splits)

lemma progress_reconcileServiceAccount:
  assumes r: "sarClient r = c" and owner: "envUTSAOwnerReference (saUnionEnv sa) = Some owner"
    and acc: "\<And>ob. namespace_of ob = Namespace (saUnionEnv sa) \<Longrightarrow> accepts ob"
  shows "progress outages store (\<lambda>_. True) (reconcileServiceAccount r sa) (\<lambda>_ _. True)"
proof -
  have "\<exists>ob1. setUnionMetadata ob (saUnionEnv sa) (gcp_annotation sa) = Ok ob1 \<and> accepts ob1
      \<and> ref_of ob1 = ref_of (newK8sServiceAccount sa) \<and> \<not> removable ob1"
    if "ref_of ob = ref_of (newK8sServiceAccount sa)" "\<not> removable ob" for ob
    using owner
  proof (rule setUnionMetadata_owned [of _ _ ob "gcp_annotation sa"])
    fix ob'
    assume ob': "setUnionMetadata ob (saUnionEnv sa) (gcp_annotation sa) = Ok ob'" "ref_of ob' = ref_of ob"
      "removable ob' = removable ob" "namespace_of ob' = namespace_of ob"
    with that have "namespace_of ob' = Namespace (saUnionEnv sa)"
      by (simp add: ref_of_def newK8sServiceAccount_def)
    with ob' that acc show ?thesis by auto
  qed
  moreover have "\<not> removable (newK8sServiceAccount sa)"
    by (simp add: removable_new newK8sServiceAccount_def)
  ultimately show ?thesis
    unfolding reconcileServiceAccount_def r
    by (intro progress_pre [OF wp_CreateOrUpdate]) auto
qed

lemma progress_createIAMPolicyMember:
  assumes r: "sarClient r = c" and owner: "envUTSAOwnerReference u = Some owner"
    and acc: "\<And>ob. namespace_of ob = Namespace u \<Longrightarrow> accepts ob"
  shows "progress outages store (\<lambda>_. True) (createIAMPolicyMember r u opts) (\<lambda>_ _. True)"
  unfolding createIAMPolicyMember_def r
  by (rule progress_pre, (rule wp_metadata [OF owner] wp_rules)+)
    (auto simp: acc removable_new newIAMPolicyMember_def dest: namespace_ref split: option.splits)

text \<open>The removals: whatever was read is still there, or its absence is no error.\<close>

lemma progress_cleanupServiceAccount:
  assumes r: "sarClient r = c"
  shows "progress outages store (\<lambda>_. True) (cleanupServiceAccount r sa) (\<lambda>_ _. True)"
proof -
  have members: "progress outages store (\<lambda>_. True) (cleanupIAMPolicyMembers r sa) (\<lambda>_ _. True)"
    unfolding cleanupIAMPolicyMembers_def r
    by (rule progress_collect, rule progress_pre, (rule wp_rules)+)
      (auto split: option.splits if_splits)
  show ?thesis
    unfolding cleanupServiceAccount_def r Let_def
    by (rule wp_bind [where R = "\<lambda>x _. \<exists>y. x = Inr y"], rule progress_pre, (rule wp_rules)+)
      (auto split: option.splits sum.splits intro!: wp_try progress_post [OF members])
qed

lemma progress_cleanup_existing:
  assumes r: "sarClient r = c"
  shows "progress outages store (\<lambda>_. errs = []) (cleanup_existing r u ob errs) (\<lambda>errs _. errs = [])"
  unfolding cleanup_existing_def r
proof (rule wp_bind [where R = "\<lambda>x _. errs = [] \<and> (\<exists>y. x = Inr y)"], rule progress_pre, (rule wp_rules)+)
  show "progress outages store (\<lambda>_. errs = [])
      (go_try (cleanupServiceAccount r (ServiceAccountByName u (name_of ob))))
      (\<lambda>x _. errs = [] \<and> (\<exists>y. x = Inr y))"
    using progress_pure [OF progress_cleanupServiceAccount [OF r], of "errs = []"]
    by (intro wp_try) simp
qed (auto split: option.splits sum.splits)

lemma progress_CleanupRemovedServiceAccounts:
  assumes r: "sarClient r = c"
  shows "progress outages store (\<lambda>_. True) (CleanupRemovedServiceAccounts r u sas) (\<lambda>_ _. True)"
  unfolding CleanupRemovedServiceAccounts_def r
  by (rule wp_bind, rule progress_collect [where I = "\<lambda>_. True"])
   (auto intro!: progress_cleanup_existing [OF r] progress_pre [OF wp_return] progress_pre [OF wp_List])

lemma progress_CreateOrUpdateServiceAccounts:
  assumes r: "sarClient r = c" and owner: "envUTSAOwnerReference u = Some owner"
    and acc: "\<And>ob. namespace_of ob = Namespace u \<Longrightarrow> accepts ob"
    and sas: "\<And>sa. sa \<in> set sas \<Longrightarrow> saUnionEnv sa = u"
  shows "progress outages store (\<lambda>_. True) (CreateOrUpdateServiceAccounts r u sas) (\<lambda>_ _. True)"
  unfolding CreateOrUpdateServiceAccounts_def reconcileServiceAccountForDomain_def
    createIAMPolicyMembers_def cleanupRemovedServiceAccounts_eq
  by (intro wp_seq [where R = "\<lambda>_. True"] progress_CleanupRemovedServiceAccounts [OF r] progress_for_each
      progress_createIAMPolicyMember [OF r] progress_reconcileServiceAccount [OF r]
      progress_reconcileIAMServiceAccount [OF r]) (use owner acc sas in auto)

end

section \<open>What can stop the Istio stages\<close>

text \<open>
  The names a host lays claim to, each with the labels by which the operator looks for the
  resource. A name is free for the host if what bears it bears the labels, too.
\<close>

definition claimed :: "string \<Rightarrow> string \<Rightarrow> (obj_ref \<times> (string \<times> string) list) list" where
  "claimed host name =
     [((DestinationRuleKind, (EgressNamespace, name @ ''-to-gateway'')),
       [(''host'', host), (''type'', egressToGatewayLabel), (managedByLabel, managedByValue)]),
      ((DestinationRuleKind, (EgressNamespace, name @ ''-from-gateway'')),
       [(''host'', host), (''type'', egressFromGatewayLabel), (managedByLabel, managedByValue)]),
      ((ServiceEntryKind, (EgressNamespace, name)), [(''host'', host)])]"

definition host_names :: "ServiceAccount list \<Rightarrow> (string \<times> string) list" where
  "host_names sas = map (\<lambda>h. (hostHost h, Host_Name h)) (external_hosts sas)
     @ map (\<lambda>q. (CloudSQL_Host q, CloudSQL_Name q)) (cloudsql_hosts sas)"

definition names_distinct :: "(string \<times> string) list \<Rightarrow> bool" where
  "names_distinct names \<longleftrightarrow>
     (\<forall>(host, name) \<in> set names. \<forall>(host', name') \<in> set names. name = name' \<longrightarrow> host = host')"

definition names_free :: "(string \<times> string) list \<Rightarrow> contents \<Rightarrow> bool" where
  "names_free names m \<longleftrightarrow> (\<forall>(host, name) \<in> set names. \<forall>(ref, labels) \<in> set (claimed host name).
     \<forall>ob. m ref = Some ob \<longrightarrow> lo_matches (egress_opts labels) ob)"

lemma names_freeD:
  assumes "names_free names m" and "(host, name) \<in> set names" and "(ref, labels) \<in> set (claimed host name)"
    and "m ref = Some ob"
  shows "lo_matches (egress_opts labels) ob"
  using bspec [OF bspec [OF assms(1) [unfolded names_free_def] assms(2), unfolded prod.case] assms(3)] assms(4)
  by simp

text \<open>A gateway the stages can extend and clean up: it has servers, each with a port.\<close>

definition proper_gateway :: "Gateway \<Rightarrow> bool" where
  "proper_gateway g \<longleftrightarrow> gwServers g \<noteq> [] \<and> (\<forall>server \<in> set (gwServers g). srvPort server \<noteq> None)"

definition gateway_proper :: "contents \<Rightarrow> string \<Rightarrow> bool" where
  "gateway_proper m gw \<longleftrightarrow>
     (\<forall>g. m (GatewayKind, (EgressNamespace, gw)) = Some (GatewayObj g) \<longrightarrow> proper_gateway g)"

definition egress_open :: "(string \<times> string) list \<Rightarrow> contents \<Rightarrow> bool" where
  "egress_open names m \<longleftrightarrow> names_free names m
     \<and> gateway_proper m externalGatewayName \<and> gateway_proper m cloudSQLGatewayName"

text \<open>A new object suits the names if it is what everyone who claims its name wants.\<close>

definition suits :: "(string \<times> string) list \<Rightarrow> object \<Rightarrow> bool" where
  "suits names ob \<longleftrightarrow> (\<forall>(host, name) \<in> set names. \<forall>(ref, labels) \<in> set (claimed host name).
     ref_of ob = ref \<longrightarrow> lo_matches (egress_opts labels) ob)
   \<and> (\<forall>g. ob = GatewayObj g \<longrightarrow> proper_gateway g)"

lemma suits_VirtualService [simp]: "suits names (VirtualServiceObj vs)"
  by (auto simp: suits_def claimed_def ref_of_def)

lemma suits_Gateway [simp]: "suits names (GatewayObj g) \<longleftrightarrow> proper_gateway g"
  by (auto simp: suits_def claimed_def ref_of_def)

lemma egress_open_upd:
  assumes m: "egress_open names m" and ob: "suits names ob" and stamp: "stamped ob ob'"
  shows "egress_open names (m(ref_of ob \<mapsto> ob'))"
proof -
  have "lo_matches (egress_opts labels) x"
    if "(host, name) \<in> set names" "(ref, labels) \<in> set (claimed host name)"
      "(m(ref_of ob \<mapsto> ob')) ref = Some x" for host name ref labels x
  proof (cases "ref = ref_of ob")
    case True
    with ob that(1,2) have "lo_matches (egress_opts labels) ob" unfolding suits_def by blast
    with True that(3) stamped_matches [OF stamp] show ?thesis by simp
  next
    case False
    with that m show ?thesis by (auto simp: egress_open_def intro: names_freeD)
  qed
  then have "names_free names (m(ref_of ob \<mapsto> ob'))" unfolding names_free_def by blast
  moreover have "gateway_proper (m(ref_of ob \<mapsto> ob')) gw" if "gateway_proper m gw" for gw
    unfolding gateway_proper_def
  proof (intro allI impI)
    fix g
    assume g: "(m(ref_of ob \<mapsto> ob')) (GatewayKind, (EgressNamespace, gw)) = Some (GatewayObj g)"
    show "proper_gateway g"
    proof (cases "ref_of ob = (GatewayKind, (EgressNamespace, gw))")
      case True
      with g have "stamped (GatewayObj g) ob" using stamped_sym [OF stamp] by simp
      then obtain g' where "ob = GatewayObj g'" "gwServers g' = gwServers g" by (rule stamped_GatewayD)
      with ob show ?thesis by (simp add: suits_def proper_gateway_def)
    next
      case False
      with g that show ?thesis by (simp add: gateway_proper_def)
    qed
  qed
  ultimately show ?thesis using m by (simp add: egress_open_def)
qed

lemma egress_open_created: "created ob m m' \<Longrightarrow> egress_open names m \<Longrightarrow> suits names ob \<Longrightarrow> egress_open names m'"
  by (auto simp: created_def stored_as_def intro: egress_open_upd)

lemma egress_open_updated:
  "updated ob ob' m m' \<Longrightarrow> egress_open names m \<Longrightarrow> suits names ob \<Longrightarrow> \<not> removable ob \<Longrightarrow> egress_open names m'"
  by (auto simp: updated_def intro: egress_open_upd)

text \<open>What a host's resources are named and labelled.\<close>

lemma suits_host:
  assumes "names_distinct names" and "(host, name) \<in> set names" and "(ref, labels) \<in> set (claimed host name)"
    and "ref_of ob = ref" and "lo_matches (egress_opts labels) ob"
    and "kind_of ob \<noteq> GatewayKind"
  shows "suits names ob"
proof -
  have "lo_matches (egress_opts labels') ob"
    if "(host', name') \<in> set names" "(ref_of ob, labels') \<in> set (claimed host' name')" for host' name' labels'
  proof -
    from that(2) assms(3,4) have "name' = name" by (auto simp: claimed_def)
    with that(1) assms(1,2) have "host' = host" unfolding names_distinct_def by blast
    with that(2) \<open>name' = name\<close> assms(3,4) have "labels' = labels" by (auto simp: claimed_def)
    with assms(5) show ?thesis by simp
  qed
  with assms(6) show ?thesis unfolding suits_def by auto
qed
context kube_serves
begin

lemma progress_stored:
  assumes "progress outages store (\<lambda>m. P m \<and> (\<forall>ref ob. m ref = Some ob \<longrightarrow> ref_of ob = ref \<and> \<not> removable ob)) p Q"
  shows "progress outages store P p Q"
  using assms store_ref store_live unfolding progress_def by blast

lemma progress_create_claimed:
  assumes r: "irClient r = c" and acc: "\<And>ob. namespace_of ob = EgressNamespace \<Longrightarrow> accepts ob"
    and names: "names_distinct names" "(host, name) \<in> set names"
    and claim: "(ref_of ob, labels) \<in> set (claimed host name)"
    and ob: "lo_matches (egress_opts labels) ob" "metaDeletionTimestamp (meta_of ob) = None"
  shows "progress outages store (egress_open names)
    (create_unless r (exists_in_egress r (kind_of ob) labels) ob) (\<lambda>_. egress_open names)"
proof -
  have kind: "kind_of ob \<noteq> GatewayKind" using claim by (auto simp: claimed_def ref_of_def)
  have accepted: "accepts ob" using acc ob(1) by (simp add: egress_matches)
  have free: "m (ref_of ob) = None"
    if "egress_open names m" "\<forall>ref ob. m ref = Some ob \<longrightarrow> ref_of ob = ref \<and> \<not> removable ob"
      "\<forall>x. \<not> (kind_of x = kind_of ob \<and> lo_matches (egress_opts labels) x \<and> m (ref_of x) = Some x)" for m
  proof (rule ccontr)
    assume "m (ref_of ob) \<noteq> None"
    then obtain x where x: "m (ref_of ob) = Some x" by blast
    with that(2) have "ref_of x = ref_of ob" by blast
    moreover from this have "kind_of x = kind_of ob" by (simp add: ref_of_def)
    moreover have "lo_matches (egress_opts labels) x"
      using that(1) names(2) claim x by (auto simp: egress_open_def intro: names_freeD)
    ultimately show False using x that(3) by auto
  qed
  have created: "egress_open names m'" if "egress_open names m" "created ob m m'" for m m'
    using that suits_host [OF names claim refl ob(1) kind] by (auto intro: egress_open_created)
  show ?thesis
    unfolding create_unless_def exists_in_egress_def r
    by (rule progress_stored, rule progress_pre, (rule wp_rules)+)
      (auto simp: accepted removable_new ob(2) free intro: created)
qed

end

lemma proper_newGateway [simp]: "proper_gateway (newGateway gw host)"
  by (simp add: proper_gateway_def newGateway_def)

lemma proper_add_host:
  "proper_gateway g \<Longrightarrow> gwServers g = server # servers
     \<Longrightarrow> proper_gateway (g\<lparr>gwServers := server\<lparr>srvHosts := hosts\<rparr> # servers\<rparr>)"
  by (simp add: proper_gateway_def)

lemma created_stored: "created ob m m' \<Longrightarrow> m' (ref_of ob) \<noteq> None"
  by (auto simp: created_def stored_as_def)

context kube_serves
begin

lemma progress_virtualService:
  assumes r: "irClient r = c" and acc: "\<And>ob. namespace_of ob = EgressNamespace \<Longrightarrow> accepts ob"
    and vs: "metaName (vsMeta vs) = name" "metaNamespace (vsMeta vs) = EgressNamespace"
      "metaDeletionTimestamp (vsMeta vs) = None"
  shows "progress outages store (egress_open names)
    (create_unless r (virtualServiceExists r name) (VirtualServiceObj vs)) (\<lambda>_. egress_open names)"
proof -
  have "ref_of (VirtualServiceObj vs) = (VirtualServiceKind, (EgressNamespace, name))"
    using vs by (simp add: ref_of_def)
  then show ?thesis
    unfolding create_unless_def virtualServiceExists_def r
    by - (rule progress_pre, (rule wp_rules)+,
      auto simp: acc vs removable_new intro: egress_open_created split: option.splits)
qed

lemma progress_ensureGatewayExists:
  assumes r: "irClient r = c" and acc: "\<And>ob. namespace_of ob = EgressNamespace \<Longrightarrow> accepts ob"
  shows "progress outages store (egress_open names) (ensureGatewayExists r gw host)
    (\<lambda>_ m. egress_open names m \<and> m (GatewayKind, (EgressNamespace, gw)) \<noteq> None)"
proof -
  have "ref_of (GatewayObj (newGateway gw host)) = (GatewayKind, (EgressNamespace, gw))"
    "namespace_of (GatewayObj (newGateway gw host)) = EgressNamespace"
    "metaDeletionTimestamp (meta_of (GatewayObj (newGateway gw host))) = None"
    by (simp_all add: newGateway_def ref_of_def)
  then show ?thesis
    unfolding ensureGatewayExists_def r
    by - (rule progress_pre, (rule wp_rules)+,
      auto simp: acc removable_new intro: egress_open_created dest: created_stored split: option.splits)
qed

lemma progress_ensureGatewayContainsHost:
  assumes r: "irClient r = c" and acc: "\<And>ob. namespace_of ob = EgressNamespace \<Longrightarrow> accepts ob"
    and gw: "gw \<in> {externalGatewayName, cloudSQLGatewayName}"
  shows "progress outages store
    (\<lambda>m. egress_open names m \<and> m (GatewayKind, (EgressNamespace, gw)) \<noteq> None)
    (ensureGatewayContainsHost r gw host) (\<lambda>_. egress_open names)"
proof -
  let ?ref = "(GatewayKind, (EgressNamespace, gw))"
  let ?sent = "\<lambda>g server servers. GatewayObj (g\<lparr>gwServers :=
    server\<lparr>srvHosts := appendSortedCompact (srvHosts server) host\<rparr> # servers\<rparr>)"
  have step: "\<exists>g server servers. m ?ref = Some (GatewayObj g) \<and> gwServers g = server # servers
      \<and> ref_of (?sent g server servers) = ?ref \<and> same_meta (GatewayObj g) (?sent g server servers)
      \<and> accepts (?sent g server servers)
      \<and> (\<forall>ob' m'. updated (?sent g server servers) ob' m m' \<longrightarrow> egress_open names m')"
    if m: "egress_open names m" "m ?ref \<noteq> None"
      "\<forall>ref ob. m ref = Some ob \<longrightarrow> ref_of ob = ref \<and> \<not> removable ob" for m
  proof -
    from m(2,3) obtain ob where ob: "m ?ref = Some ob" "ref_of ob = ?ref" "\<not> removable ob" by blast
    then obtain g where g: "ob = GatewayObj g" by (cases ob) (auto simp: ref_of_def)
    with m ob gw have proper: "proper_gateway g" by (auto simp: egress_open_def gateway_proper_def)
    then obtain server servers where servers: "gwServers g = server # servers"
      unfolding proper_gateway_def by (cases "gwServers g") auto
    have "ref_of (?sent g server servers) = ?ref" "\<not> removable (?sent g server servers)"
      "same_meta ob (?sent g server servers)" "accepts (?sent g server servers)"
      "suits names (?sent g server servers)"
      using ob g acc proper_add_host [OF proper servers] by (auto simp: ref_of_def removable_def same_meta_def)
    moreover from this m(1) have "updated (?sent g server servers) ob' m m' \<Longrightarrow> egress_open names m'" for ob' m'
      using egress_open_updated by blast
    ultimately show ?thesis using ob(1) g servers by blast
  qed
  show ?thesis
    unfolding ensureGatewayContainsHost_def Let_def r
    by (rule progress_stored, rule progress_pre, (rule wp_rules)+) (auto dest!: step)
qed

lemma progress_host_resources:
  assumes r: "irClient r = c" and acc: "\<And>ob. namespace_of ob = EgressNamespace \<Longrightarrow> accepts ob"
    and names: "names_distinct names" "(host, name) \<in> set names"
    and vs: "metaName (vsMeta vs) = name" "metaNamespace (vsMeta vs) = EgressNamespace"
      "metaDeletionTimestamp (vsMeta vs) = None"
    and drs: "drMeta dr1 = destinationRuleObjectMeta (name @ ''-to-gateway'') egressToGatewayLabel host"
      "drMeta dr2 = destinationRuleObjectMeta (name @ ''-from-gateway'') egressFromGatewayLabel host"
    and se: "seMeta se = new_meta name EgressNamespace [''host'' \<mapsto> host, managedByLabel \<mapsto> managedByValue]"
  shows "progress outages store (egress_open names) (host_resources r host name vs dr1 dr2 se) (\<lambda>_. egress_open names)"
proof -
  note claim = progress_create_claimed [OF r acc names]
  have dr1: "progress outages store (egress_open names)
      (create_unless r (destinationRuleToGatewayExists r host) (DestinationRuleObj dr1)) (\<lambda>_. egress_open names)"
    using claim [of "DestinationRuleObj dr1"] unfolding destinationRuleToGatewayExists_def
    by (simp add: drs claimed_def ref_of_def egress_matches destinationRuleObjectMeta_def managedByLabel_def)
  have dr2: "progress outages store (egress_open names)
      (create_unless r (destinationRuleFromGatewayExists r host) (DestinationRuleObj dr2)) (\<lambda>_. egress_open names)"
    using claim [of "DestinationRuleObj dr2"] unfolding destinationRuleFromGatewayExists_def
    by (simp add: drs claimed_def ref_of_def egress_matches destinationRuleObjectMeta_def managedByLabel_def)
  have se: "progress outages store (egress_open names)
      (create_unless r (serviceEntryExists r host) (ServiceEntryObj se)) (\<lambda>_. egress_open names)"
    using claim [of "ServiceEntryObj se"] unfolding serviceEntryExists_def matchingHostLabel_def
    by (simp add: se claimed_def ref_of_def egress_matches managedByLabel_def)
  then have "progress outages store (egress_open names)
      (go_bind (serviceEntryExists r host) (\<lambda>seExists. if \<not> seExists then createServiceEntry r se else go_return ()))
      (\<lambda>_. egress_open names)"
    by (simp only: createServiceEntry_def create_unless_def)
  from wp_seq [OF wp_seq [OF wp_seq [OF this dr2] dr1] progress_virtualService [OF r acc vs]]
  show ?thesis unfolding host_resources_def .
qed

lemma progress_ensureExternalHost:
  assumes r: "irClient r = c" and acc: "\<And>ob. namespace_of ob = EgressNamespace \<Longrightarrow> accepts ob"
    and names: "names_distinct names" "(hostHost h, Host_Name h) \<in> set names"
  shows "progress outages store (egress_open names) (ensureExternalHost r h) (\<lambda>_. egress_open names)"
proof -
  have eq: "ensureExternalHost r h = go_seq (ensureGatewayExists r externalGatewayName (hostHost h))
    (go_seq (ensureGatewayContainsHost r externalGatewayName (hostHost h))
      (host_resources r (hostHost h) (Host_Name h)
        (newVirtualServiceForExternalHost h) (newExternalHostDestinationRuleToGateway h)
        (newExternalHostDestinationRuleFromGateway h) (newHTTPSServiceEntry h)))"
    unfolding ensureExternalHost_def host_resources_def by (rule refl)
  show ?thesis
    unfolding eq
    by (rule wp_seq, rule wp_seq, rule progress_host_resources [OF r acc names])
      (auto intro: progress_ensureGatewayExists [OF r acc] progress_ensureGatewayContainsHost [OF r acc]
        simp: builder_defs)
qed

lemma progress_ensureCloudSQLHost:
  assumes r: "irClient r = c" and acc: "\<And>ob. namespace_of ob = EgressNamespace \<Longrightarrow> accepts ob"
    and names: "names_distinct names" "(CloudSQL_Host q, CloudSQL_Name q) \<in> set names"
  shows "progress outages store
    (\<lambda>m. egress_open names m \<and> m (GatewayKind, (EgressNamespace, cloudSQLGatewayName)) \<noteq> None)
    (ensureCloudSQLHost r q)
    (\<lambda>_ m. egress_open names m \<and> m (GatewayKind, (EgressNamespace, cloudSQLGatewayName)) \<noteq> None)"
proof -
  let ?gw = "(GatewayKind, (EgressNamespace, cloudSQLGatewayName))"
  have eq: "ensureCloudSQLHost r q = go_seq (ensureGatewayContainsHost r cloudSQLGatewayName (CloudSQL_Host q))
      (host_resources r (CloudSQL_Host q) (CloudSQL_Name q)
        (newVirtualServiceForCloudSQLHost q) (newCloudSQLDestinationRuleToGateway q)
        (newCloudSQLDestinationRuleFromGateway q) (newCloudSQLServiceEntry q))"
    unfolding ensureCloudSQLHost_def host_resources_def by (rule refl)
  have "progress outages store (\<lambda>m. egress_open names m \<and> m ?gw \<noteq> None) (ensureCloudSQLHost r q)
      (\<lambda>_. egress_open names)"
    unfolding eq
    by (rule wp_seq [OF _ progress_ensureGatewayContainsHost [OF r acc]],
        rule progress_host_resources [OF r acc names]) (simp_all add: builder_defs)
  moreover have "c2 ?gw \<noteq> None" if "egress_grows c1 c2" "c1 ?gw \<noteq> None" for c1 c2
    using that unfolding egress_grows_def by blast
  ultimately have "progress outages store (\<lambda>m. (egress_open names m \<and> m ?gw \<noteq> None) \<and> m ?gw \<noteq> None)
      (ensureCloudSQLHost r q) (\<lambda>_ m. egress_open names m \<and> m ?gw \<noteq> None)"
    using progress_frame [OF _ ensureCloudSQLHost_run(1) [OF r], where J = "\<lambda>c. c ?gw \<noteq> None"] by blast
  then show ?thesis by (rule progress_pre) simp
qed

text \<open>Both stages together, and what they leave for the stages after them.\<close>

lemma progress_EnsureHosts:
  assumes r: "irClient r = c" and acc: "\<And>ob. namespace_of ob = EgressNamespace \<Longrightarrow> accepts ob"
    and names: "names_distinct (host_names sas)"
  shows "progress outages store (egress_open (host_names sas)) (EnsureExternalHosts r sas)
      (\<lambda>_. egress_open (host_names sas))"
    and "progress outages store
      (\<lambda>m. egress_open (host_names sas) m
        \<and> (cloudsql_hosts sas \<noteq> [] \<longrightarrow> m (GatewayKind, (EgressNamespace, cloudSQLGatewayName)) \<noteq> None))
      (EnsureCloudSQLHosts r sas) (\<lambda>_. egress_open (host_names sas))"
proof -
  show "progress outages store (egress_open (host_names sas)) (EnsureExternalHosts r sas)
      (\<lambda>_. egress_open (host_names sas))"
    unfolding EnsureExternalHosts_flat
    by (intro progress_for_each progress_ensureExternalHost [OF r acc names]) (simp_all add: host_names_def)
  let ?gw = "(GatewayKind, (EgressNamespace, cloudSQLGatewayName))"
  have loop: "progress outages store (\<lambda>m. egress_open (host_names sas) m \<and> m ?gw \<noteq> None)
      (EnsureCloudSQLHosts r sas) (\<lambda>_ m. egress_open (host_names sas) m \<and> m ?gw \<noteq> None)"
    unfolding EnsureCloudSQLHosts_flat
    by (intro progress_for_each progress_ensureCloudSQLHost [OF r acc names]) (simp_all add: host_names_def)
  show "progress outages store
      (\<lambda>m. egress_open (host_names sas) m \<and> (cloudsql_hosts sas \<noteq> [] \<longrightarrow> m ?gw \<noteq> None))
      (EnsureCloudSQLHosts r sas) (\<lambda>_. egress_open (host_names sas))"
  proof (cases "cloudsql_hosts sas = []")
    case True
    then show ?thesis by (auto simp: EnsureCloudSQLHosts_flat intro: progress_pre [OF wp_return])
  next
    case False
    with loop show ?thesis by (auto elim!: progress_pre [OF progress_post])
  qed
qed

end

end
