(* ===== verification/ProgressCleanup.thy ===== *)
theory ProgressCleanup
  imports Progress
begin

text \<open>
  The stages of a reconciliation after the hosts exist: the policies, the removal of what
  is not wanted any more, and the two gateways. They delete what they have just listed and
  update what they have just read or written, so on a server that answers they cannot fail;
  a policy needs a known protocol, and a gateway needs ports.
\<close>

section \<open>Policies\<close>

definition protocols_known :: "OnpremHostMap \<Rightarrow> bool" where
  "protocols_known hosts \<longleftrightarrow>
     (\<forall>h d. hosts h = Some d \<longrightarrow> ToUpper (onpremProtocol d) \<in> {httpsProtocol, tcpProtocol})"

lemma newAuthorizationPolicy_Ok:
  assumes "ToUpper protocol \<in> {httpsProtocol, tcpProtocol}"
  obtains ap where "newAuthorizationPolicy sa apd parent protocol t = Ok ap"
    "namespace_of (AuthorizationPolicyObj ap) = EgressNamespace" "\<not> removable (AuthorizationPolicyObj ap)"
proof -
  from assms have "\<exists>ap. newAuthorizationPolicy sa apd parent protocol t = Ok ap"
    by (auto simp: newAuthorizationPolicy_def Let_def)
  then obtain ap where ap: "newAuthorizationPolicy sa apd parent protocol t = Ok ap" ..
  then show thesis
    by (intro that [of ap]) (simp_all add: newAuthorizationPolicy_meta removable_def)
qed

lemma request_protocols:
  assumes "protocols_known (irOnpremHosts r)" and "(apd, parent, protocol, t) \<in> set (policy_requests r sa)"
  shows "ToUpper protocol \<in> {httpsProtocol, tcpProtocol}"
proof (cases "\<exists>h. (apd, parent, protocol, t) \<in> set (internal_requests r h)")
  case True
  with assms(1) show ?thesis
    using internal_requests_cases unfolding protocols_known_def by blast
next
  case False
  with assms(2) have "protocol = httpsProtocol \<or> protocol = tcpProtocol"
    unfolding policy_requests_def by auto
  then show ?thesis by (auto simp: protocol_defs upper_char_def)
qed

context kube_serves
begin

lemma progress_ensureAuthorizationPolicyForHost:
  assumes r: "irClient r = c" and acc: "\<And>ob. namespace_of ob = EgressNamespace \<Longrightarrow> accepts ob"
    and protocol: "ToUpper protocol \<in> {httpsProtocol, tcpProtocol}"
  shows "progress outages store (\<lambda>_. True) (ensureAuthorizationPolicyForHost r sa apd parent protocol t) (\<lambda>_ _. True)"
proof (rule newAuthorizationPolicy_Ok [OF protocol])
  fix ap
  assume "newAuthorizationPolicy sa apd (case parent of None \<Rightarrow> apdHostName apd | Some p \<Rightarrow> p) protocol t = Ok ap"
    and "namespace_of (AuthorizationPolicyObj ap) = EgressNamespace" "\<not> removable (AuthorizationPolicyObj ap)"
  then show ?thesis
    unfolding ensureAuthorizationPolicyForHost_def Let_def r
    by - (rule progress_pre, (rule wp_rules)+, auto simp: acc)
qed

lemma progress_EnsureAuthorizationPolicies:
  assumes r: "irClient r = c" and acc: "\<And>ob. namespace_of ob = EgressNamespace \<Longrightarrow> accepts ob"
    and known: "protocols_known (irOnpremHosts r)"
  shows "progress outages store (\<lambda>_. True) (EnsureAuthorizationPolicies r sas) (\<lambda>_ _. True)"
  unfolding EnsureAuthorizationPolicies_flat
  by (rule progress_for_each)
    (auto simp only: all_requests_def ensure_request_def set_concat set_map prod.case
      intro!: progress_ensureAuthorizationPolicyForHost [OF r acc] request_protocols [OF known])

lemma progress_delete_policies:
  assumes r: "irClient r = c"
  shows "progress outages store (\<lambda>_. errs = []) (delete_policy r ap errs) (\<lambda>errs _. errs = [])"
  unfolding delete_policy_def r
  by (rule progress_pre, (rule wp_rules)+) (auto split: option.splits)

lemma progress_CleanupPolicies:
  assumes r: "irClient r = c"
  shows "progress outages store (\<lambda>_. True) (CleanupRemovedServiceAccountAuthzPolicies r utsa) (\<lambda>_ _. True)"
    and "progress outages store (\<lambda>_. True) (IstioCleanup.CleanupAllResources r utsa) (\<lambda>_ _. True)"
proof -
  note del = progress_delete_policies [OF r]
  show "progress outages store (\<lambda>_. True) (CleanupRemovedServiceAccountAuthzPolicies r utsa) (\<lambda>_ _. True)"
    unfolding CleanupRemovedServiceAccountAuthzPolicies_def Let_def r
    by (rule wp_bind, rule progress_collect [where I = "\<lambda>_. True"])
      (auto intro!: del progress_pre [OF wp_return] progress_pre [OF wp_List])
  have "progress outages store (\<lambda>_. errs = []) (fold_go (delete_policy r) items errs) (\<lambda>errs _. errs = [])"
    for items errs
    using progress_fold_go [where I = "\<lambda>_. True" and f = "delete_policy r" and xs = items] del by simp
  then show "progress outages store (\<lambda>_. True) (IstioCleanup.CleanupAllResources r utsa) (\<lambda>_ _. True)"
    unfolding IstioCleanup.CleanupAllResources_def CleanupUTSAServiceAccountAuthzPolicies_def r
    by (intro progress_collect [where I = "\<lambda>_. True"]) (auto intro!: wp_bind progress_pre [OF wp_List])
qed

end

section \<open>Deleting what was listed\<close>

text \<open>
  These loops take any error of a deletion for an error; so it matters that the listed
  objects are still there, each being deleted once.
\<close>

definition all_stored :: "object list \<Rightarrow> contents \<Rightarrow> bool" where
  "all_stored obs m \<longleftrightarrow> distinct (map ref_of obs) \<and> (\<forall>ob \<in> set obs. m (ref_of ob) \<noteq> None)"

lemma all_stored_deleted: "all_stored (ob # obs) m \<Longrightarrow> deleted ob m m' \<Longrightarrow> all_stored obs m'"
  by (auto simp: all_stored_def deleted_def split: if_splits) (metis image_eqI)+

lemma all_stored_Cons:
  "all_stored (ob # obs) m \<Longrightarrow> all_stored obs m \<and> m (ref_of ob) \<noteq> None"
  by (simp add: all_stored_def)

context kube_serves
begin

lemma progress_delete_each:
  "progress outages store (all_stored obs)
     (for_each (\<lambda>ob. if P ob then go_bind (k8s_Delete c ob) check_error else go_return ()) obs) (\<lambda>_ _. True)"
proof (induction obs)
  case Nil
  show ?case by (auto intro: progress_pre [OF wp_return])
next
  case (Cons ob obs)
  have "progress outages store (all_stored (ob # obs))
      (if P ob then go_bind (k8s_Delete c ob) check_error else go_return ()) (\<lambda>_. all_stored obs)"
    by (rule progress_pre, (rule wp_rules)+)
      (auto dest: all_stored_Cons all_stored_deleted)
  with Cons.IH show ?case by (simp add: wp_seq)
qed

lemma progress_delete_all:
  "progress outages store (\<lambda>m. errs = [] \<and> all_stored obs m)
     (fold_go (\<lambda>ob errs. go_bind (k8s_Delete c ob)
        (\<lambda>err. go_return (case err of None \<Rightarrow> errs | Some e \<Rightarrow> errs @ [ApiError e]))) obs errs)
     (\<lambda>errs _. errs = [])"
proof (induction obs arbitrary: errs)
  case Nil
  show ?case by (auto intro: progress_pre [OF wp_return])
next
  case (Cons ob obs)
  have "progress outages store (\<lambda>m. errs = [] \<and> all_stored (ob # obs) m)
      (go_bind (k8s_Delete c ob) (\<lambda>err. go_return (case err of None \<Rightarrow> errs | Some e \<Rightarrow> errs @ [ApiError e])))
      (\<lambda>errs m. errs = [] \<and> all_stored obs m)"
    by (rule progress_pre, (rule wp_rules)+)
      (auto dest: all_stored_Cons all_stored_deleted)
  with Cons.IH show ?case unfolding fold_go.simps by (rule wp_bind)
qed

lemma listed_stored:
  "distinct (map ref_of obs) \<Longrightarrow> \<forall>ob. ob \<in> set obs \<longleftrightarrow> kind_of ob = k \<and> lo_matches lo ob \<and> m (ref_of ob) = Some ob
     \<Longrightarrow> all_stored obs m"
  by (simp add: all_stored_def)

lemma progress_cleanupInternalHosts:
  assumes r: "irClient r = c"
  shows "progress outages store (\<lambda>_. True) (cleanupInternalHosts r utsas) (\<lambda>_ _. True)"
  unfolding cleanupInternalHosts_def r
  by (intro progress_for_each wp_bind [OF progress_delete_each] progress_pre [OF wp_List])
    (auto intro: listed_stored)

lemma progress_removeByHostLabel:
  assumes r: "irClient r = c"
  shows "progress outages store (\<lambda>_. True) (removeByHostLabel r host k) (\<lambda>_ _. True)"
proof -
  have "progress outages store (all_stored items) (go_bind (fold_go (\<lambda>ob errs. go_bind (k8s_Delete c ob)
        (\<lambda>err. go_return (case err of None \<Rightarrow> errs | Some e \<Rightarrow> errs @ [ApiError e]))) items []) errors_Join)
      (\<lambda>_ _. True)" for items
    by (rule wp_bind [OF progress_pre [OF wp_Join] progress_pre [OF progress_delete_all]]) auto
  then show ?thesis
    unfolding removeByHostLabel_def r
    by (rule wp_bind [OF _ progress_pre [OF wp_List]]) (auto intro: listed_stored)
qed

lemma progress_remove_unused:
  assumes r: "irClient r = c"
  shows "progress outages store (\<lambda>_. True) (remove_unused r inUse hosts) (\<lambda>_ _. True)"
proof -
  have "progress outages store (\<lambda>_. errs = []) (go_bind (go_try (removeByHostLabel r host k))
      (\<lambda>res. go_return (case res of Inl e \<Rightarrow> errs @ [e] | Inr _ \<Rightarrow> errs))) (\<lambda>errs _. errs = [])" for host k errs
    using progress_pure [OF progress_removeByHostLabel [OF r], of "errs = []"]
    by (intro wp_bind [where R = "\<lambda>x _. errs = [] \<and> (\<exists>y. x = Inr y)"] progress_pre [OF wp_return] wp_try) auto
  then have "progress outages store (\<lambda>_. True) (removeExternalHost r host) (\<lambda>_ _. True)" for host
    unfolding removeExternalHost_def by (intro progress_collect [where I = "\<lambda>_. True"]) simp
  then show ?thesis
    unfolding remove_unused_def by (intro progress_for_each) (auto intro: progress_pre [OF wp_return])
qed

end

section \<open>The gateways\<close>

text \<open>
  What the loop over the servers of a gateway needs: ports to look at, and a gateway that
  the server still stores with the metadata at hand.
\<close>

definition gateway_held :: "string \<Rightarrow> nat list \<Rightarrow> Server list \<Rightarrow> Gateway \<Rightarrow> contents \<Rightarrow> bool" where
  "gateway_held gw is servers g m \<longleftrightarrow> set is \<subseteq> {..<length servers}
     \<and> (\<forall>server \<in> set servers \<union> set (gwServers g). srvPort server \<noteq> None)
     \<and> ref_of (GatewayObj g) = (GatewayKind, (EgressNamespace, gw)) \<and> \<not> removable (GatewayObj g)
     \<and> (\<exists>old. m (GatewayKind, (EgressNamespace, gw)) = Some old \<and> same_meta old (GatewayObj g))"

lemma gateway_held_tl: "gateway_held gw (i # is) servers g m \<Longrightarrow> gateway_held gw is servers g m"
  by (simp add: gateway_held_def)

lemma set_hosts_ports:
  assumes "\<forall>server \<in> set servers. srvPort server \<noteq> None"
  shows "\<forall>server \<in> set (set_hosts hosts servers i). srvPort server \<noteq> None"
  using assms by (auto simp: set_hosts_def dest!: subsetD [OF set_update_subset_insert])

lemma write_hosts_meta [simp]: "gwMeta (write_hosts at hosts i g) = gwMeta g"
  by (simp add: write_hosts_def)

lemma gateway_held_write:
  "gateway_held gw is servers g m \<Longrightarrow> gateway_held gw is servers (write_hosts at hosts i g) m"
  using set_hosts_ports [of "gwServers g"]
  by (auto simp: gateway_held_def same_meta_def removable_def ref_of_def write_hosts_def)

lemma gateway_held_updated:
  assumes m: "gateway_held gw (i # is) servers g m"
    and upd: "updated (GatewayObj (write_hosts at hosts i g)) answer m m'"
  shows "gateway_held gw is (decoded al (set_hosts hosts servers i) (as_Gateway answer)) (as_Gateway answer) m'"
proof -
  let ?g = "write_hosts at hosts i g"
  have held: "gateway_held gw (i # is) servers ?g m" using m by (rule gateway_held_write)
  from upd have stamp: "stamped (GatewayObj ?g) answer" by (simp add: updated_def)
  then obtain ga where ga: "answer = GatewayObj ga" "gwServers ga = gwServers ?g" by (rule stamped_GatewayD)
  have "m' (GatewayKind, (EgressNamespace, gw)) = Some answer"
    using upd held by (auto simp: updated_def gateway_held_def)
  moreover have "ref_of (GatewayObj ga) = (GatewayKind, (EgressNamespace, gw))" "\<not> removable (GatewayObj ga)"
    using held stamped_ref [OF stamp] stamped_removable [OF stamp] ga(1) by (auto simp: gateway_held_def)
  moreover have "\<forall>server \<in> set (decoded al (set_hosts hosts servers i) ga) \<union> set (gwServers ga). srvPort server \<noteq> None"
    using held set_hosts_ports [of servers] ga(2)
    by (auto simp: gateway_held_def decoded_def dest: in_set_takeD in_set_dropD)
  ultimately show ?thesis using held ga(1) by (simp add: gateway_held_def same_meta_def)
qed

lemma gateway_held_sent:
  assumes "gateway_held gw is servers g m"
  obtains old where "m (ref_of (GatewayObj g)) = Some old"
    "\<And>at hosts i. same_meta old (GatewayObj (write_hosts at hosts i g))" "metaNamespace (gwMeta g) = EgressNamespace"
proof -
  from assms obtain old where "m (ref_of (GatewayObj g)) = Some old" "same_meta old (GatewayObj g)"
    "metaNamespace (gwMeta g) = EgressNamespace"
    by (auto simp: gateway_held_def ref_of_def)
  then show thesis by (intro that [of old]) (simp_all add: same_meta_def)
qed

context kube_serves
begin

lemma progress_remove_unused_held:
  assumes r: "irClient r = c"
  shows "progress outages store (gateway_held gw is servers g) (remove_unused r inUse hosts)
    (\<lambda>_. gateway_held gw is servers g)"
proof -
  have "gateway_held gw is servers g m'"
    if "same_off (of_kinds (set resource_kinds)) m m'" "gateway_held gw is servers g m" for m m'
    using that same_offD [of _ m m' "(GatewayKind, (EgressNamespace, gw))"]
    by (simp add: gateway_held_def resource_kinds_def)
  from progress_frame [OF progress_remove_unused [OF r] kinds_remove_unused [OF r order_refl] this]
  show ?thesis by simp
qed

lemma progress_servers:
  assumes r: "irClient r = c" and acc: "\<And>ob. namespace_of ob = EgressNamespace \<Longrightarrow> accepts ob"
  shows "progress outages store (gateway_held gw is servers g)
      (external_servers al r inUse is at servers g) (\<lambda>_ _. True)"
    and "progress outages store (gateway_held gw is servers g)
      (cloudsql_servers al r inUse is at servers g) (\<lambda>_ _. True)"
proof (induction "is" arbitrary: at servers g)
  case Nil
  {
    case 1
    show ?case by (auto intro: progress_pre [OF wp_return])
  next
    case 2
    show ?case by (auto intro: progress_pre [OF wp_return])
  }
next
  case (Cons i "is")
  have unused: "progress outages store (gateway_held gw (i # is) servers g)
      (remove_unused r inUse hosts) (\<lambda>_. gateway_held gw (i # is) servers g)" for hosts servers g
    by (rule progress_remove_unused_held [OF r])
  have port: "srvPort (servers ! i) \<noteq> None" if "gateway_held gw (i # is) servers g m" for m servers g
    using that by (auto simp: gateway_held_def)
  {
    case 1
    have "progress outages store (gateway_held gw (i # is) servers g)
        (let hosts = sorted_keys inUse; gateway' = write_hosts at hosts i g in
         if length hosts = 0 then go_bind (k8s_Delete c (GatewayObj gateway')) check_error
         else go_bind (k8s_Update c (GatewayObj gateway')) (\<lambda>reply. case reply of
            Inl e \<Rightarrow> go_err (ApiError e)
          | Inr answer \<Rightarrow> external_servers al r inUse is al
              (decoded al (set_hosts hosts servers i) (as_Gateway answer)) (as_Gateway answer)))
        (\<lambda>_ _. True)"
      unfolding Let_def
      by (rule progress_pre, (rule wp_rules Cons.IH(1))+)
        (auto simp: acc intro: gateway_held_updated elim: gateway_held_sent split: option.splits)
    note rest = wp_seq [OF this unused]
    show ?case
      unfolding external_servers.simps r
      by (rule progress_pre, rule wp_branches(2), rule wp_panic, rule wp_branches(1), rule rest, rule Cons.IH(1))
        (use port in \<open>auto dest: gateway_held_tl split: option.splits\<close>)
  next
    case 2
    have "progress outages store (gateway_held gw (i # is) servers g)
        (let hosts = sorted_keys inUse; gateway' = write_hosts at hosts i g in
         go_bind (k8s_Update c (GatewayObj gateway')) (\<lambda>reply. case reply of
            Inl e \<Rightarrow> go_err (ApiError e)
          | Inr answer \<Rightarrow> cloudsql_servers al r inUse is al
              (decoded al (set_hosts hosts servers i) (as_Gateway answer)) (as_Gateway answer)))
        (\<lambda>_ _. True)"
      unfolding Let_def
      by (rule progress_pre, (rule wp_rules Cons.IH(2))+)
        (auto simp: acc intro: gateway_held_updated elim: gateway_held_sent split: option.splits)
    note rest = wp_seq [OF this]
    show ?case
      unfolding cloudsql_servers.simps r
      by (rule progress_pre, rule wp_branches(2), rule wp_panic, rule rest, rule wp_branches(1),
          rule unused, rule wp_return)
        (use port in \<open>auto split: option.splits\<close>)
  }
qed

text \<open>The loops start with the gateway that was just read.\<close>

lemma progress_gateway_loop:
  assumes loop: "\<And>g. progress outages store
    (gateway_held gw [0..<length (gwServers g)] (gwServers g) g) (f g) (\<lambda>_ _. True)"
  shows "progress outages store (\<lambda>m. gateway_proper m gw)
    (go_bind (k8s_Get c GatewayKind (EgressNamespace, gw)) (\<lambda>reply. case reply of
        Inl e \<Rightarrow> (if IsNotFound e then go_return () else go_err (ApiError e))
      | Inr ob \<Rightarrow> f (as_Gateway ob))) (\<lambda>_ _. True)"
proof -
  have "gateway_held gw [0..<length (gwServers (as_Gateway ob))] (gwServers (as_Gateway ob)) (as_Gateway ob) m"
    if "gateway_proper m gw" "m (GatewayKind, (EgressNamespace, gw)) = Some ob"
      "ref_of ob = (GatewayKind, (EgressNamespace, gw))" "\<not> removable ob" for m ob
  proof -
    from that(3) obtain g where "ob = GatewayObj g" by (cases ob) (auto simp: ref_of_def)
    with that show ?thesis
      by (auto simp: gateway_held_def gateway_proper_def proper_gateway_def same_meta_def)
  qed
  then show ?thesis
    by - (rule progress_pre, rule wp_bind, rule wp_branches(3), rule wp_branches(1), rule wp_return,
      rule wp_err, rule loop, rule wp_Get, auto split: option.splits)
qed

lemma progress_cleanupGateways:
  assumes r: "irClient r = c" and acc: "\<And>ob. namespace_of ob = EgressNamespace \<Longrightarrow> accepts ob"
  shows "progress outages store (\<lambda>m. gateway_proper m externalGatewayName) (cleanupExternalHosts al r utsas) (\<lambda>_ _. True)"
    and "progress outages store (\<lambda>m. gateway_proper m cloudSQLGatewayName) (cleanupCloudSQLHosts al r utsas) (\<lambda>_ _. True)"
  unfolding cleanupExternalHosts_def cleanupCloudSQLHosts_def Let_def r
  by (rule progress_gateway_loop, rule progress_servers [OF r acc], assumption)+

lemma frame_cleanupExternalHosts:
  assumes r: "irClient r = c"
  shows "safe (on_store store (\<lambda>m m'. m' (GatewayKind, (EgressNamespace, cloudSQLGatewayName))
      = m (GatewayKind, (EgressNamespace, cloudSQLGatewayName)))) (cleanupExternalHosts al r utsas)"
proof (rule safeI)
  fix w
  obtain res w' where run: "cleanupExternalHosts al r utsas w = (res, w')"
    by (cases "cleanupExternalHosts al r utsas w")
  let ?ref = "(GatewayKind, (EgressNamespace, cloudSQLGatewayName))"
  have "?ref \<notin> host_refs (store (ext w)) H" for H by (rule host_refs_not_gateway [OF kube_api_axioms])
  then have "store (ext w') ?ref = store (ext w) ?ref"
    by (intro same_offD [OF cleanup_hosts_off(1) [OF r run]])
      (simp add: externalGatewayName_def cloudSQLGatewayName_def)
  with run show "on_store store (\<lambda>m m'. m' ?ref = m ?ref) w (snd (cleanupExternalHosts al r utsas w))"
    by (simp add: on_store_def)
qed

lemma progress_CleanupUnusedHosts:
  assumes r: "irClient r = c" and acc: "\<And>ob. namespace_of ob = EgressNamespace \<Longrightarrow> accepts ob"
  shows "progress outages store
    (\<lambda>m. gateway_proper m externalGatewayName \<and> gateway_proper m cloudSQLGatewayName)
    (CleanupUnusedHosts al r) (\<lambda>_ _. True)"
proof -
  let ?J = "\<lambda>m. gateway_proper m externalGatewayName \<and> gateway_proper m cloudSQLGatewayName"
  have internal: "progress outages store ?J (cleanupInternalHosts r utsas) (\<lambda>_. ?J)" for utsas
  proof -
    have "gateway_proper m' gw" if "same_off (of_kinds {AuthorizationPolicyKind}) m m'" "gateway_proper m gw" for m m' gw
      using that same_offD [of _ m m' "(GatewayKind, (EgressNamespace, gw))"] by (simp add: gateway_proper_def)
    then have "?J m'" if "same_off (of_kinds {AuthorizationPolicyKind}) m m'" "?J m" for m m'
      using that by blast
    from progress_frame [OF progress_cleanupInternalHosts [OF r] kinds_cleanupInternalHosts [OF r insertI1] this]
    show ?thesis by simp
  qed
  have external: "progress outages store ?J (cleanupExternalHosts al r utsas)
      (\<lambda>_ m. gateway_proper m cloudSQLGatewayName)" for utsas
    using progress_frame [OF progress_cleanupGateways(1) [OF r acc] frame_cleanupExternalHosts [OF r],
        where J = "\<lambda>m. gateway_proper m cloudSQLGatewayName"]
    by (simp add: gateway_proper_def)
  show ?thesis
    unfolding CleanupUnusedHosts_def Let_def r
    by (rule wp_bind, rule wp_seq, rule wp_seq, rule progress_cleanupGateways(2) [OF r acc], assumption,
        rule external, rule internal, rule progress_pre, rule wp_List) simp
qed

end

end
