(* ===== verification/Readiness.thy ===== *)
theory Readiness
  imports ProgressCleanup
begin

text \<open>
  What a reconciliation needs of the cluster it leaves for the next one, however it ends:
  names that are free stay free and gateways that can be extended stay so, whether a call
  succeeds, fails, or fails after it has been applied. An attempt that was cut short can
  therefore be repeated.
\<close>

section \<open>The cluster stays ready\<close>

abbreviation cloudsql_ref :: obj_ref where
  "cloudsql_ref \<equiv> (GatewayKind, (EgressNamespace, cloudSQLGatewayName))"

definition kept_ready :: "(contents \<Rightarrow> bool) \<Rightarrow> contents \<Rightarrow> contents \<Rightarrow> bool" where
  "kept_ready A m m' \<longleftrightarrow> (A m \<longrightarrow> A m') \<and> (m cloudsql_ref \<noteq> None \<longrightarrow> m' cloudsql_ref \<noteq> None)"

abbreviation ready_step :: "(string \<times> string) list \<Rightarrow> contents \<Rightarrow> contents \<Rightarrow> bool" where
  "ready_step names \<equiv> kept_ready (egress_open names)"

interpretation ready: effect_order "on_store store (kept_ready A)" for store A
  by (rule effect_order_on_store) (auto simp: kept_ready_def)

lemma kept_ready_refl [simp]: "kept_ready A m m"
  by (simp add: kept_ready_def)

lemma egress_open_frame:
  assumes off: "same_off (of_kinds K) m m'" and K: "{GatewayKind, DestinationRuleKind, ServiceEntryKind} \<inter> K = {}"
    and m: "egress_open names m"
  shows "egress_open names m'"
proof -
  have same: "m' (k, key) = m (k, key)" if "k \<in> {GatewayKind, DestinationRuleKind, ServiceEntryKind}" for k key
    using K that by (intro same_offD [OF off]) auto
  have "m' ref = m ref" if "(ref, labels) \<in> set (claimed host name)" for ref labels host name
    using that same by (auto simp: claimed_def)
  with m have "names_free names m'"
    unfolding egress_open_def names_free_def by (auto split: prod.splits)
  with m show ?thesis by (simp add: egress_open_def gateway_proper_def same)
qed

lemma ready_frame:
  assumes off: "same_off (of_kinds K) m m'" and K: "{GatewayKind, DestinationRuleKind, ServiceEntryKind} \<inter> K = {}"
  shows "ready_step names m m'"
proof -
  have "m' cloudsql_ref = m cloudsql_ref" using K by (intro same_offD [OF off]) auto
  then show ?thesis unfolding kept_ready_def using egress_open_frame [OF off K] by simp
qed

lemma ready_writes:
  "created ob m m' \<Longrightarrow> suits names ob \<Longrightarrow> ready_step names m m'"
  "updated ob ob' m m' \<Longrightarrow> suits names ob \<Longrightarrow> \<not> removable ob \<Longrightarrow> ready_step names m m'"
  using egress_open_created [of ob m m' names] egress_open_updated [of ob ob' m m' names]
  by (auto simp: kept_ready_def created_def stored_as_def updated_def)

lemma egress_open_terminating:
  assumes m: "egress_open names m" and old: "m ref = Some old"
  shows "egress_open names (m(ref \<mapsto> terminating t old))"
proof -
  have labels: "lo_matches lo (terminating t old) = lo_matches lo old" for lo
    by (simp add: lo_matches_def terminating_def cong: option.case_cong)
  have "names_free names (m(ref \<mapsto> terminating t old))"
    using m old labels unfolding egress_open_def names_free_def
    by (auto split: prod.splits)
  moreover have "gateway_proper (m(ref \<mapsto> terminating t old)) gw" if "gateway_proper m gw" for gw
    using that old by (cases old) (auto simp: gateway_proper_def terminating_def proper_gateway_def)
  ultimately show ?thesis using m by (simp add: egress_open_def)
qed

lemma egress_open_removed: "egress_open names m \<Longrightarrow> egress_open names (m(ref := None))"
  unfolding egress_open_def names_free_def gateway_proper_def by (auto split: prod.splits)

lemma ready_deleted:
  assumes "deleted ob m m'" and "ref_of ob \<noteq> cloudsql_ref"
  shows "ready_step names m m'"
  using assms
  by (auto simp: deleted_def kept_ready_def intro: egress_open_terminating egress_open_removed split: if_splits)

section \<open>The stages that create\<close>

context kube_api
begin

lemma ready_reads:
  "safe (on_store store (kept_ready A)) (k8s_Get c k key)"
  "safe (on_store store (kept_ready A)) (k8s_List c k lo)"
  "safe (on_store store (kept_ready A)) (check_reply reply)"
  "safe (on_store store (kept_ready A)) (check_error err)"
  by (auto intro: safe_Get safe_List)

lemma ready_Create: "suits names ob \<Longrightarrow> safe (on_store store (ready_step names)) (k8s_Create c ob)"
  by (rule safe_Create) (auto intro: ready_writes)

lemmas ready_rules =
  ready.safe_rules safe_branches ready_reads ready_Create
  ready.safe_return ready.safe_err ready.safe_panic ready.safe_Join

lemma ready_create_unless:
  assumes r: "irClient r = c" and "safe (on_store store (ready_step names)) check" and "suits names ob"
  shows "safe (on_store store (ready_step names)) (create_unless r check ob)"
  unfolding create_unless_def r using assms(2,3) by (intro ready_rules)

lemma ready_exists:
  assumes r: "irClient r = c"
  shows "safe (on_store store (ready_step names)) (exists_in_egress r k labels)"
    and "safe (on_store store (ready_step names)) (virtualServiceExists r n)"
  unfolding exists_in_egress_def virtualServiceExists_def r by (rule ready_rules)+

lemma ready_ensureGatewayExists:
  assumes r: "irClient r = c"
  shows "safe (on_store store (ready_step names)) (ensureGatewayExists r gw host)"
  unfolding ensureGatewayExists_def r by (intro ready_rules) simp

text \<open>A gateway just read gets one more host.\<close>

lemma ready_ensureGatewayContainsHost:
  assumes r: "irClient r = c" and gw: "gw \<in> {externalGatewayName, cloudSQLGatewayName}"
  shows "safe (on_store store (ready_step names)) (ensureGatewayContainsHost r gw host)"
  unfolding ensureGatewayContainsHost_def r
proof (rule safe_Get_bind [OF ready.effect_order_axioms])
  fix ob and w :: "'s world"
  let ?send = "\<lambda>g server servers. GatewayObj (g\<lparr>gwServers :=
      server\<lparr>srvHosts := appendSortedCompact (srvHosts server) host\<rparr> # servers\<rparr>)"
  assume old: "store (ext w) (GatewayKind, (EgressNamespace, gw)) = Some ob"
  then obtain g where g: "ob = GatewayObj g" by (rule stored_gateway)
  have ref: "ref_of (GatewayObj g) = (GatewayKind, (EgressNamespace, gw))" and live: "\<not> removable (GatewayObj g)"
    using store_ref [OF old] store_live [OF old] g by simp_all
  have step: "ready_step names (store (ext w)) m'"
    if "gwServers g = server # servers" "updated (?send g server servers) ob' (store (ext w)) m'"
    for server servers ob' m'
  proof -
    have kept: "\<not> removable (?send g server servers)" "ref_of (?send g server servers) = ref_of (GatewayObj g)"
      using live by (simp_all add: removable_def ref_of_def)
    have "suits names (?send g server servers)" if "egress_open names (store (ext w))"
      using that old g gw \<open>gwServers g = server # servers\<close>
      by (auto simp: egress_open_def gateway_proper_def intro: proper_add_host)
    with kept egress_open_updated [OF that(2)] that(2) show ?thesis
      by (auto simp: kept_ready_def updated_def)
  qed
  then show "on_store store (ready_step names) w (snd ((case Inr ob of
      Inl e \<Rightarrow> go_err (ApiError e)
    | Inr ob \<Rightarrow> (let gateway = as_Gateway ob in case gwServers gateway of
          [] \<Rightarrow> go_panic
        | server # servers \<Rightarrow> go_bind (k8s_Update c (?send gateway server servers))
            (\<lambda>reply. case reply of Inl e \<Rightarrow> go_err (ApiError e) | Inr answer \<Rightarrow> go_return ()))) w))"
    unfolding g
    by (auto simp: on_store_def call_defs go_defs Let_def dest!: update
        split: list.splits prod.splits sum.splits)
qed simp_all

lemma ready_host_resources:
  assumes r: "irClient r = c" and names: "names_distinct names" "(host, name) \<in> set names"
    and drs: "drMeta dr1 = destinationRuleObjectMeta (name @ ''-to-gateway'') egressToGatewayLabel host"
      "drMeta dr2 = destinationRuleObjectMeta (name @ ''-from-gateway'') egressFromGatewayLabel host"
    and se: "seMeta se = new_meta name EgressNamespace [''host'' \<mapsto> host, managedByLabel \<mapsto> managedByValue]"
  shows "safe (on_store store (ready_step names)) (host_resources r host name vs dr1 dr2 se)"
proof -
  have "suits names (DestinationRuleObj dr1)" "suits names (DestinationRuleObj dr2)" "suits names (ServiceEntryObj se)"
    by (rule suits_host [OF names, where labels = "[(''host'', host), (''type'', egressToGatewayLabel), (managedByLabel, managedByValue)]"]
        suits_host [OF names, where labels = "[(''host'', host), (''type'', egressFromGatewayLabel), (managedByLabel, managedByValue)]"]
        suits_host [OF names, where labels = "[(''host'', host)]"];
      simp add: drs se claimed_def ref_of_def egress_matches destinationRuleObjectMeta_def managedByLabel_def)+
  then show ?thesis
    unfolding host_resources_def createServiceEntry_def destinationRuleToGatewayExists_def
      destinationRuleFromGatewayExists_def serviceEntryExists_def r
    by (intro ready.safe_seq ready_create_unless r ready_exists ready_rules) simp_all
qed

lemma ready_EnsureHosts:
  assumes r: "irClient r = c" and names: "names_distinct (host_names sas)"
  shows "safe (on_store store (ready_step (host_names sas))) (EnsureExternalHosts r sas)"
    and "safe (on_store store (ready_step (host_names sas))) (EnsureCloudSQLHosts r sas)"
proof -
  have "safe (on_store store (ready_step (host_names sas))) (ensureExternalHost r h)" if h: "h \<in> set (external_hosts sas)" for h
  proof -
    have name: "(hostHost h, Host_Name h) \<in> set (host_names sas)" using h by (simp add: host_names_def)
    have eq: "ensureExternalHost r h = go_seq (ensureGatewayExists r externalGatewayName (hostHost h))
      (go_seq (ensureGatewayContainsHost r externalGatewayName (hostHost h))
        (host_resources r (hostHost h) (Host_Name h)
          (newVirtualServiceForExternalHost h) (newExternalHostDestinationRuleToGateway h)
          (newExternalHostDestinationRuleFromGateway h) (newHTTPSServiceEntry h)))"
      unfolding ensureExternalHost_def host_resources_def by (rule refl)
    show ?thesis
      unfolding eq by (intro ready.safe_seq ready_ensureGatewayExists ready_ensureGatewayContainsHost
          ready_host_resources r names name) (simp_all add: builder_defs)
  qed
  then show "safe (on_store store (ready_step (host_names sas))) (EnsureExternalHosts r sas)"
    unfolding EnsureExternalHosts_flat by (rule ready.safe_for_each)
  have "safe (on_store store (ready_step (host_names sas))) (ensureCloudSQLHost r q)" if q: "q \<in> set (cloudsql_hosts sas)" for q
  proof -
    have name: "(CloudSQL_Host q, CloudSQL_Name q) \<in> set (host_names sas)" using q by (simp add: host_names_def)
    have eq: "ensureCloudSQLHost r q = go_seq (ensureGatewayContainsHost r cloudSQLGatewayName (CloudSQL_Host q))
        (host_resources r (CloudSQL_Host q) (CloudSQL_Name q)
          (newVirtualServiceForCloudSQLHost q) (newCloudSQLDestinationRuleToGateway q)
          (newCloudSQLDestinationRuleFromGateway q) (newCloudSQLServiceEntry q))"
      unfolding ensureCloudSQLHost_def host_resources_def by (rule refl)
    show ?thesis
      unfolding eq by (intro ready.safe_seq ready_ensureGatewayContainsHost
          ready_host_resources r names name) (simp_all add: builder_defs)
  qed
  then show "safe (on_store store (ready_step (host_names sas))) (EnsureCloudSQLHosts r sas)"
    unfolding EnsureCloudSQLHosts_flat by (rule ready.safe_for_each)
qed

end

section \<open>The stages that clean up\<close>

text \<open>
  The loops over the servers of a gateway: either nothing is known of the cluster, or it is
  open to the names and the gateway is a proper one.
\<close>

definition knows_gateway :: "(contents \<Rightarrow> bool) \<Rightarrow> string \<Rightarrow> Gateway \<Rightarrow> bool" where
  "knows_gateway A gw g \<longleftrightarrow> ref_of (GatewayObj g) = (GatewayKind, (EgressNamespace, gw))
     \<and> \<not> removable (GatewayObj g)
     \<and> (A = (\<lambda>_. False) \<or> (\<exists>names. A = egress_open names) \<and> proper_gateway g)"

lemma set_hosts_eq_Nil [simp]: "set_hosts hosts servers i = [] \<longleftrightarrow> servers = []"
  by (simp add: set_hosts_def)

lemma knows_gateway_write: "knows_gateway A gw g \<Longrightarrow> knows_gateway A gw (write_hosts at hosts i g)"
  using set_hosts_ports [of "gwServers g" hosts i]
  by (auto simp: knows_gateway_def proper_gateway_def write_hosts_def removable_def ref_of_def)

lemma knows_gateway_stamped:
  assumes g: "knows_gateway A gw g" and stamp: "stamped (GatewayObj g) answer"
  shows "knows_gateway A gw (as_Gateway answer)"
proof -
  from stamp obtain g' where "answer = GatewayObj g'" "gwServers g' = gwServers g" by (rule stamped_GatewayD)
  with g stamped_ref [OF stamp] stamped_removable [OF stamp] show ?thesis
    by (auto simp: knows_gateway_def proper_gateway_def)
qed

lemma knows_gateway_updated:
  "knows_gateway A gw g \<Longrightarrow> updated (GatewayObj g) ob' m m' \<Longrightarrow> kept_ready A m m'"
  using ready_writes(2) [of "GatewayObj g" ob' m m']
  by (auto simp: knows_gateway_def kept_ready_def updated_def)

context kube_api
begin

lemma ready_Update_then:
  assumes g: "knows_gateway A gw g"
    and rest: "\<And>g'. knows_gateway A gw g' \<Longrightarrow> safe (on_store store (kept_ready A)) (f g')"
  shows "safe (on_store store (kept_ready A)) (go_bind (k8s_Update c (GatewayObj g))
    (\<lambda>reply. case reply of Inl e \<Rightarrow> go_err (ApiError e) | Inr answer \<Rightarrow> f (as_Gateway answer)))"
proof (rule ready.safe_bind_Ok)
  show "safe (on_store store (kept_ready A)) (k8s_Update c (GatewayObj g))"
    by (rule safe_Update) (auto intro: knows_gateway_updated [OF g])
  fix reply and w w' :: "'s world"
  assume run: "k8s_Update c (GatewayObj g) w = (Ok reply, w')"
  show "safe (on_store store (kept_ready A))
      (case reply of Inl e \<Rightarrow> go_err (ApiError e) | Inr answer \<Rightarrow> f (as_Gateway answer))"
  proof (cases reply)
    case (Inr answer)
    with run have "stamped (GatewayObj g) answer" using Update_OkD by (auto simp: updated_def)
    with Inr rest knows_gateway_stamped [OF g] show ?thesis by simp
  qed simp
qed

lemma ready_frame_kinds:
  assumes "changes_kinds store K m" and "{GatewayKind, DestinationRuleKind, ServiceEntryKind} \<inter> K = {}"
  shows "safe (on_store store (ready_step names)) m"
  using assms by (auto elim!: safe_mono simp: on_store_def intro: ready_frame)

lemma ready_remove_unused:
  assumes r: "irClient r = c" and A: "A = (\<lambda>_. False) \<or> (\<exists>names. A = egress_open names)"
  shows "safe (on_store store (kept_ready A)) (remove_unused r inUse hosts)"
proof -
  have del: "safe (on_store store (kept_ready A)) (k8s_Delete c ob)" if "kind_of ob \<noteq> GatewayKind" for ob
  proof (rule safe_Delete)
    have "ref_of ob \<noteq> cloudsql_ref" using that by (auto simp: ref_of_def)
    with A show "kept_ready A m m'" if "deleted ob m m'" for m m'
      using that ready_deleted [OF that] by (auto simp: kept_ready_def)
  qed simp
  have step: "safe (on_store store (kept_ready A)) (removeByHostLabel r host k)" if "k \<noteq> GatewayKind" for host k
    unfolding removeByHostLabel_def r
  proof (rule ready.safe_bind_Ok)
    fix obs and w w' :: "'s world"
    assume "go_bind (k8s_List c k (egress_opts (matchingHostLabel host))) check_reply w = (Ok obs, w')"
    then have "kind_of ob = k" if "ob \<in> set obs" for ob
      using that by (auto elim!: go_bind_OkE elim: List_OkD)
    with that show "safe (on_store store (kept_ready A)) (go_bind
        (fold_go (\<lambda>ob errs. go_bind (k8s_Delete c ob)
             (\<lambda>err. go_return (case err of None \<Rightarrow> errs | Some e \<Rightarrow> errs @ [ApiError e]))) obs []) errors_Join)"
      by (intro ready.safe_bind ready.safe_fold_go del) auto
  qed (intro ready_rules)
  show ?thesis
    unfolding remove_unused_def removeExternalHost_def
    by (intro ready.safe_for_each safe_branches ready.safe_bind ready.safe_fold_go ready.safe_try step) auto
qed

lemma ready_servers:
  assumes r: "irClient r = c"
  shows "knows_gateway A externalGatewayName g \<Longrightarrow> safe (on_store store (kept_ready A))
      (external_servers al r inUse is at servers g)"
    and "knows_gateway A cloudSQLGatewayName g \<Longrightarrow> safe (on_store store (kept_ready A))
      (cloudsql_servers al r inUse is at servers g)"
proof (induction "is" arbitrary: at servers g)
  case (Cons i "is")
  {
    case 1
    have A: "A = (\<lambda>_. False) \<or> (\<exists>names. A = egress_open names)" using 1 by (auto simp: knows_gateway_def)
    have "safe (on_store store (kept_ready A)) (k8s_Delete c (GatewayObj (write_hosts at hosts i g)))" for hosts
    proof (rule safe_Delete)
      have "ref_of (GatewayObj (write_hosts at hosts i g)) \<noteq> cloudsql_ref"
        using knows_gateway_write [OF 1, of at hosts i]
        by (auto simp: knows_gateway_def externalGatewayName_def cloudSQLGatewayName_def)
      with A show "kept_ready A m m'" if "deleted (GatewayObj (write_hosts at hosts i g)) m m'" for m m'
        using that ready_deleted [OF that] by (auto simp: kept_ready_def)
    qed simp
    then have "safe (on_store store (kept_ready A))
        (go_bind (k8s_Delete c (GatewayObj (write_hosts at hosts i g))) check_error)" for hosts
      by (intro ready.safe_bind ready_reads)
    with 1 Cons.IH(1) show ?case
      by (auto simp: r Let_def intro!: ready.safe_seq ready_remove_unused [OF r A] ready_Update_then
          knows_gateway_write split: option.splits)
  next
    case 2
    have A: "A = (\<lambda>_. False) \<or> (\<exists>names. A = egress_open names)" using 2 by (auto simp: knows_gateway_def)
    note unused = ready_remove_unused [OF r A]
    show ?case
      using 2 Cons.IH(2)
      by (auto simp: r Let_def intro!: ready.safe_seq unused ready_Update_then
          knows_gateway_write split: option.splits)
  }
qed simp_all

text \<open>What is known of a gateway that was just read depends on the cluster it was read from.\<close>

lemma ready_gateway_loop:
  assumes gw: "gw \<in> {externalGatewayName, cloudSQLGatewayName}"
    and loop: "\<And>A g. knows_gateway A gw g \<Longrightarrow> safe (on_store store (kept_ready A)) (f g)"
  shows "safe (on_store store (ready_step names))
    (go_bind (k8s_Get c GatewayKind (EgressNamespace, gw)) (\<lambda>reply. case reply of
        Inl e \<Rightarrow> (if IsNotFound e then go_return () else go_err (ApiError e))
      | Inr ob \<Rightarrow> f (as_Gateway ob)))"
proof (rule safe_Get_bind [OF ready.effect_order_axioms])
  fix ob and w :: "'s world"
  assume old: "store (ext w) (GatewayKind, (EgressNamespace, gw)) = Some ob"
  then obtain g where g: "ob = GatewayObj g" by (rule stored_gateway)
  let ?A = "if egress_open names (store (ext w)) then egress_open names else (\<lambda>_. False)"
  have "knows_gateway ?A gw g"
    using store_ref [OF old] store_live [OF old] old g gw
    by (auto simp: knows_gateway_def egress_open_def gateway_proper_def)
  then have "safe (on_store store (kept_ready ?A)) (f g)" by (rule loop)
  then show "on_store store (ready_step names) w (snd ((case Inr ob of
        Inl e \<Rightarrow> (if IsNotFound e then go_return () else go_err (ApiError e))
      | Inr ob \<Rightarrow> f (as_Gateway ob)) w))"
    by (auto simp: g safe_def on_store_def kept_ready_def split: if_splits)
qed (simp_all add: ready.safe_return)

lemma ready_CleanupUnusedHosts:
  assumes r: "irClient r = c"
  shows "safe (on_store store (ready_step names)) (CleanupUnusedHosts al r)"
proof -
  have "safe (on_store store (ready_step names)) (cleanupInternalHosts r utsas)" for utsas
    by (rule ready_frame_kinds [OF kinds_cleanupInternalHosts [OF r, of "{AuthorizationPolicyKind}"]]) simp_all
  moreover have "safe (on_store store (ready_step names)) (cleanupExternalHosts al r utsas)"
    "safe (on_store store (ready_step names)) (cleanupCloudSQLHosts al r utsas)" for utsas
    unfolding cleanupExternalHosts_def cleanupCloudSQLHosts_def Let_def r
    by (rule ready_gateway_loop, simp, rule ready_servers [OF r], assumption)+
  ultimately show ?thesis
    unfolding CleanupUnusedHosts_def Let_def r by (intro ready_rules)
qed

end

section \<open>The reconciled resource\<close>

text \<open>
  A reconciliation of a resource changes it in its finalizers only. It can be removed, by
  the server, when it is being deleted.
\<close>

definition utsa_kept :: "key \<Rightarrow> UnionTeamServiceAccounts \<Rightarrow> contents \<Rightarrow> bool" where
  "utsa_kept req utsa m \<longleftrightarrow>
     (case m (UTSAKind, req) of
        None \<Rightarrow> \<not> Time_IsZero (metaDeletionTimestamp (utsaMeta utsa))
      | Some ob \<Rightarrow> (\<exists>u. ob = UTSAObj u \<and> utsaSpec u = utsaSpec utsa
          \<and> metaDeletionTimestamp (utsaMeta u) = metaDeletionTimestamp (utsaMeta utsa)))"

context kube_api
begin

lemma update_utsa_keeps:
  assumes r: "ctlClient r = c"
    and u: "utsaSpec u = utsaSpec utsa" "metaDeletionTimestamp (utsaMeta u) = metaDeletionTimestamp (utsaMeta utsa)"
      "ref_of (UTSAObj u) = (UTSAKind, req)"
    and rem: "removable (UTSAObj u) \<Longrightarrow> \<not> Time_IsZero (metaDeletionTimestamp (utsaMeta utsa))"
  shows "safe (on_store store (\<lambda>m m'. utsa_kept req utsa m \<longrightarrow> utsa_kept req utsa m')) (update_utsa r u)"
proof -
  have step: "utsa_kept req utsa m'" if upd: "updated (UTSAObj u) ob' m m'" for ob' m m'
  proof (cases "removable (UTSAObj u)")
    case True
    with upd u(3) rem show ?thesis by (simp add: updated_def utsa_kept_def)
  next
    case False
    with upd u(3) have "m' (UTSAKind, req) = Some ob'" "stamped (UTSAObj u) ob'" by (simp_all add: updated_def)
    with u(1,2) show ?thesis
      using stampedD(7) [of "UTSAObj u" ob'] by (auto simp: utsa_kept_def elim!: stamped_UTSAD)
  qed
  let ?S = "\<lambda>m m'. utsa_kept req utsa m \<longrightarrow> utsa_kept req utsa m'"
  have order: "effect_order (on_store store ?S)" by (rule effect_order_on_store) auto
  have "safe (on_store store ?S) (k8s_Update c (UTSAObj u))" by (rule safe_Update) (auto intro: step)
  then show ?thesis
    unfolding update_utsa_def r
    by (intro effect_order.safe_bind [OF order] effect_order.safe_return [OF order] safe_check) simp_all
qed

text \<open>An attempt leaves what the next attempt needs, whatever its outcome.\<close>

lemma kept_frame:
  assumes "same_off (of_kinds K) m m'" and "UTSAKind \<notin> K" and "utsa_kept req utsa m"
  shows "utsa_kept req utsa m'"
  using assms same_offD [OF assms(1), of "(UTSAKind, req)"] by (simp add: utsa_kept_def)

lemma reconcile_deletion_keeps:
  assumes r: "ctlClient r = c" and F: "finalizer_util (ctlFinalizers r)"
    and stored: "store (ext w) (UTSAKind, req) = Some (UTSAObj utsa)"
    and dying: "\<not> Time_IsZero (metaDeletionTimestamp (utsaMeta utsa))"
    and run: "reconcile_deletion r utsa w = (res, w')"
  shows "utsa_kept req utsa (store (ext w'))"
proof -
  have ir: "irClient (ctl_istio r) = c" using r by (simp add: ctl_istio_def)
  have start: "utsa_kept req utsa (store (ext w))" using stored by (simp add: utsa_kept_def)
  let ?S = "\<lambda>m m'. utsa_kept req utsa m \<longrightarrow> utsa_kept req utsa m'"
  have order: "effect_order (on_store store ?S)" by (rule effect_order_on_store) auto
  note sel = finalizer_util.remove_sel [OF F, where u = utsa and f = unionFinalizer]
  have "ref_of (UTSAObj (fRemove (ctlFinalizers r) utsa unionFinalizer)) = (UTSAKind, req)"
    using store_ref [OF stored] by (simp add: ref_of_def sel)
  then have update: "safe (on_store store ?S) (update_utsa r (fRemove (ctlFinalizers r) utsa unionFinalizer))"
    using dying by (intro update_utsa_keeps [OF r]) (simp_all add: sel)
  have clean: "safe (on_store store ?S) (IstioCleanup.CleanupAllResources (ctl_istio r) utsa)"
    by (rule safe_mono [OF kinds_CleanupPolicies(2) [OF ir, of "{AuthorizationPolicyKind}"]])
      (auto simp: on_store_def intro: kept_frame)
  have "safe (on_store store ?S) (reconcile_deletion r utsa)"
    unfolding reconcile_deletion_def
    by (intro safe_branches effect_order.safe_seq [OF order] effect_order.safe_bind [OF order]
        effect_order.safe_return [OF order] update clean)
  from safeD [OF this run] start show ?thesis by (simp add: on_store_def)
qed

lemma reconcile_live_keeps:
  assumes r: "ctlClient r = c" and F: "finalizer_util (ctlFinalizers r)"
    and persister: "allowlist_persister (ctlPersister r) store"
    and stored: "store (ext w) (UTSAKind, req) = Some (UTSAObj utsa)"
    and names: "names_distinct (host_names sas)"
    and run: "go_bind (ensure_finalizer r utsa) (reconcile_stages r cfg u sas) w = (res, w')"
  shows "utsa_kept req utsa (store (ext w'))"
    and "ready_step (host_names sas) (store (ext w)) (store (ext w'))"
proof -
  let ?S = "\<lambda>m m'. (utsa_kept req utsa m \<longrightarrow> utsa_kept req utsa m') \<and> ready_step (host_names sas) m m'"
  have sar: "sarClient (ctl_accounts r cfg) = c" and ir: "irClient (ctl_istio r) = c"
    using r by (simp_all add: ctl_accounts_def ctl_istio_def)
  have start: "utsa_kept req utsa (store (ext w))" using stored by (simp add: utsa_kept_def)
  have order: "effect_order (on_store store ?S)"
    by (rule effect_order_on_store) (auto simp: kept_ready_def)
  have of_kinds: "safe (on_store store ?S) m"
    if "changes_kinds store K m" "UTSAKind \<notin> K" "safe (on_store store (ready_step (host_names sas))) m"
    for K and m :: "('s world, 'a) go"
    using that unfolding safe_def on_store_def by (auto intro: kept_frame)
  have frame: "safe (on_store store ?S) m"
    if "changes_kinds store K m" "UTSAKind \<notin> K" "{GatewayKind, DestinationRuleKind, ServiceEntryKind} \<inter> K = {}"
    for K and m :: "('s world, 'a) go"
    using that(1,2) ready_frame_kinds [OF that(1,3)] by (rule of_kinds)
  have fin: "safe (on_store store ?S) (ensure_finalizer r utsa)"
  proof -
    note sel = finalizer_util.add_sel [OF F, where u = utsa and f = unionFinalizer]
    have "ref_of (UTSAObj (fAdd (ctlFinalizers r) utsa unionFinalizer)) = (UTSAKind, req)"
      using store_ref [OF stored] by (simp add: ref_of_def sel)
    moreover have "\<not> removable (UTSAObj (fAdd (ctlFinalizers r) utsa unionFinalizer))"
      using sel(5) by (auto simp: removable_def)
    ultimately have "safe (on_store store (\<lambda>m m'. utsa_kept req utsa m \<longrightarrow> utsa_kept req utsa m'))
        (update_utsa r (fAdd (ctlFinalizers r) utsa unionFinalizer))"
      by (intro update_utsa_keeps [OF r]) (simp_all add: sel)
    moreover have "safe (on_store store (ready_step (host_names sas))) (update_utsa r x)" for x
    proof (rule ready_frame_kinds)
      show "changes_kinds store {UTSAKind} (update_utsa r x)"
        unfolding update_utsa_def r by (rule kinds_rules | simp)+
    qed simp
    ultimately have "safe (on_store store ?S) (update_utsa r (fAdd (ctlFinalizers r) utsa unionFinalizer))"
      unfolding safe_def on_store_def by blast
    then show ?thesis
      unfolding ensure_finalizer_def by (intro safe_branches effect_order.safe_return [OF order])
  qed
  have "safe (on_store store ?S) (ctlPersister r utsa')" for utsa'
    using persister by (rule allowlist_persister.persist_safe) simp
  moreover have "safe (on_store store ?S) (CreateOrUpdateServiceAccounts (ctl_accounts r cfg) u sas)"
    "safe (on_store store ?S) (CleanupRemovedServiceAccounts (ctl_accounts r cfg) u sas)"
    by (rule frame [OF kinds_CreateOrUpdateServiceAccounts [OF sar]]
        frame [OF kinds_CleanupRemovedServiceAccounts [OF sar]]; simp add: sa_kinds_def)+
  moreover have "safe (on_store store ?S) (EnsureExternalHosts (ctl_istio r) sas)"
    "safe (on_store store ?S) (EnsureCloudSQLHosts (ctl_istio r) sas)"
    by (rule of_kinds [OF kinds_EnsureHosts(1) [OF ir] _ ready_EnsureHosts(1) [OF ir names]]
        of_kinds [OF kinds_EnsureHosts(2) [OF ir] _ ready_EnsureHosts(2) [OF ir names]]; simp)+
  moreover have "safe (on_store store ?S) (EnsureAuthorizationPolicies (ctl_istio r) sas)"
    "safe (on_store store ?S) (CleanupRemovedServiceAccountAuthzPolicies (ctl_istio r) utsa')" for utsa'
    by (rule frame [OF kinds_EnsureAuthorizationPolicies [OF ir, of "{AuthorizationPolicyKind}"]]
        frame [OF kinds_CleanupPolicies(1) [OF ir, of "{AuthorizationPolicyKind}"]]; simp)+
  moreover have "safe (on_store store ?S) (CleanupUnusedHosts (ctlAliased r) (ctl_istio r))"
    by (rule of_kinds [OF kinds_CleanupUnusedHosts [OF ir] _ ready_CleanupUnusedHosts [OF ir]]) simp
  ultimately have "safe (on_store store ?S) (go_bind (ensure_finalizer r utsa) (reconcile_stages r cfg u sas))"
    unfolding reconcile_stages_def reconcile_resources_def Let_def
    by (intro effect_order.safe_seq [OF order] effect_order.safe_bind [OF order] fin)
  from safeD [OF this run] start
  show "utsa_kept req utsa (store (ext w'))"
    and "ready_step (host_names sas) (store (ext w)) (store (ext w'))"
    by (simp_all add: on_store_def)
qed

end

end
