(* ===== verification/Liveness.thy ===== *)
theory Liveness
  imports Readiness
begin

text \<open>
  A reconciliation as a whole on servers that answer: it meets an outage or returns without
  error, for a live resource provided its hosts have names of their own and the gateways
  can be extended, for a resource being deleted always. As the manager tries again after an
  error, and an outage is used up when it is met, the number of outages bounds the number
  of attempts.
\<close>

section \<open>The persister\<close>

locale persister_serves = allowlist_persister persist store
  for persist :: "UnionTeamServiceAccounts \<Rightarrow> ('s world, unit) go" and store :: "'s \<Rightarrow> contents" +
  fixes outages :: "'s \<Rightarrow> nat"
  assumes persist_serves: "progress outages store (\<lambda>_. True) (persist utsa) (\<lambda>_ _. True)"

text \<open>A BigQuery that answers: the table is created, or is there already.\<close>

locale bigquery_serves = bigquery_api bq store
  for bq :: "'s bigquery" and store :: "'s \<Rightarrow> contents" +
  fixes outages :: "'s \<Rightarrow> nat"
  assumes new_serves: "bqNewClient bq p s = (r_n, s') \<Longrightarrow> outages s' \<le> outages s \<and> (outages s' = outages s \<longrightarrow> r_n = None)"
    and table_serves: "bqCreate bq p d t schema s = (r_t, s') \<Longrightarrow> outages s' \<le> outages s
      \<and> (outages s' = outages s \<longrightarrow> r_t = None \<or> r_t = Some (GoogleApiError 409))"
    and put_serves: "bqPut bq p d t row s = (r_r, s') \<Longrightarrow> outages s' \<le> outages s \<and> (outages s' = outages s \<longrightarrow> r_r = None)"
    and close_serves: "bqClose bq s = (r_c, s') \<Longrightarrow> outages s' \<le> outages s \<and> (outages s' = outages s \<longrightarrow> r_c = None)"
begin

lemma wp_bigquery:
  "progress outages store (\<lambda>_. True) (bq_NewClient bq p) (\<lambda>err _. err = None)"
  "progress outages store (\<lambda>_. True) (bq_Create bq p d t schema) (\<lambda>err _. err = None \<or> err = Some (GoogleApiError 409))"
  "progress outages store (\<lambda>_. True) (bq_Put bq p d t row) (\<lambda>err _. err = None)"
  "progress outages store (\<lambda>_. True) (bq_Close bq) (\<lambda>err _. err = None)"
  by (rule progressI; force simp: bq_NewClient_def bq_Create_def bq_Put_def bq_Close_def call_def
      dest: new_serves table_serves put_serves close_serves split: prod.splits)+

lemma wp_check_bq: "progress outages store (\<lambda>_. err = None) (check_bq err) (\<lambda>_ _. True)"
  by (auto simp: check_bq_def progress_def go_defs split: option.splits)

lemma progress_defer_close:
  assumes body: "progress outages store P body (\<lambda>_ _. True)"
  shows "progress outages store P (defer_close bq body) (\<lambda>_ _. True)"
proof (rule progressI)
  fix w res w'
  assume run: "defer_close bq body w = (res, w')"
  obtain r1 w1 where r1: "body w = (r1, w1)" by (cases "body w")
  obtain r2 w2 where r2: "bq_Close bq w1 = (r2, w2)" by (cases "bq_Close bq w1")
  have w': "w' = w2" "r1 = Ok () \<Longrightarrow> r2 = Ok None \<Longrightarrow> res = Ok ()"
    using run by (auto simp: defer_close_def r1 r2 split: res.splits option.splits)
  note steps = progress_mono [OF body r1] progress_mono [OF wp_bigquery(4) r2]
  with w' show "outages (ext w') \<le> outages (ext w)" by simp
  show "\<exists>x. res = Ok x \<and> True" if "P (store (ext w))" "outages (ext w') = outages (ext w)"
    using that w' steps progressD [OF body r1] progressD [OF wp_bigquery(4) r2] by auto
qed

lemma progress_PersistAllowlist:
  "progress outages store (\<lambda>_. True) (PersistAllowlist bq p utsa) (\<lambda>_ _. True)"
proof -
  have table: "progress outages store (\<lambda>_. True) (createAllowlistTableIfNotExists bq pr d t) (\<lambda>_ _. True)" for pr d t
    unfolding createAllowlistTableIfNotExists_def
    by (rule wp_bind [OF _ wp_bigquery(2)]) (auto simp: check_bq_def progress_def go_defs split: option.splits bq_error.splits)
  have rows: "progress outages store (\<lambda>_. True) (for_each (\<lambda>sa. go_bind (bq_Put bq pr d t (row sa)) check_bq) sas) (\<lambda>_ _. True)"
    for pr d t row sas
    by (intro progress_for_each wp_bind [OF wp_check_bq wp_bigquery(3)])
  show ?thesis
    unfolding PersistAllowlist_def Let_def
    by (rule wp_bind [OF _ wp_bigquery(1)], rule progress_pre, rule wp_branches(2),
        rule progress_defer_close, rule wp_seq [OF rows table], rule wp_err) simp
qed

end

sublocale bigquery_serves \<subseteq> persister_serves: persister_serves "PersistAllowlist bq p" store outages for p
  by unfold_locales (rule progress_PersistAllowlist)

interpretation mem_bq_serves: bigquery_serves mem_bigquery mem_store mem_outages
  by unfold_locales (auto simp: mem_bigquery_def dest!: mem_outages_with_faults)

section \<open>The stages of a live resource\<close>

text \<open>
  What a reconciliation needs of the cluster: names free for its hosts, gateways it can
  extend, and the Cloud SQL gateway if it has Cloud SQL hosts, which no stage creates.
\<close>

definition cluster_ready :: "ServiceAccount list \<Rightarrow> contents \<Rightarrow> bool" where
  "cluster_ready sas m \<longleftrightarrow> egress_open (host_names sas) m
     \<and> (cloudsql_hosts sas \<noteq> [] \<longrightarrow> m (GatewayKind, (EgressNamespace, cloudSQLGatewayName)) \<noteq> None)"

lemma cluster_ready_frame:
  assumes "same_off (of_kinds K) m m'" and "{GatewayKind, DestinationRuleKind, ServiceEntryKind} \<inter> K = {}"
    and "cluster_ready sas m"
  shows "cluster_ready sas m'"
  using assms egress_open_frame [OF assms(1,2)] same_offD [OF assms(1)]
  by (auto simp: cluster_ready_def)

lemma sa_kinds_disjoint: "{GatewayKind, DestinationRuleKind, ServiceEntryKind} \<inter> sa_kinds = {}"
  by (simp add: sa_kinds_def)

context kube_serves
begin

lemma progress_reconcile_stages:
  assumes r: "ctlClient r = c" and persister: "persister_serves (ctlPersister r) store outages"
    and acc: "\<And>ob. namespace_of ob \<in> {EgressNamespace, Namespace u} \<Longrightarrow> accepts ob"
    and owner: "envUTSAOwnerReference u = Some owner"
    and sas: "sas = map (mkServiceAccount u) accounts"
    and names: "names_distinct (host_names sas)" and known: "protocols_known (ctlOnpremHosts r)"
  shows "progress outages store (cluster_ready sas) (reconcile_stages r cfg u sas utsa) (\<lambda>_ _. True)"
proof -
  have sar: "sarClient (ctl_accounts r cfg) = c" and ir: "irClient (ctl_istio r) = c"
    and hosts: "irOnpremHosts (ctl_istio r) = ctlOnpremHosts r"
    using r by (simp_all add: ctl_accounts_def ctl_istio_def)
  have env: "\<And>sa. sa \<in> set sas \<Longrightarrow> saUnionEnv sa = u" using sas by auto
  have egress: "\<And>ob. namespace_of ob = EgressNamespace \<Longrightarrow> accepts ob"
    and ns: "\<And>ob. namespace_of ob = Namespace u \<Longrightarrow> accepts ob"
    using acc by auto
  let ?J = "cluster_ready sas" and ?E = "egress_open (host_names sas)"
  have s1: "progress outages store ?J (ctlPersister r utsa) (\<lambda>_. ?J)"
  proof -
    have "safe (on_store store (=)) (ctlPersister r utsa)"
      using persister_serves.axioms(1) [OF persister] by (rule allowlist_persister.persist_safe) simp
    from progress_frame [OF persister_serves.persist_serves [OF persister] this, where J = ?J]
    show ?thesis by simp
  qed
  have s2: "progress outages store ?J (CreateOrUpdateServiceAccounts (ctl_accounts r cfg) u sas) (\<lambda>_. ?J)"
    using progress_frame [OF progress_CreateOrUpdateServiceAccounts [OF sar owner ns env]
        kinds_CreateOrUpdateServiceAccounts [OF sar] cluster_ready_frame [OF _ sa_kinds_disjoint]] by simp
  have s3: "progress outages store ?J (CleanupRemovedServiceAccounts (ctl_accounts r cfg) u sas) (\<lambda>_. ?J)"
    using progress_frame [OF progress_CleanupRemovedServiceAccounts [OF sar]
        kinds_CleanupRemovedServiceAccounts [OF sar] cluster_ready_frame [OF _ sa_kinds_disjoint]] by simp
  have s4: "progress outages store ?J (EnsureExternalHosts (ctl_istio r) sas) (\<lambda>_. ?J)"
  proof -
    let ?gw = "(GatewayKind, (EgressNamespace, cloudSQLGatewayName))"
    have kept: "cloudsql_hosts sas \<noteq> [] \<longrightarrow> m' ?gw \<noteq> None"
      if "egress_grows m m'" "cloudsql_hosts sas \<noteq> [] \<longrightarrow> m ?gw \<noteq> None" for m m'
      using that unfolding egress_grows_def by blast
    show ?thesis
      using progress_frame [OF progress_EnsureHosts(1) [OF ir egress names] EnsureExternalHosts_run(1) [OF ir] kept]
      unfolding cluster_ready_def by simp
  qed
  have s5: "progress outages store ?J (EnsureCloudSQLHosts (ctl_istio r) sas) (\<lambda>_. ?E)"
    using progress_EnsureHosts(2) [OF ir egress names] unfolding cluster_ready_def .
  have policies: "{GatewayKind, DestinationRuleKind, ServiceEntryKind} \<inter> {AuthorizationPolicyKind} = {}" by simp
  have s6: "progress outages store ?E (EnsureAuthorizationPolicies (ctl_istio r) sas) (\<lambda>_. ?E)"
    using progress_frame [OF progress_EnsureAuthorizationPolicies [OF ir egress known [folded hosts]]
        kinds_EnsureAuthorizationPolicies [OF ir insertI1] egress_open_frame [OF _ policies]] by simp
  have s7: "progress outages store ?E (CleanupRemovedServiceAccountAuthzPolicies (ctl_istio r) utsa) (\<lambda>_. ?E)"
    using progress_frame [OF progress_CleanupPolicies(1) [OF ir]
        kinds_CleanupPolicies(1) [OF ir insertI1] egress_open_frame [OF _ policies]] by simp
  have s8: "progress outages store ?E (CleanupUnusedHosts (ctlAliased r) (ctl_istio r)) (\<lambda>_ _. True)"
  proof (rule progress_pre)
    show "progress outages store (\<lambda>m. gateway_proper m externalGatewayName \<and> gateway_proper m cloudSQLGatewayName)
        (CleanupUnusedHosts (ctlAliased r) (ctl_istio r)) (\<lambda>_ _. True)"
      using ir egress by (rule progress_CleanupUnusedHosts)
  qed (simp add: egress_open_def)
  note all = wp_seq [OF wp_seq [OF wp_seq [OF wp_seq [OF wp_seq [OF wp_seq [OF wp_seq [OF
    s8 s7] s6] s5] s4] s3] s2] s1]
  then show ?thesis unfolding reconcile_stages_def reconcile_resources_def Let_def .
qed

end

section \<open>Outages only get fewer\<close>

definition fewer_outages :: "('s \<Rightarrow> nat) \<Rightarrow> 's world \<Rightarrow> 's world \<Rightarrow> bool" where
  "fewer_outages d w w' \<longleftrightarrow> d (ext w') \<le> d (ext w)"

interpretation fewer: effect_order "fewer_outages d" for d
  by unfold_locales (auto simp: fewer_outages_def)

lemma progress_fewer: "progress d store P m Q \<Longrightarrow> safe (fewer_outages d) m"
  by (auto simp: safe_def fewer_outages_def progress_def)

text \<open>When it is known what the first part returns, the second need not be looked at for other values.\<close>

lemma wp_bind_known:
  assumes f: "\<And>x. known x \<Longrightarrow> progress d store (R x) (f x) Q"
    and m: "progress d store P m (\<lambda>x c. known x \<and> R x c)"
    and fewer: "\<And>x. safe (fewer_outages d) (f x)"
  shows "progress d store P (go_bind m f) Q"
proof (rule progressI)
  fix w r w'
  assume run: "go_bind m f w = (r, w')"
  have "safe (fewer_outages d) (go_bind m f)" by (rule fewer.safe_bind [OF progress_fewer [OF m] fewer])
  from safeD [OF this run] show "d (ext w') \<le> d (ext w)" by (simp add: fewer_outages_def)
  assume P: "P (store (ext w))" and same: "d (ext w') = d (ext w)"
  obtain r1 w1 where r1: "m w = (r1, w1)" by (cases "m w")
  note m_mono = progress_mono [OF m r1] and m_ok = progressD [OF m r1 P]
  show "\<exists>x. r = Ok x \<and> Q x (store (ext w'))"
  proof (cases r1)
    case (Ok x)
    with run r1 have rest: "f x w1 = (r, w')" by (simp add: go_bind_def)
    with safeD [OF fewer] have "d (ext w') \<le> d (ext w1)" by (simp add: fewer_outages_def)
    with m_mono same have "d (ext w1) = d (ext w)" "d (ext w') = d (ext w1)" by simp_all
    with m_ok Ok progressD [OF f rest] show ?thesis by auto
  qed (use run r1 m_mono m_ok same in \<open>auto simp: go_bind_def\<close>)
qed

context kube_serves
begin

lemma fewer_calls:
  "safe (fewer_outages outages) (k8s_Get c k key)" "safe (fewer_outages outages) (k8s_List c k lo)"
  "safe (fewer_outages outages) (k8s_Create c ob)" "safe (fewer_outages outages) (k8s_Update c ob)"
  "safe (fewer_outages outages) (k8s_Patch c ob base)" "safe (fewer_outages outages) (k8s_Delete c ob)"
  "safe (fewer_outages outages) (k8s_CreateOrUpdate c ob f)"
  using wp_Get wp_Create wp_Update wp_Patch wp_Delete wp_CreateOrUpdate
  by (blast intro: progress_fewer | force simp: safe_def fewer_outages_def call_defs dest: list_serves split: prod.splits)+

lemma fewer_check: "safe (fewer_outages outages) (check_reply reply)" "safe (fewer_outages outages) (check_error err)"
  by (auto simp: check_reply_def check_error_def split: sum.splits option.splits)

lemmas fewer_rules =
  fewer.safe_rules safe_branches fewer_calls fewer_check
  fewer.safe_return fewer.safe_err fewer.safe_panic fewer.safe_Join

lemma fewer_sa_stages:
  assumes r: "sarClient r = c"
  shows "safe (fewer_outages outages) (CreateOrUpdateServiceAccounts r u sas)"
    and "safe (fewer_outages outages) (CleanupRemovedServiceAccounts r u sas)"
  unfolding CreateOrUpdateServiceAccounts_def reconcileServiceAccountForDomain_def
    createIAMPolicyMembers_def createIAMPolicyMember_def cleanupRemovedServiceAccounts_eq
    reconcileServiceAccount_def reconcileIAMServiceAccount_def CleanupRemovedServiceAccounts_def
    cleanup_existing_def cleanupServiceAccount_def cleanupIAMPolicyMembers_def Let_def r
  by (rule fewer_rules)+

lemma fewer_ensure:
  assumes r: "irClient r = c"
  shows "safe (fewer_outages outages) (EnsureExternalHosts r sas)"
    and "safe (fewer_outages outages) (EnsureCloudSQLHosts r sas)"
    and "safe (fewer_outages outages) (EnsureAuthorizationPolicies r sas)"
  unfolding EnsureExternalHosts_def EnsureCloudSQLHosts_def ensureExternalHost_def ensureCloudSQLHost_def
    istio_program_defs EnsureAuthorizationPolicies_def ensure_internal_policies_def
    ensureAuthorizationPolicyForHost_def Let_def r
  by (rule fewer_rules)+

lemma fewer_cleanup:
  assumes r: "irClient r = c"
  shows "safe (fewer_outages outages) (CleanupRemovedServiceAccountAuthzPolicies r utsa)"
    and "safe (fewer_outages outages) (IstioCleanup.CleanupAllResources r utsa)"
    and "safe (fewer_outages outages) (CleanupUnusedHosts al r)"
proof -
  show "safe (fewer_outages outages) (CleanupRemovedServiceAccountAuthzPolicies r utsa)"
    and "safe (fewer_outages outages) (IstioCleanup.CleanupAllResources r utsa)"
    using progress_CleanupPolicies [OF r] by (blast intro: progress_fewer)+
  have unused: "safe (fewer_outages outages) (remove_unused r inUse hosts)" for inUse hosts
    using progress_remove_unused [OF r] by (rule progress_fewer)
  have servers: "safe (fewer_outages outages) (external_servers al r inUse is at servers g)"
      "safe (fewer_outages outages) (cloudsql_servers al r inUse is at servers g)" for inUse "is" at servers g
  proof (induction "is" arbitrary: at servers g)
    case (Cons i "is")
    case 1
    show ?case unfolding external_servers.simps r Let_def by (rule fewer_rules unused Cons.IH)+
    case 2
    show ?case unfolding cloudsql_servers.simps r Let_def by (rule fewer_rules unused Cons.IH)+
  qed simp_all
  show "safe (fewer_outages outages) (CleanupUnusedHosts al r)"
    unfolding CleanupUnusedHosts_def cleanupInternalHosts_def cleanupExternalHosts_def
      cleanupCloudSQLHosts_def Let_def r
    by (rule fewer_rules servers)+
qed

lemma fewer_reconcile:
  assumes r: "ctlClient r = c" and persister: "persister_serves (ctlPersister r) store outages"
  shows "safe (fewer_outages outages) (reconcile_deletion r utsa)"
    and "safe (fewer_outages outages) (ensure_finalizer r utsa)"
    and "safe (fewer_outages outages) (reconcile_stages r cfg u sas utsa)"
proof -
  have sar: "sarClient (ctl_accounts r cfg) = c" and ir: "irClient (ctl_istio r) = c"
    using r by (simp_all add: ctl_accounts_def ctl_istio_def)
  show "safe (fewer_outages outages) (reconcile_deletion r utsa)"
    and "safe (fewer_outages outages) (ensure_finalizer r utsa)"
    and "safe (fewer_outages outages) (reconcile_stages r cfg u sas utsa)"
    unfolding reconcile_deletion_def ensure_finalizer_def update_utsa_def reconcile_stages_def
      reconcile_resources_def Let_def r
    by (rule fewer_rules fewer_sa_stages [OF sar] fewer_ensure [OF ir] fewer_cleanup [OF ir]
        progress_fewer [OF persister_serves.persist_serves [OF persister]])+
qed

end

section \<open>A reconciliation as a whole\<close>

lemma finalizers_same_meta:
  assumes F: "finalizer_util F"
  shows "same_meta (UTSAObj u) (UTSAObj (fAdd F u f))" and "same_meta (UTSAObj u) (UTSAObj (fRemove F u f))"
proof -
  obtain fs where "fAdd F u f = u\<lparr>utsaMeta := utsaMeta u\<lparr>metaFinalizers := fs\<rparr>\<rparr>"
    using finalizer_util.add [OF F] by blast
  then show "same_meta (UTSAObj u) (UTSAObj (fAdd F u f))" by (simp add: same_meta_def)
  obtain fs' where "fRemove F u f = u\<lparr>utsaMeta := utsaMeta u\<lparr>metaFinalizers := fs'\<rparr>\<rparr>"
    using finalizer_util.remove [OF F] by blast
  then show "same_meta (UTSAObj u) (UTSAObj (fRemove F u f))" by (simp add: same_meta_def)
qed

lemma finalizers_ref:
  assumes F: "finalizer_util F"
  shows "ref_of (UTSAObj (fAdd F u f)) = ref_of (UTSAObj u)" and "ref_of (UTSAObj (fRemove F u f)) = ref_of (UTSAObj u)"
  by (simp_all add: ref_of_def finalizer_util.add_sel [OF F] finalizer_util.remove_sel [OF F])

definition stored_utsa :: "key \<Rightarrow> UnionTeamServiceAccounts \<Rightarrow> contents \<Rightarrow> bool" where
  "stored_utsa req utsa m \<longleftrightarrow> m (UTSAKind, req) = Some (UTSAObj utsa) \<and> ref_of (UTSAObj utsa) = (UTSAKind, req)"

context kube_serves
begin

lemma progress_update_utsa:
  assumes r: "ctlClient r = c" and acc: "\<And>ob. namespace_of ob = fst req \<Longrightarrow> accepts ob"
    and u: "same_meta (UTSAObj utsa) (UTSAObj u)" "ref_of (UTSAObj u) = ref_of (UTSAObj utsa)"
  shows "progress outages store (stored_utsa req utsa) (update_utsa r u) (\<lambda>_ _. True)"
proof -
  have "accepts (UTSAObj u)" if "ref_of (UTSAObj utsa) = (UTSAKind, req)"
    using that u(2) by (intro acc) (auto simp: ref_of_def)
  then show ?thesis
    unfolding update_utsa_def check_reply_def r
    by - (rule progress_pre, (rule wp_rules)+, auto simp: stored_utsa_def u split: sum.splits)
qed

lemma progress_reconcile_deletion:
  assumes r: "ctlClient r = c" and F: "finalizer_util (ctlFinalizers r)"
    and acc: "\<And>ob. namespace_of ob = fst req \<Longrightarrow> accepts ob"
  shows "progress outages store (stored_utsa req utsa) (reconcile_deletion r utsa) (\<lambda>_ _. True)"
proof -
  have ir: "irClient (ctl_istio r) = c" using r by (simp add: ctl_istio_def)
  have kept: "stored_utsa req utsa m'" if "same_off (of_kinds {AuthorizationPolicyKind}) m m'" "stored_utsa req utsa m" for m m'
    using that same_offD [of _ m m' "(UTSAKind, req)"] by (simp add: stored_utsa_def)
  from progress_frame [OF progress_CleanupPolicies(2) [OF ir] kinds_CleanupPolicies(2) [OF ir insertI1] kept]
  have clean: "progress outages store (stored_utsa req utsa) (IstioCleanup.CleanupAllResources (ctl_istio r) utsa)
      (\<lambda>_. stored_utsa req utsa)" by simp
  have "progress outages store (stored_utsa req utsa)
      (go_bind (update_utsa r (fRemove (ctlFinalizers r) utsa unionFinalizer)) (\<lambda>_. go_return ())) (\<lambda>_ _. True)"
    by (rule wp_bind [OF progress_pre [OF wp_return]
        progress_update_utsa [OF r acc finalizers_same_meta(2) [OF F] finalizers_ref(2) [OF F]]]) auto
  from wp_seq [OF this clean] show ?thesis
    unfolding reconcile_deletion_def by (auto intro: progress_pre [OF wp_return])
qed

lemma progress_ensure_finalizer:
  assumes r: "ctlClient r = c" and F: "finalizer_util (ctlFinalizers r)"
    and acc: "\<And>ob. namespace_of ob = fst req \<Longrightarrow> accepts ob"
  shows "progress outages store (\<lambda>m. stored_utsa req utsa m \<and> cluster_ready sas m) (ensure_finalizer r utsa)
    (\<lambda>_. cluster_ready sas)"
proof -
  have fin: "progress outages store (stored_utsa req utsa) (ensure_finalizer r utsa) (\<lambda>_ _. True)"
    unfolding ensure_finalizer_def
    using progress_update_utsa [OF r acc finalizers_same_meta(1) [OF F] finalizers_ref(1) [OF F]]
    by (auto intro: progress_pre [OF wp_return])
  have frame: "changes_kinds store {UTSAKind} (ensure_finalizer r utsa)"
    unfolding ensure_finalizer_def update_utsa_def r by (rule kinds_rules | simp)+
  have kept: "cluster_ready sas m'" if "same_off (of_kinds {UTSAKind}) m m'" "cluster_ready sas m" for m m'
    using that by (intro cluster_ready_frame [OF that(1) _ that(2)]) simp
  from progress_frame [OF fin frame kept] show ?thesis by simp
qed

lemma progress_Reconcile:
  assumes r: "ctlClient r = c" and F: "finalizer_util (ctlFinalizers r)"
    and persister: "persister_serves (ctlPersister r) store outages"
    and cfg: "ctlUnionConfig r = Some cfg" and kinds: "ctlObjectKinds r utsa = Inr (gvk # gvks)"
    and body: "progress outages store P
      (if \<not> Time_IsZero (metaDeletionTimestamp (utsaMeta utsa)) then reconcile_deletion r utsa
       else go_bind (ensure_finalizer r utsa) (reconcile_stages r cfg (union_env cfg gvk utsa)
         (map (mkServiceAccount (union_env cfg gvk utsa)) (specServiceAccounts (utsaSpec utsa))))) (\<lambda>_ _. True)"
  shows "progress outages store (\<lambda>m. m (UTSAKind, req) = Some (UTSAObj utsa) \<and> P m) (Reconcile r req) (\<lambda>_ _. True)"
  unfolding Reconcile_def cfg option.case r
proof (rule wp_bind_known [where known = "\<lambda>x. x = Inr (UTSAObj utsa)"])
  show "progress outages store (\<lambda>m. m (UTSAKind, req) = Some (UTSAObj utsa) \<and> P m) (k8s_Get c UTSAKind req)
      (\<lambda>x m. x = Inr (UTSAObj utsa) \<and> P m)"
    by (rule progress_pre, rule wp_Get) simp
next
  show "progress outages store P (case x of
        Inl e \<Rightarrow> (if IsNotFound e then go_return () else go_err (ApiError e))
      | Inr ob \<Rightarrow> (let utsa = as_UTSA ob in case ctlObjectKinds r utsa of
            Inl e \<Rightarrow> go_err e
          | Inr gvks \<Rightarrow> (case gvks of
              [] \<Rightarrow> go_return ()
            | gvk # _ \<Rightarrow>
                (let unionEnv = union_env cfg gvk utsa;
                     serviceAccounts = map (mkServiceAccount unionEnv) (specServiceAccounts (utsaSpec utsa)) in
                 if \<not> Time_IsZero (metaDeletionTimestamp (utsaMeta utsa)) then reconcile_deletion r utsa
                 else go_bind (ensure_finalizer r utsa) (reconcile_stages r cfg unionEnv serviceAccounts)))))
      (\<lambda>_ _. True)" if "x = Inr (UTSAObj utsa)" for x
    unfolding that sum.case Let_def as_UTSA.simps kinds list.case by (rule body)
qed (unfold Let_def, (rule fewer_rules fewer_reconcile [OF r persister])+)

end

section \<open>Trying again\<close>

text \<open>
  The manager calls \<^verbatim>\<open>Reconcile\<close> again when it returned an error (or panicked, which
  controller-runtime turns into an error); \<open>attempts n\<close> is at most \<open>n\<close> further calls.
\<close>

primrec attempts :: "nat \<Rightarrow> ('w, 'a) go \<Rightarrow> ('w, 'a) go" where
  "attempts 0 m = m"
| "attempts (Suc n) m = (\<lambda>w. case m w of (Ok x, w') \<Rightarrow> (Ok x, w') | (_, w') \<Rightarrow> attempts n m w')"

lemma attempts_Ok:
  assumes inv: "\<And>w r w'. I (store (ext w)) \<Longrightarrow> m w = (r, w') \<Longrightarrow> I (store (ext w'))"
    and step: "\<And>w r w'. I (store (ext w)) \<Longrightarrow> m w = (r, w')
      \<Longrightarrow> d (ext w') < d (ext w) \<or> (\<exists>x. r = Ok x)"
    and start: "I (store (ext w))" "d (ext w) \<le> n"
  obtains x w' w1 where "attempts n m w = (Ok x, w')" "I (store (ext w1))" "m w1 = (Ok x, w')"
proof -
  have "\<exists>x w' w1. attempts n m w = (Ok x, w') \<and> I (store (ext w1)) \<and> m w1 = (Ok x, w')"
    using start
  proof (induction n arbitrary: w)
    case 0
    obtain r w' where run: "m w = (r, w')" by (cases "m w")
    with step [OF 0(1) run] 0 show ?case by auto
  next
    case (Suc n)
    obtain r w' where run: "m w = (r, w')" by (cases "m w")
    show ?case
    proof (cases "\<exists>x. r = Ok x")
      case True
      with run Suc.prems(1) show ?thesis by auto
    next
      case False
      with step [OF Suc.prems(1) run] Suc.prems(2) have "d (ext w') \<le> n" by simp
      with Suc.IH inv [OF Suc.prems(1) run] obtain x w2 w1
        where "attempts n m w' = (Ok x, w2)" "I (store (ext w1))" "m w1 = (Ok x, w2)" by blast
      moreover from this(1) run False have "attempts (Suc n) m w = (Ok x, w2)" by (cases r) auto
      ultimately show ?thesis by blast
    qed
  qed
  then show thesis using that by blast
qed

lemma host_names_env: "host_names (map (mkServiceAccount u) as) = host_names (map (mkServiceAccount v) as)"
  and cloudsql_hosts_env: "cloudsql_hosts (map (mkServiceAccount u) as) = cloudsql_hosts (map (mkServiceAccount v) as)"
  by (simp_all add: host_names_def external_hosts_def cloudsql_hosts_def comp_def)

lemma cluster_ready_env:
  "cluster_ready (map (mkServiceAccount u) as) m = cluster_ready (map (mkServiceAccount v) as) m"
  unfolding cluster_ready_def host_names_env [of u as v] cloudsql_hosts_env [of u as v] ..

lemma Namespace_env:
  "utsaSpec u = utsaSpec utsa \<Longrightarrow> Namespace (union_env cfg gvk u) = Namespace (union_env cfg gvk' utsa)"
  by (simp add: Namespace_def union_env_def)

text \<open>As long as the finalizer is there the policies may be; when it is gone, so are they.\<close>

definition policies_cleared :: "key \<Rightarrow> UnionTeamServiceAccounts \<Rightarrow> contents \<Rightarrow> bool" where
  "policies_cleared req utsa m \<longleftrightarrow>
     (\<exists>u. m (UTSAKind, req) = Some (UTSAObj u) \<and> holds_finalizer u)
     \<or> (\<forall>ref \<in> env_policies m utsa (\<lambda>n. n \<in> listed_accounts utsa). gone m ref)"

context kube_serves
begin

lemma Reconcile_attempt_live:
  assumes r: "ctlClient r = c" and F: "finalizer_util (ctlFinalizers r)"
    and persister: "persister_serves (ctlPersister r) store outages"
    and cfg: "ctlUnionConfig r = Some cfg" and kinds: "\<And>u. ctlObjectKinds r u = Inr (gvk # gvks)"
    and acc: "\<And>ob. namespace_of ob \<in> {fst req, Namespace (union_env cfg gvk utsa), EgressNamespace} \<Longrightarrow> accepts ob"
    and known: "protocols_known (ctlOnpremHosts r)"
    and sas: "sas = map (mkServiceAccount (union_env cfg gvk utsa)) (specServiceAccounts (utsaSpec utsa))"
    and names: "names_distinct (host_names sas)"
    and live: "Time_IsZero (metaDeletionTimestamp (utsaMeta utsa))"
    and start: "utsa_kept req utsa (store (ext w))" "cluster_ready sas (store (ext w))"
    and run: "Reconcile r req w = (res, w')"
  shows "outages (ext w') < outages (ext w) \<or> (\<exists>x. res = Ok x)"
    and "utsa_kept req utsa (store (ext w'))" and "cluster_ready sas (store (ext w'))"
proof -
  from start(1) live obtain u where u: "store (ext w) (UTSAKind, req) = Some (UTSAObj u)"
    "utsaSpec u = utsaSpec utsa" "metaDeletionTimestamp (utsaMeta u) = metaDeletionTimestamp (utsaMeta utsa)"
    by (auto simp: utsa_kept_def split: option.splits)
  let ?env = "union_env cfg gvk u"
  let ?sas = "map (mkServiceAccount ?env) (specServiceAccounts (utsaSpec u))"
  have same: "host_names ?sas = host_names sas" and ready: "cluster_ready ?sas = cluster_ready sas"
    unfolding sas u(2) by (rule host_names_env, rule ext, rule cluster_ready_env)
  have names': "names_distinct (host_names ?sas)" using names unfolding same .
  have acc': "\<And>ob. namespace_of ob \<in> {EgressNamespace, Namespace ?env} \<Longrightarrow> accepts ob"
    using acc Namespace_env [OF u(2), of cfg gvk gvk] by auto
  have stages: "progress outages store (cluster_ready ?sas) (reconcile_stages r cfg ?env ?sas x) (\<lambda>_ _. True)" for x
    by (rule progress_reconcile_stages [OF r persister acc' _ refl names' known]) (simp_all add: union_env_def)
  have "progress outages store (\<lambda>m. stored_utsa req u m \<and> cluster_ready ?sas m)
      (if \<not> Time_IsZero (metaDeletionTimestamp (utsaMeta u)) then reconcile_deletion r u
       else go_bind (ensure_finalizer r u) (reconcile_stages r cfg ?env ?sas)) (\<lambda>_ _. True)"
    using wp_bind [OF stages progress_ensure_finalizer [OF r F]] live u(3) acc by simp
  from progress_Reconcile [OF r F persister cfg kinds this]
  have body: "progress outages store (\<lambda>m. m (UTSAKind, req) = Some (UTSAObj u)
      \<and> stored_utsa req u m \<and> cluster_ready ?sas m) (Reconcile r req) (\<lambda>_ _. True)" .
  have "stored_utsa req u (store (ext w))" using u(1) store_ref [OF u(1)] by (simp add: stored_utsa_def)
  with u(1) start(2) progressD [OF body run] progress_mono [OF body run]
  show "outages (ext w') < outages (ext w) \<or> (\<exists>x. res = Ok x)"
    unfolding ready by fastforce
  have "utsa_kept req u (store (ext w')) \<and> ready_step (host_names ?sas) (store (ext w)) (store (ext w'))"
    using r cfg u(1) kinds
  proof (cases rule: Reconcile_found)
    case (failed e w1)
    with run u(1) show ?thesis by (simp add: utsa_kept_def)
  next
    case (found w1)
    with live u(3) run have run': "go_bind (ensure_finalizer r u) (reconcile_stages r cfg ?env ?sas) w1 = (res, w')"
      by simp
    have stored: "store (ext w1) (UTSAKind, req) = Some (UTSAObj u)" using found(1) u(1) by simp
    from reconcile_live_keeps [OF r F persister_serves.axioms(1) [OF persister] stored names' run'] found(1)
    show ?thesis by simp
  qed
  with u(2,3) start(2) show "utsa_kept req utsa (store (ext w'))" and "cluster_ready sas (store (ext w'))"
    unfolding same by (auto simp: utsa_kept_def cluster_ready_def kept_ready_def split: option.splits)
qed

lemma Reconcile_attempt_gone:
  assumes r: "ctlClient r = c" and cfg: "ctlUnionConfig r = Some cfg"
    and none: "store (ext w) (UTSAKind, req) = None" and run: "Reconcile r req w = (res, w')"
  shows "outages (ext w') < outages (ext w) \<or> (\<exists>x. res = Ok x)" and "store (ext w') = store (ext w)"
proof -
  obtain reply w1 where get: "k8s_Get c UTSAKind req w = (Ok reply, w1)"
    and same: "store (ext w1) = store (ext w)"
    and found: "\<And>ob. reply = Inr ob \<Longrightarrow> store (ext w) (UTSAKind, req) = Some ob"
    by (cases "k8s_Get c UTSAKind req w") (auto elim!: Get_OkD)
  from found none obtain e where e: "reply = Inl e" by (cases reply) auto
  have outcome: "res = (if IsNotFound e then Ok () else Err (ApiError e))" "w' = w1"
    using run get cfg by (simp_all add: Reconcile_def r e go_bind_def go_return_def go_err_def split: if_splits)
  from outcome(2) same show "store (ext w') = store (ext w)" by simp
  have "outages (ext w1) \<le> outages (ext w) \<and> (outages (ext w1) = outages (ext w) \<longrightarrow> IsNotFound e)"
    using get_serves [of UTSAKind req "ext w" reply "ext w1"] get e by (auto simp: call_defs split: prod.splits)
  with outcome show "outages (ext w') < outages (ext w) \<or> (\<exists>x. res = Ok x)" by auto
qed

lemma Reconcile_attempt_deleted:
  assumes r: "ctlClient r = c" and F: "finalizer_util (ctlFinalizers r)"
    and persister: "persister_serves (ctlPersister r) store outages"
    and cfg: "ctlUnionConfig r = Some cfg" and kinds: "\<And>u. ctlObjectKinds r u = Inr (gvk # gvks)"
    and acc: "\<And>ob. namespace_of ob = fst req \<Longrightarrow> accepts ob"
    and dying: "\<not> Time_IsZero (metaDeletionTimestamp (utsaMeta utsa))"
    and start: "utsa_kept req utsa (store (ext w))"
    and run: "Reconcile r req w = (res, w')"
  shows "outages (ext w') < outages (ext w) \<or> (\<exists>x. res = Ok x)"
    and "utsa_kept req utsa (store (ext w'))"
    and "res = Ok () \<Longrightarrow> store (ext w') (UTSAKind, req) = Some ob
      \<Longrightarrow> unionFinalizer \<notin> set (metaFinalizers (meta_of ob))"
proof (atomize (full), cases "store (ext w) (UTSAKind, req)")
  case None
  from Reconcile_attempt_gone [OF r cfg None run] start None
  show "(outages (ext w') < outages (ext w) \<or> (\<exists>x. res = Ok x)) \<and> utsa_kept req utsa (store (ext w'))
    \<and> (res = Ok () \<longrightarrow> store (ext w') (UTSAKind, req) = Some ob
      \<longrightarrow> unionFinalizer \<notin> set (metaFinalizers (meta_of ob)))" by simp
next
  case (Some ob1)
  with start obtain u where u: "store (ext w) (UTSAKind, req) = Some (UTSAObj u)"
    "utsaSpec u = utsaSpec utsa" "metaDeletionTimestamp (utsaMeta u) = metaDeletionTimestamp (utsaMeta utsa)"
    by (auto simp: utsa_kept_def)
  have dying': "\<not> Time_IsZero (metaDeletionTimestamp (utsaMeta u))" using dying u(3) by simp
  have "progress outages store (stored_utsa req u)
      (if \<not> Time_IsZero (metaDeletionTimestamp (utsaMeta u)) then reconcile_deletion r u
       else go_bind (ensure_finalizer r u) (reconcile_stages r cfg (union_env cfg gvk u)
         (map (mkServiceAccount (union_env cfg gvk u)) (specServiceAccounts (utsaSpec u))))) (\<lambda>_ _. True)"
    using dying' progress_reconcile_deletion [OF r F acc] by simp
  from progress_Reconcile [OF r F persister cfg kinds this]
  have body: "progress outages store (\<lambda>m. m (UTSAKind, req) = Some (UTSAObj u) \<and> stored_utsa req u m)
      (Reconcile r req) (\<lambda>_ _. True)" .
  have "stored_utsa req u (store (ext w))" using u(1) store_ref [OF u(1)] by (simp add: stored_utsa_def)
  with u(1) progressD [OF body run] progress_mono [OF body run]
  have answered: "outages (ext w') < outages (ext w) \<or> (\<exists>x. res = Ok x)" by fastforce
  have "utsa_kept req u (store (ext w'))
      \<and> (res = Ok () \<longrightarrow> \<not> holds_finalizer u \<longrightarrow> store (ext w') (UTSAKind, req) = Some (UTSAObj u))"
    using r cfg u(1) kinds
  proof (cases rule: Reconcile_found)
    case (failed e w1)
    with run u(1) show ?thesis by (simp add: utsa_kept_def)
  next
    case (found w1)
    with dying' run have run': "reconcile_deletion r u w1 = (res, w')" by simp
    have stored: "store (ext w1) (UTSAKind, req) = Some (UTSAObj u)" using found(1) u(1) by simp
    have "w' = w1" if "\<not> holds_finalizer u"
      using run' that F
      by (simp add: reconcile_deletion_def finalizer_util.contains holds_finalizer_def go_return_def)
    with reconcile_deletion_keeps [OF r F stored dying' run'] stored show ?thesis by auto
  qed
  moreover have "unionFinalizer \<notin> set (metaFinalizers (meta_of ob))"
    if "holds_finalizer u" "res = Ok ()" "store (ext w') (UTSAKind, req) = Some ob"
    using Reconcile_terminating(3) [OF r F cfg u(1) dying' that(1) kinds refl run that(2)] that(3)
    by (auto simp: holds_finalizer_def split: if_splits)
  ultimately show "(outages (ext w') < outages (ext w) \<or> (\<exists>x. res = Ok x)) \<and> utsa_kept req utsa (store (ext w'))
    \<and> (res = Ok () \<longrightarrow> store (ext w') (UTSAKind, req) = Some ob
      \<longrightarrow> unionFinalizer \<notin> set (metaFinalizers (meta_of ob)))"
    using answered u(2,3) by (auto simp: holds_finalizer_def utsa_kept_def split: option.splits)
qed

lemma Reconcile_attempt_clears:
  assumes r: "ctlClient r = c" and F: "finalizer_util (ctlFinalizers r)"
    and cfg: "ctlUnionConfig r = Some cfg" and kinds: "\<And>u. ctlObjectKinds r u = Inr (gvk # gvks)"
    and dying: "\<not> Time_IsZero (metaDeletionTimestamp (utsaMeta utsa))"
    and start: "utsa_kept req utsa (store (ext w))" "policies_cleared req utsa (store (ext w))"
    and run: "Reconcile r req w = (res, w')"
  shows "policies_cleared req utsa (store (ext w'))"
proof (cases "store (ext w) (UTSAKind, req)")
  case None
  from Reconcile_attempt_gone(2) [OF r cfg None run] start(2) show ?thesis by simp
next
  case (Some ob)
  with start(1) obtain u where u: "store (ext w) (UTSAKind, req) = Some (UTSAObj u)"
    "utsaSpec u = utsaSpec utsa" "metaDeletionTimestamp (utsaMeta u) = metaDeletionTimestamp (utsaMeta utsa)"
    by (auto simp: utsa_kept_def)
  have dying': "\<not> Time_IsZero (metaDeletionTimestamp (utsaMeta u))" using dying u(3) by simp
  show ?thesis
  proof (cases "holds_finalizer u")
    case True
    let ?D = "env_policies (store (ext w)) utsa (\<lambda>n. n \<in> listed_accounts utsa)"
    have D: "env_policies (store (ext w)) u (\<lambda>n. n \<in> listed_accounts u) = ?D"
      using env_policies_spec [OF u(2)] u(2) by (simp add: listed_accounts_def)
    note run' = Reconcile_terminating [OF r F cfg u(1) dying' True kinds refl run, unfolded D]
    show ?thesis
    proof (cases "store (ext w') (UTSAKind, req) = Some (UTSAObj u)")
      case True
      with \<open>holds_finalizer u\<close> show ?thesis by (auto simp: policies_cleared_def)
    next
      case False
      have "gone (store (ext w')) ref"
        if "ref \<in> env_policies (store (ext w')) utsa (\<lambda>n. n \<in> listed_accounts utsa)" for ref
      proof (cases "ref \<in> ?D")
        case True
        with run'(2) False show ?thesis by blast
      next
        case off: False
        have "ref \<noteq> (UTSAKind, req)"
          using that by (auto simp: env_policies_def ref_of_def dest!: store_ref)
        with off same_offD [OF run'(1), of ref] have "store (ext w') ref = store (ext w) ref" by simp
        with that have "ref \<in> ?D" unfolding env_policies_def by simp
        with off show ?thesis ..
      qed
      then show ?thesis by (auto simp: policies_cleared_def)
    qed
  next
    case False
    have "store (ext w') = store (ext w)"
      using r cfg u(1) kinds
    proof (cases rule: Reconcile_found)
      case (found w1)
      with dying' run False F show ?thesis
        by (simp add: reconcile_deletion_def finalizer_util.contains holds_finalizer_def go_return_def)
    qed (use run in simp)
    with start(2) show ?thesis by simp
  qed
qed

end

section \<open>Enough attempts succeed\<close>

text \<open>
  C6. Deletion completes: on servers that answer except for outages, with at most one more
  attempt for each outage a reconciliation of a resource that is being deleted and holds
  the finalizer returns without error, and then the resource is gone or has lost the
  finalizer, and the policies of the accounts it lists are gone. The servers are asked to
  accept objects of the resource's own namespace, for the update that removes the
  finalizer; nothing is asked of what else the cluster holds or of the hosts. (Without the
  finalizer the operator has nothing left to do and returns at once.)
\<close>

theorem deletion_completes:
  assumes "kube_serves (ctlClient r) store outages accepts" and "finalizer_util (ctlFinalizers r)"
    and "persister_serves (ctlPersister r) store outages"
    and "ctlUnionConfig r = Some cfg" and "\<And>u. ctlObjectKinds r u = Inr (gvk # gvks)"
    and "\<And>ob. namespace_of ob = fst req \<Longrightarrow> accepts ob"
    and "store (ext w) (UTSAKind, req) = Some (UTSAObj utsa)"
    and "\<not> Time_IsZero (metaDeletionTimestamp (utsaMeta utsa))" and "holds_finalizer utsa"
  shows "\<exists>w'. attempts (outages (ext w)) (Reconcile r req) w = (Ok (), w')
    \<and> (\<forall>u. store (ext w') (UTSAKind, req) = Some (UTSAObj u) \<longrightarrow> \<not> holds_finalizer u)
    \<and> (\<forall>ref \<in> env_policies (store (ext w')) utsa (\<lambda>n. n \<in> listed_accounts utsa). gone (store (ext w')) ref)"
proof -
  note attempt = kube_serves.Reconcile_attempt_deleted [OF assms(1) refl assms(2-6,8)]
  note clears = kube_serves.Reconcile_attempt_clears [OF assms(1) refl assms(2,4,5,8)]
  let ?I = "\<lambda>m. utsa_kept req utsa m \<and> policies_cleared req utsa m"
  obtain w' w1 where run: "attempts (outages (ext w)) (Reconcile r req) w = (Ok (), w')"
    and kept: "?I (store (ext w1))" and last: "Reconcile r req w1 = (Ok (), w')"
  proof (rule attempts_Ok [of ?I store "Reconcile r req" outages w "outages (ext w)"])
    show "?I (store (ext w'))" if "?I (store (ext w))" "Reconcile r req w = (res, w')" for w res w'
      using attempt(2) clears that by blast
    show "outages (ext w') < outages (ext w) \<or> (\<exists>x. res = Ok x)"
      if "?I (store (ext w))" "Reconcile r req w = (res, w')" for w res w'
      using attempt(1) that by blast
    show "?I (store (ext w))" using assms(7,9) by (simp add: utsa_kept_def policies_cleared_def)
  qed (use that in auto)
  have "\<not> holds_finalizer u" if "store (ext w') (UTSAKind, req) = Some (UTSAObj u)" for u
    using attempt(3) [OF _ _ last refl that] kept by (simp add: holds_finalizer_def)
  moreover have "policies_cleared req utsa (store (ext w'))" using clears [OF _ _ last] kept by blast
  ultimately show ?thesis using run unfolding policies_cleared_def by blast
qed

section \<open>Instances\<close>

definition faulty_world :: "string option list \<Rightarrow> object list \<Rightarrow> mem world" where
  "faulty_world faults obs = \<lparr>ext = \<lparr>memObjs = obs, memFaults = faults\<rparr>, events = []\<rparr>"

definition example_member :: UnionServiceAccount where
  "example_member = \<lparr>usaName = ''sa'', usaExternalAllowlist = [\<lparr>hostHost = ''vg.no'', hostPaths = []\<rparr>],
     usaInternalAllowlist = [], usaCloudSQL = []\<rparr>"

definition example_cfg :: UnionDataplaneConfig where
  "example_cfg = the (ctlUnionConfig example_ctl)"

definition example_gvk :: GroupVersionKind where
  "example_gvk = \<lparr>gvkGroupVersion = ''data.nav.no/v1alpha1'', gvkKind = ''UnionTeamServiceAccounts''\<rparr>"

definition example_accounts :: "UnionTeamServiceAccounts \<Rightarrow> ServiceAccount list" where
  "example_accounts u =
     map (mkServiceAccount (union_env example_cfg example_gvk u)) (specServiceAccounts (utsaSpec u))"

lemma example_ctl_serves:
  "kube_serves (ctlClient example_ctl) mem_store mem_outages (\<lambda>_. True)"
  "persister_serves (ctlPersister example_ctl) mem_store mem_outages"
  "ctlUnionConfig example_ctl = Some example_cfg" "ctlObjectKinds example_ctl u = Inr [example_gvk]"
  "protocols_known (ctlOnpremHosts example_ctl)"
  by (simp_all add: example_ctl_def example_cfg_def example_gvk_def mem_serves.kube_serves_axioms
      mem_bq_serves.persister_serves.persister_serves_axioms protocols_known_def)

lemma faulty_store:
  "\<not> removable (UTSAObj (example_resource sas fs t))
     \<Longrightarrow> mem_store (ext (faulty_world faults [UTSAObj (example_resource sas fs t)]))
       = [(UTSAKind, (''union'', ''team'')) \<mapsto> UTSAObj (example_resource sas fs t)]"
  by (simp add: mem_store_def mem_objects_def faulty_world_def ref_of_def example_resource_def)

lemma example_ready:
  "names_distinct (host_names (example_accounts (example_resource [example_member] fs None)))"
  "cluster_ready (example_accounts (example_resource [example_member] fs None))
     [(UTSAKind, (''union'', ''team'')) \<mapsto> ob]"
  by (simp_all add: example_accounts_def example_resource_def example_member_def host_names_def
      external_hosts_def cloudsql_hosts_def mkServiceAccount_def names_distinct_def cluster_ready_def
      egress_open_def names_free_def claimed_def gateway_proper_def)

theorem deletion_completes_witness:
  "\<exists>w'. attempts 1 (Reconcile example_ctl (''union'', ''team''))
     (faulty_world [None, Some ''timeout''] [UTSAObj (example_resource [example_member] [unionFinalizer] (Some 5))])
       = (Ok (), w')
   \<and> (\<forall>u. mem_store (ext w') (UTSAKind, (''union'', ''team'')) = Some (UTSAObj u) \<longrightarrow> \<not> holds_finalizer u)"
proof -
  let ?u = "example_resource [example_member] [unionFinalizer] (Some 5)" and ?req = "(''union'', ''team'')"
  let ?w = "faulty_world [None, Some ''timeout''] [UTSAObj ?u]"
  have outages: "mem_outages (ext ?w) = 1" by (simp add: mem_outages_def faulty_world_def)
  have store: "mem_store (ext ?w) (UTSAKind, ?req) = Some (UTSAObj ?u)"
    by (subst faulty_store) (simp_all add: removable_def example_resource_def)
  have dying: "\<not> Time_IsZero (metaDeletionTimestamp (utsaMeta ?u))" "holds_finalizer ?u"
    by (simp_all add: example_resource_def Time_IsZero_def holds_finalizer_def)
  from deletion_completes [OF example_ctl_serves(1) example_ctl_ok(2) example_ctl_serves(2-4) _
      store dying] show ?thesis unfolding outages by auto
qed

text \<open>Without outages the first attempt succeeds, and the host on the allowlist is reachable.\<close>

theorem Reconcile_reaches_witness:
  "case Reconcile example_ctl (''union'', ''team'')
      (faulty_world [] [UTSAObj (example_resource [example_member] [unionFinalizer] None)]) of
     (res, w') \<Rightarrow> res = Ok () \<and> external_ready \<lparr>hostHost = ''vg.no'', hostPaths = []\<rparr> (mem_store (ext w'))"
proof -
  let ?u = "example_resource [example_member] [unionFinalizer] None" and ?req = "(''union'', ''team'')"
  let ?w = "faulty_world [] [UTSAObj ?u]" and ?h = "\<lparr>hostHost = ''vg.no'', hostPaths = []\<rparr>"
  obtain res w' where run: "Reconcile example_ctl ?req ?w = (res, w')" by (cases "Reconcile example_ctl ?req ?w")
  have store: "mem_store (ext ?w) = [(UTSAKind, ?req) \<mapsto> UTSAObj ?u]"
    by (rule faulty_store) (simp_all add: removable_def example_resource_def)
  have live: "Time_IsZero (metaDeletionTimestamp (utsaMeta ?u))"
    by (simp add: example_resource_def Time_IsZero_def)
  have kept: "utsa_kept ?req ?u (mem_store (ext ?w))" "cluster_ready (example_accounts ?u) (mem_store (ext ?w))"
    using example_ready unfolding store by (simp_all add: utsa_kept_def)
  from kube_serves.Reconcile_attempt_live(1) [OF example_ctl_serves(1) refl example_ctl_ok(2)
      example_ctl_serves(2-4) _ example_ctl_serves(5) example_accounts_def example_ready(1) live kept run]
  have ok: "res = Ok ()" by (simp add: mem_outages_def faulty_world_def)
  have "external_hosts (example_accounts ?u) = [?h]" "cloudsql_hosts (example_accounts ?u) = []"
    by (simp_all add: example_accounts_def example_resource_def example_member_def mkServiceAccount_def
        external_hosts_def cloudsql_hosts_def)
  moreover have "owned gw host name (mem_store (ext ?w))" for gw host name
    unfolding store by (simp add: owned_def)
  moreover have "mem_store (ext ?w) (UTSAKind, ?req) = Some (UTSAObj ?u)" unfolding store by simp
  ultimately have "external_ready ?h (mem_store (ext w'))"
    using Reconcile_reaches [OF example_ctl_ok(1,2,3) example_ctl_serves(3) _ live example_ctl_serves(4)
        run [unfolded ok] example_accounts_def]
    by (simp add: undisputed_def)
  with ok run show ?thesis by simp
qed

end
