(* ===== verification/Revocation.thy ===== *)
theory Revocation
  imports Liveness
begin

text \<open>
  What the reconciliation of a live resource does not take back. A policy that admits an
  account to an external host is deleted when its account is removed, when its resource
  is, or when nobody allows the host any more. Nothing deletes it when its own account
  drops the host while another resource allows it: for a host that nothing else disputes
  the stages leave the policy as it is, whatever they answer.
\<close>

section \<open>Policies of external hosts\<close>

definition external_policy :: "UnionTeamServiceAccounts \<Rightarrow> string \<Rightarrow> object \<Rightarrow> bool" where
  "external_policy utsa h ob \<longleftrightarrow> kind_of ob = AuthorizationPolicyKind \<and> namespace_of ob = EgressNamespace
     \<and> labels_of ob ''project'' = Some (specProject (utsaSpec utsa))
     \<and> labels_of ob ''domain'' = Some (specDomain (utsaSpec utsa))
     \<and> (\<exists>name \<in> listed_accounts utsa. labels_of ob ''service-account'' = Some name)
     \<and> labels_of ob ''host-type'' = Some hostTypeLabelExternal
     \<and> labels_of ob ''host'' = Some h"

text \<open>
  What the stages keep: the policy, the other resource that allows the host, and that
  nothing disputes the host.
\<close>

definition allowed_elsewhere :: "obj_ref \<Rightarrow> object \<Rightarrow> key \<Rightarrow> UnionTeamServiceAccounts \<Rightarrow> string \<Rightarrow> contents \<Rightarrow> bool" where
  "allowed_elsewhere ref ob key v h m \<longleftrightarrow> m ref = Some ob \<and> m (UTSAKind, key) = Some (UTSAObj v)
     \<and> owned externalGatewayName h (Host_Name \<lparr>hostHost = h, hostPaths = []\<rparr>) m"

definition keeps :: "(contents \<Rightarrow> bool) \<Rightarrow> (contents \<Rightarrow> bool) \<Rightarrow> contents \<Rightarrow> contents \<Rightarrow> bool" where
  "keeps K J m m' \<longleftrightarrow> (K m \<longrightarrow> J m')"

interpretation keeps: effect_order "on_store store (keeps K K)" for store K
  by (rule effect_order_on_store) (auto simp: keeps_def)

text \<open>The last part of a program may keep less than the parts before it.\<close>

lemma keeps_seq:
  assumes m: "safe (on_store store (keeps K K)) m" and k: "safe (on_store store (keeps K J)) k"
    and KJ: "\<And>c. K c \<Longrightarrow> J c"
  shows "safe (on_store store (keeps K J)) (go_seq m k)"
proof (rule safeI)
  fix w
  obtain res w1 where run: "m w = (res, w1)" by (cases "m w")
  with m have "on_store store (keeps K K) w w1" by (rule safeD)
  moreover have "on_store store (keeps K J) w1 (snd (k w1))" using k by (simp add: safe_def)
  ultimately show "on_store store (keeps K J) w (snd (go_seq m k w))"
    using KJ by (cases res) (auto simp: go_seq_def go_bind_def run on_store_def keeps_def)
qed

context kube_api
begin

lemma allowed_elsewhere_kinds:
  assumes "changes_kinds store K m" and "K \<inter> {AuthorizationPolicyKind, UTSAKind, GatewayKind, VirtualServiceKind} = {}"
    and "fst ref = AuthorizationPolicyKind"
  shows "safe (on_store store (keeps (allowed_elsewhere ref ob key v h) (allowed_elsewhere ref ob key v h))) m"
  using assms(1)
proof (rule safe_mono)
  fix w w' :: "'s world"
  assume "on_store store (same_off (of_kinds K)) w w'"
  then have frame: "same_off (of_kinds K) (store (ext w)) (store (ext w'))" by (simp add: on_store_def)
  have "store (ext w') ref = store (ext w) ref"
    using frame by (rule same_offD) (use assms(2,3) in \<open>cases ref; auto\<close>)
  moreover have "store (ext w') (UTSAKind, key) = store (ext w) (UTSAKind, key)"
    using frame by (rule same_offD) (use assms(2) in auto)
  moreover note owned_frame [OF kube_api_axioms frame]
  ultimately show "on_store store (keeps (allowed_elsewhere ref ob key v h) (allowed_elsewhere ref ob key v h)) w w'"
    using assms(2) by (auto simp: on_store_def keeps_def allowed_elsewhere_def)
qed

lemma allowed_elsewhere_grows:
  assumes "safe (on_store store egress_grows) m"
    and "safe (on_store store (owned_step externalGatewayName h (Host_Name \<lparr>hostHost = h, hostPaths = []\<rparr>))) m"
    and "kind_of ob \<noteq> GatewayKind"
  shows "safe (on_store store (keeps (allowed_elsewhere ref ob key v h) (allowed_elsewhere ref ob key v h))) m"
proof (rule safeI)
  fix w
  have kept: "m' r = Some x" if "egress_grows m m'" "m r = Some x" "kind_of x \<noteq> GatewayKind" for m m' r x
  proof -
    from that(1,2) obtain x' where "m' r = Some x'" "grown x x'" unfolding egress_grows_def by blast
    with that(3) show ?thesis by (auto simp: grown_def)
  qed
  have grows: "egress_grows (store (ext w)) (store (ext (snd (m w))))"
    and own: "owned_step externalGatewayName h (Host_Name \<lparr>hostHost = h, hostPaths = []\<rparr>)
      (store (ext w)) (store (ext (snd (m w))))"
    using assms(1,2) by (simp_all add: safe_def on_store_def)
  show "on_store store (keeps (allowed_elsewhere ref ob key v h)
      (allowed_elsewhere ref ob key v h)) w (snd (m w))"
    using kept [OF grows _ assms(3)] kept [OF grows, of _ "UTSAObj v"] own
    by (simp add: on_store_def keeps_def allowed_elsewhere_def owned_step_def)
qed

lemma policy_not_internal:
  "external_policy utsa h ob \<Longrightarrow> store (ext w) ref = Some ob
     \<Longrightarrow> ref \<notin> all_stale_internal (store (ext w)) utsas"
  by (auto simp: external_policy_def all_stale_internal_def stale_internal_def egress_matches
      internal_labels_def hostTypeLabelExternal_def hostTypeLabelInternal_def)

lemma policy_not_removed:
  "external_policy utsa h ob \<Longrightarrow> utsaSpec u = utsaSpec utsa \<Longrightarrow> store (ext w) ref = Some ob
     \<Longrightarrow> ref \<notin> env_policies (store (ext w)) u (\<lambda>n. n \<noteq> [] \<and> n \<notin> listed_accounts u)"
  by (auto simp: external_policy_def env_policies_def listed_accounts_def)

lemma policy_in_use:
  "external_policy utsa h ob \<Longrightarrow> store (ext w) ref = Some ob \<Longrightarrow> h \<notin> H \<Longrightarrow> ref \<notin> host_refs (store (ext w)) H"
  by (auto simp: external_policy_def host_refs_def)

text \<open>The stage that deletes the policies of removed accounts.\<close>

lemma allowed_elsewhere_removed:
  assumes r: "irClient r = c" and ob: "external_policy utsa h ob" and u: "utsaSpec u = utsaSpec utsa"
  shows "safe (on_store store (keeps (allowed_elsewhere ref ob key v h) (allowed_elsewhere ref ob key v h)))
    (CleanupRemovedServiceAccountAuthzPolicies r u)"
proof (rule safeI)
  fix w
  let ?w' = "snd (CleanupRemovedServiceAccountAuthzPolicies r u w)"
  have "on_store store (same_off (of_kinds {AuthorizationPolicyKind})) w ?w'"
    using kinds_CleanupPolicies(1) [OF r insertI1] by (simp add: safe_def)
  then have frame: "same_off (of_kinds {AuthorizationPolicyKind}) (store (ext w)) (store (ext ?w'))"
    by (simp add: on_store_def)
  have off: "same_off (env_policies (store (ext w)) u (\<lambda>n. n \<noteq> [] \<and> n \<notin> listed_accounts u))
      (store (ext w)) (store (ext ?w'))"
    using frame_CleanupRemovedPolicies [OF r, of "store (ext w)" u]
    by (simp add: safe_def on_store_def off_from_def)
  show "on_store store (keeps (allowed_elsewhere ref ob key v h) (allowed_elsewhere ref ob key v h)) w ?w'"
    using same_offD [OF off policy_not_removed [OF ob u]] same_offD [OF frame, of "(UTSAKind, key)"]
      owned_frame [OF kube_api_axioms frame]
    by (auto simp: on_store_def keeps_def allowed_elsewhere_def)
qed

end

context kube_fresh
begin

text \<open>The stages that look for unused hosts, once the other resource has been listed.\<close>

lemma policy_survives_unused:
  assumes r: "irClient r = c" and ob: "external_policy utsa h ob" and ref: "fst ref = AuthorizationPolicyKind"
    and used: "h \<in> set (external_hosts_in_use utsas)"
    and start: "store (ext w) ref = Some ob" "h \<notin> served (store (ext w)) cloudSQLGatewayName"
  shows "store (ext (snd (go_seq (cleanupInternalHosts r utsas)
    (go_seq (cleanupExternalHosts al r utsas) (cleanupCloudSQLHosts al r utsas)) w))) ref = Some ob"
proof -
  let ?K = "\<lambda>m. m ref = Some ob \<and> h \<notin> served m cloudSQLGatewayName" and ?J = "\<lambda>m. m ref = Some ob"
  have internal: "safe (on_store store (keeps ?K ?K)) (cleanupInternalHosts r utsas)"
  proof (rule safeI)
    fix w
    let ?w' = "snd (cleanupInternalHosts r utsas w)"
    have off: "same_off (all_stale_internal (store (ext w)) utsas) (store (ext w)) (store (ext ?w'))"
      using cleanupInternalHosts_run(1) [OF r, of "store (ext w)" utsas]
      by (simp add: safe_def on_store_def off_from_def)
    have frame: "same_off (of_kinds {AuthorizationPolicyKind}) (store (ext w)) (store (ext ?w'))"
      using kinds_cleanupInternalHosts [OF r, of "{AuthorizationPolicyKind}" utsas]
      by (simp add: safe_def on_store_def)
    show "on_store store (keeps ?K ?K) w ?w'"
      using same_offD [OF off policy_not_internal [OF ob]]
        same_offD [OF frame, of "(GatewayKind, (EgressNamespace, cloudSQLGatewayName))"]
      by (auto simp: on_store_def keeps_def served_def)
  qed
  have gateways: "externalGatewayName \<noteq> cloudSQLGatewayName"
    by (simp add: externalGatewayName_def cloudSQLGatewayName_def)
  have no_gateway: "(GatewayKind, k) \<notin> host_refs (store s) H" for k s H
    by (rule host_refs_not_gateway [OF kube_api_axioms])
  have external: "safe (on_store store (keeps ?K ?K)) (cleanupExternalHosts al r utsas)"
  proof (rule safeI)
    fix w
    note off = cleanup_hosts_off(1) [OF r surjective_pairing [of "cleanupExternalHosts al r utsas w"]]
    have "store (ext (snd (cleanupExternalHosts al r utsas w))) (GatewayKind, (EgressNamespace, cloudSQLGatewayName))
        = store (ext w) (GatewayKind, (EgressNamespace, cloudSQLGatewayName))"
      using off by (rule same_offD) (use gateways no_gateway in auto)
    moreover have "store (ext (snd (cleanupExternalHosts al r utsas w))) ref = Some ob"
      if "store (ext w) ref = Some ob"
      using same_offD [OF off, of ref] policy_in_use [OF ob that] used that ref by force
    ultimately show "on_store store (keeps ?K ?K) w (snd (cleanupExternalHosts al r utsas w))"
      by (simp add: on_store_def keeps_def served_def)
  qed
  have cloudsql: "safe (on_store store (keeps ?K ?J)) (cleanupCloudSQLHosts al r utsas)"
  proof (rule safeI)
    fix w
    note off = cleanup_hosts_off(2) [OF r surjective_pairing [of "cleanupCloudSQLHosts al r utsas w"]]
    have "store (ext (snd (cleanupCloudSQLHosts al r utsas w))) ref = Some ob"
      if "store (ext w) ref = Some ob" "h \<notin> served (store (ext w)) cloudSQLGatewayName"
      using same_offD [OF off, of ref] policy_in_use [OF ob that(1)] that ref by force
    then show "on_store store (keeps ?K ?J) w (snd (cleanupCloudSQLHosts al r utsas w))"
      by (simp add: on_store_def keeps_def)
  qed
  have "safe (on_store store (keeps ?K ?J)) (go_seq (cleanupInternalHosts r utsas)
      (go_seq (cleanupExternalHosts al r utsas) (cleanupCloudSQLHosts al r utsas)))"
    by (intro keeps_seq internal external cloudsql) simp_all
  with start show ?thesis by (simp add: safe_def on_store_def keeps_def)
qed

lemma policy_survives_cleanup:
  assumes r: "irClient r = c" and ob: "external_policy utsa h ob" and ref: "fst ref = AuthorizationPolicyKind"
    and used: "h \<in> set (external_hosts_in_use [v])"
  shows "safe (on_store store (keeps (allowed_elsewhere ref ob key v h) (\<lambda>m. m ref = Some ob)))
    (CleanupUnusedHosts al r)"
proof (rule safeI)
  fix w
  let ?lo = "\<lparr>loNamespace = None, loLabels = []\<rparr>"
  obtain reply w1 where list: "k8s_List c UTSAKind ?lo w = (Ok reply, w1)" and same: "store (ext w1) = store (ext w)"
    by (cases "k8s_List c UTSAKind ?lo w") (auto elim!: List_OkD)
  have "store (ext (snd (CleanupUnusedHosts al r w))) ref = Some ob"
    if start: "allowed_elsewhere ref ob key v h (store (ext w))"
  proof (cases reply)
    case (Inl e)
    with start same list show ?thesis
      by (simp add: CleanupUnusedHosts_def r go_bind_def check_reply_def go_err_def allowed_elsewhere_def)
  next
    case (Inr items)
    have "UTSAObj v \<in> set items"
      using list [unfolded Inr] start
      by (intro List_completeD [of UTSAKind ?lo w items w1 "(UTSAKind, key)"])
        (simp_all add: allowed_elsewhere_def lo_matches_def)
    then have "v \<in> set (map as_UTSA items)" by force
    with used in_use_one(1) have in_use: "h \<in> set (external_hosts_in_use (map as_UTSA items))" by blast
    have unserved: "h \<notin> served (store (ext w1)) cloudSQLGatewayName"
      by (rule owned_served [where gw = externalGatewayName and name = "Host_Name \<lparr>hostHost = h, hostPaths = []\<rparr>"])
        (use start same in \<open>simp_all add: allowed_elsewhere_def externalGatewayName_def cloudSQLGatewayName_def\<close>)
    have "CleanupUnusedHosts al r w = go_seq (cleanupInternalHosts r (map as_UTSA items))
        (go_seq (cleanupExternalHosts al r (map as_UTSA items)) (cleanupCloudSQLHosts al r (map as_UTSA items))) w1"
      using list Inr by (simp add: CleanupUnusedHosts_def r go_bind_def check_reply_def go_return_def Let_def)
    with policy_survives_unused [OF r ob ref in_use _ unserved] start same show ?thesis
      by (simp add: allowed_elsewhere_def)
  qed
  then show "on_store store (keeps (allowed_elsewhere ref ob key v h) (\<lambda>m. m ref = Some ob)) w
      (snd (CleanupUnusedHosts al r w))"
    by (simp add: on_store_def keeps_def)
qed

lemma policy_survives_stages:
  assumes r: "ctlClient r = c" and persister: "allowlist_persister (ctlPersister r) store"
    and ob: "external_policy utsa h ob" and ref: "fst ref = AuthorizationPolicyKind"
    and u: "utsaSpec u = utsaSpec utsa" and used: "h \<in> set (external_hosts_in_use [v])"
    and spec: "undisputed sas externalGatewayName h (Host_Name \<lparr>hostHost = h, hostPaths = []\<rparr>)"
  shows "safe (on_store store (keeps (allowed_elsewhere ref ob key v h) (\<lambda>m. m ref = Some ob)))
    (reconcile_stages r cfg env sas u)"
proof -
  have ir: "irClient (ctl_istio r) = c" and sar: "sarClient (ctl_accounts r cfg) = c"
    using r by (simp_all add: ctl_istio_def ctl_accounts_def)
  let ?K = "allowed_elsewhere ref ob key v h"
  have not_gateway: "kind_of ob \<noteq> GatewayKind" using ob by (simp add: external_policy_def)
  have s1: "safe (on_store store (keeps ?K ?K)) (ctlPersister r u)"
    using persister by (rule allowlist_persister.persist_safe) (simp add: keeps_def)
  have sa: "sa_kinds \<inter> {AuthorizationPolicyKind, UTSAKind, GatewayKind, VirtualServiceKind} = {}"
    by (simp add: sa_kinds_def)
  note s2 = allowed_elsewhere_kinds [OF kinds_CreateOrUpdateServiceAccounts [OF sar] sa ref]
  note s3 = allowed_elsewhere_kinds [OF kinds_CleanupRemovedServiceAccounts [OF sar] sa ref]
  note s4 = allowed_elsewhere_grows [OF EnsureExternalHosts_run(1) [OF ir] own_EnsureHosts(1) [OF ir spec] not_gateway]
  note s5 = allowed_elsewhere_grows [OF EnsureCloudSQLHosts_run(1) [OF ir] own_EnsureHosts(2) [OF ir spec] not_gateway]
  have own: "safe (on_store store (owned_step externalGatewayName h (Host_Name \<lparr>hostHost = h, hostPaths = []\<rparr>)))
      (EnsureAuthorizationPolicies (ctl_istio r) sas)"
    by (rule safe_mono [OF kinds_EnsureAuthorizationPolicies [OF ir, of "{AuthorizationPolicyKind}"]])
      (auto simp: on_store_def owned_step_def intro: owned_frame [OF kube_api_axioms])
  note s6 = allowed_elsewhere_grows [OF EnsureAuthorizationPolicies_run(1) [OF ir] own not_gateway]
  note s7 = allowed_elsewhere_removed [OF ir ob u]
  note s8 = policy_survives_cleanup [OF ir ob ref used]
  have "\<And>m. ?K m \<Longrightarrow> m ref = Some ob" by (simp add: allowed_elsewhere_def)
  then show ?thesis
    unfolding reconcile_stages_def reconcile_resources_def Let_def
    by (intro keeps_seq s1 s2 s3 s4 s5 s6 s7 s8)
qed

lemma Reconcile_keeps_policy:
  assumes r: "ctlClient r = c" and F: "finalizer_util (ctlFinalizers r)"
    and persister: "allowlist_persister (ctlPersister r) store"
    and cfg: "ctlUnionConfig r = Some cfg"
    and stored: "store (ext w) (UTSAKind, req) = Some (UTSAObj utsa)"
    and live: "Time_IsZero (metaDeletionTimestamp (utsaMeta utsa))"
    and kinds: "ctlObjectKinds r utsa = Inr (gvk # gvks)"
    and run: "Reconcile r req w = (res, w')"
    and sas: "sas = map (mkServiceAccount (union_env cfg gvk utsa)) (specServiceAccounts (utsaSpec utsa))"
    and ob: "external_policy utsa h ob" "store (ext w) ref = Some ob"
    and v: "store (ext w) (UTSAKind, key) = Some (UTSAObj v)" "key \<noteq> req" "h \<in> set (external_hosts_in_use [v])"
    and spec: "undisputed sas externalGatewayName h (Host_Name \<lparr>hostHost = h, hostPaths = []\<rparr>)"
    and own: "owned externalGatewayName h (Host_Name \<lparr>hostHost = h, hostPaths = []\<rparr>) (store (ext w))"
  shows "store (ext w') ref = Some ob"
  using r cfg stored kinds
proof (cases rule: Reconcile_found)
  case (failed e w1)
  with run ob(2) show ?thesis by simp
next
  case (found w1)
  let ?K = "allowed_elsewhere ref ob key v h"
  have ref: "fst ref = AuthorizationPolicyKind"
    using store_ref [OF ob(2)] ob(1) by (auto simp: external_policy_def ref_of_def)
  then have not_utsa: "ref \<noteq> (UTSAKind, req)" by auto
  have run': "go_bind (ensure_finalizer r utsa) (reconcile_stages r cfg (union_env cfg gvk utsa) sas) w1 = (res, w')"
    using run found(2) live sas by simp
  have K1: "?K (store (ext w1))" using ob(2) v(1) own found(1) by (simp add: allowed_elsewhere_def)
  obtain res2 w2 where fin: "ensure_finalizer r utsa w1 = (res2, w2)" by (cases "ensure_finalizer r utsa w1")
  have "ref_of (UTSAObj (fAdd (ctlFinalizers r) utsa unionFinalizer)) = (UTSAKind, req)"
    using store_ref [OF stored] finalizer_util.add_sel [OF F] by (simp add: ref_of_def)
  then have "safe (on_store store (same_off {(UTSAKind, req)})) (ensure_finalizer r utsa)"
    unfolding ensure_finalizer_def by (auto intro!: frame_update_utsa [OF r])
  from safeD [OF this fin] have off: "same_off {(UTSAKind, req)} (store (ext w1)) (store (ext w2))"
    by (simp add: on_store_def)
  have "owned externalGatewayName h (Host_Name \<lparr>hostHost = h, hostPaths = []\<rparr>) (store (ext w2))"
    by (rule owned_frame [OF kube_api_axioms same_off_mono [OF off], of "{UTSAKind}"])
      (use K1 in \<open>auto simp: allowed_elsewhere_def\<close>)
  then have K2: "?K (store (ext w2))"
    using K1 same_offD [OF off, of ref] same_offD [OF off, of "(UTSAKind, key)"] not_utsa v(2)
    by (simp add: allowed_elsewhere_def)
  show ?thesis
  proof (cases res2)
    case (Ok u)
    have u: "utsaSpec u = utsaSpec utsa"
      using ensure_finalizer_stored(1) [OF r F _ fin [unfolded Ok], of req] stored found(1) by simp
    have "reconcile_stages r cfg (union_env cfg gvk utsa) sas u w2 = (res, w')"
      using run' fin Ok by (simp add: go_bind_def)
    from safeD [OF policy_survives_stages [OF r persister ob(1) ref u v(3) spec] this] K2 show ?thesis
      by (simp add: on_store_def keeps_def)
  qed (use run' fin K2 in \<open>simp_all add: go_bind_def allowed_elsewhere_def\<close>)
qed

end

text \<open>
  C24. Access is not revoked. Whatever the outcome, the reconciliation of a live resource
  (one that is not being deleted) leaves the policy that admits one of its accounts to an
  external host (by the labels it was made with) exactly as it is while another resource has that host on an external
  allowlist, whether or not the account's own allowlist still has it. The host is
  undisputed in the specification (no other host or Cloud SQL address there has its
  resource name, and no Cloud SQL address is equal to it) and owned in the cluster (the
  VirtualService of its name, if there is one, is not labelled with another host, and the
  Cloud SQL gateway does not list it).
\<close>

theorem dropped_host_stays_allowed:
  assumes "kube_fresh (ctlClient r) store" and "finalizer_util (ctlFinalizers r)"
    and "allowlist_persister (ctlPersister r) store"
    and "ctlUnionConfig r = Some cfg"
    and "store (ext w) (UTSAKind, req) = Some (UTSAObj utsa)"
    and "Time_IsZero (metaDeletionTimestamp (utsaMeta utsa))"
    and "ctlObjectKinds r utsa = Inr (gvk # gvks)"
    and "Reconcile r req w = (res, w')"
    and "sas = map (mkServiceAccount (union_env cfg gvk utsa)) (specServiceAccounts (utsaSpec utsa))"
    and "external_policy utsa h ob" and "store (ext w) ref = Some ob"
    and "store (ext w) (UTSAKind, key) = Some (UTSAObj v)" and "key \<noteq> req"
    and "h \<in> set (external_hosts_in_use [v])"
    and "undisputed sas externalGatewayName h (Host_Name \<lparr>hostHost = h, hostPaths = []\<rparr>)"
    and "owned externalGatewayName h (Host_Name \<lparr>hostHost = h, hostPaths = []\<rparr>) (store (ext w))"
  shows "store (ext w') ref = Some ob"
  by (rule kube_fresh.Reconcile_keeps_policy [OF assms(1) refl assms(2-16)])

section \<open>Instance\<close>

text \<open>
  An account that no longer lists a host, another resource that does, and the policy from
  before. The reconciliation succeeds and leaves the policy.
\<close>

definition dropped_member :: UnionServiceAccount where
  "dropped_member = example_member\<lparr>usaExternalAllowlist := []\<rparr>"

definition other_resource :: UnionTeamServiceAccounts where
  "other_resource = (example_resource [example_member] [unionFinalizer] None)
     \<lparr>utsaMeta := new_meta ''other'' ''union'' Map.empty\<rparr>"

definition old_policy :: object where
  "old_policy = AuthorizationPolicyObj
     \<lparr>apMeta = new_meta ''proj-dev-sa-vg-no'' ''istio-egress''
        [''project'' \<mapsto> ''proj'', ''domain'' \<mapsto> ''dev'', ''service-account'' \<mapsto> ''sa'',
         ''host'' \<mapsto> ''vg.no'', ''parent-host'' \<mapsto> ''vg.no'', ''host-type'' \<mapsto> ''external''],
      apAction = ALLOW, apRules = []\<rparr>"

theorem dropped_host_stays_allowed_witness:
  "case Reconcile example_ctl (''union'', ''team'')
      (faulty_world [] [UTSAObj (example_resource [dropped_member] [unionFinalizer] None),
         UTSAObj other_resource, old_policy]) of
     (res, w') \<Rightarrow> res = Ok () \<and> mem_store (ext w') (ref_of old_policy) = Some old_policy"
proof -
  let ?u = "example_resource [dropped_member] [unionFinalizer] None" and ?req = "(''union'', ''team'')"
  let ?w = "faulty_world [] [UTSAObj ?u, UTSAObj other_resource, old_policy]"
  obtain res w' where run: "Reconcile example_ctl ?req ?w = (res, w')" by (cases "Reconcile example_ctl ?req ?w")
  have store: "mem_store (ext ?w) = [ref_of old_policy \<mapsto> old_policy,
      (UTSAKind, (''union'', ''other'')) \<mapsto> UTSAObj other_resource, (UTSAKind, ?req) \<mapsto> UTSAObj ?u]"
    by (rule ext) (simp add: mem_store_def mem_objects_def faulty_world_def ref_of_def example_resource_def
        other_resource_def old_policy_def removable_def)
  have live: "Time_IsZero (metaDeletionTimestamp (utsaMeta ?u))"
    by (simp add: example_resource_def Time_IsZero_def)
  have stored: "mem_store (ext ?w) (UTSAKind, ?req) = Some (UTSAObj ?u)"
    "mem_store (ext ?w) (UTSAKind, (''union'', ''other'')) = Some (UTSAObj other_resource)"
    "mem_store (ext ?w) (ref_of old_policy) = Some old_policy"
    unfolding store by (simp_all add: ref_of_def old_policy_def)
  have no_hosts: "external_hosts (example_accounts ?u) = []" "cloudsql_hosts (example_accounts ?u) = []"
    by (simp_all add: example_accounts_def example_resource_def dropped_member_def example_member_def
        mkServiceAccount_def external_hosts_def cloudsql_hosts_def)
  have policies: "mem_store (ext ?w) (k, key) = None" if "k \<notin> {UTSAKind, AuthorizationPolicyKind}" for k key
    using that unfolding store by (auto simp: ref_of_def old_policy_def)
  have names: "names_distinct (host_names (example_accounts ?u))"
    by (simp add: names_distinct_def host_names_def no_hosts)
  have ready: "cluster_ready (example_accounts ?u) (mem_store (ext ?w))"
    by (simp add: cluster_ready_def egress_open_def names_free_def host_names_def no_hosts gateway_proper_def policies)
  have kept: "utsa_kept ?req ?u (mem_store (ext ?w))" using stored(1) by (simp add: utsa_kept_def)
  from kube_serves.Reconcile_attempt_live(1) [OF example_ctl_serves(1) refl example_ctl_ok(2)
      example_ctl_serves(2-4) _ example_ctl_serves(5) example_accounts_def names live kept ready run]
  have ok: "res = Ok ()" by (simp add: mem_outages_def faulty_world_def)
  have "external_policy ?u ''vg.no'' old_policy"
    by (simp add: external_policy_def old_policy_def example_resource_def listed_accounts_def dropped_member_def
        example_member_def EgressNamespace_def hostTypeLabelExternal_def)
  moreover have "''vg.no'' \<in> set (external_hosts_in_use [other_resource])"
    by (simp add: external_hosts_in_use_def other_resource_def example_resource_def example_member_def)
  moreover have "undisputed (example_accounts ?u) gw host name" for gw host name
    by (simp add: undisputed_def no_hosts)
  moreover have "owned gw host name (mem_store (ext ?w))" for gw host name
    unfolding store owned_def by (auto simp: ran_def old_policy_def split: if_splits)
  ultimately have "mem_store (ext w') (ref_of old_policy) = Some old_policy"
    using dropped_host_stays_allowed [OF example_ctl_ok example_ctl_serves(3) stored(1) live
        example_ctl_serves(4) run example_accounts_def _ stored(3,2)] by simp
  with ok run show ?thesis by simp
qed

end
