(* ===== verification/Settled.thy ===== *)
theory Settled
  imports Revocation
begin

text \<open>
  The end state of the operator: not only does a reconciliation succeed after enough
  attempts, every host of the resource is then reachable. To the invariant of the attempts
  this adds that nothing in the cluster disputes a host, which every attempt keeps, however
  it ends, as long as no resource has the host on the other kind of list.
\<close>

section \<open>Hosts that stay undisputed\<close>

text \<open>The hosts a list of resources brings to the gateway that is not \<open>gw\<close>.\<close>

definition other_hosts :: "string \<Rightarrow> UnionTeamServiceAccounts list \<Rightarrow> string list" where
  "other_hosts gw utsas = (if gw = externalGatewayName then cloudsql_hosts_in_use utsas else external_hosts_in_use utsas)"

definition clear_host :: "string \<Rightarrow> string \<Rightarrow> string \<Rightarrow> contents \<Rightarrow> bool" where
  "clear_host gw host name m \<longleftrightarrow> gw \<in> {externalGatewayName, cloudSQLGatewayName} \<and> owned gw host name m
     \<and> (\<forall>key v. m (UTSAKind, key) = Some (UTSAObj v) \<longrightarrow> host \<notin> set (other_hosts gw [v]))"

lemma gateways_differ: "externalGatewayName \<noteq> cloudSQLGatewayName" "cloudSQLGatewayName \<noteq> externalGatewayName"
  by (simp_all add: externalGatewayName_def cloudSQLGatewayName_def)

lemma other_hosts_concat:
  assumes "gw \<noteq> externalGatewayName \<or> host \<noteq> ''*''"
  shows "host \<in> set (other_hosts gw utsas) \<longleftrightarrow> (\<exists>v \<in> set utsas. host \<in> set (other_hosts gw [v]))"
  using assms by (auto simp: other_hosts_def cloudsql_hosts_in_use_def external_hosts_in_use_def)

lemma other_hosts_spec: "utsaSpec u = utsaSpec v \<Longrightarrow> other_hosts gw [u] = other_hosts gw [v]"
  by (simp add: other_hosts_def cloudsql_hosts_in_use_def external_hosts_in_use_def)

section \<open>The loops over the servers of a gateway\<close>

text \<open>A gateway that may be sent with the hosts in use: the host's own, or one the host is not meant for.\<close>

definition may_send :: "string \<Rightarrow> string \<Rightarrow> string \<Rightarrow> string list \<Rightarrow> Gateway \<Rightarrow> bool" where
  "may_send gw host name inUse g \<longleftrightarrow> harmless gw host name (GatewayObj g)
     \<and> (ref_of (GatewayObj g) = (GatewayKind, (EgressNamespace, gw)) \<or> host \<notin> set inUse)"

lemma may_send_write:
  assumes "may_send gw host name inUse g"
  shows "may_send gw host name inUse (write_hosts at (sorted_keys inUse) i g)"
  using assms server_hosts_set_hosts [of "sorted_keys inUse" "gwServers g" i]
  by (auto simp: may_send_def write_hosts_def ref_of_def)

lemma may_send_stamped:
  assumes g: "may_send gw host name inUse g" and stamp: "stamped (GatewayObj g) answer"
  shows "may_send gw host name inUse (as_Gateway answer)"
proof -
  from stamp obtain g' where g': "answer = GatewayObj g'" by (rule stamped_GatewayD)
  with g harmless_stamped [OF stamp] stamped_ref [OF stamp] show ?thesis by (simp add: may_send_def)
qed

context kube_api
begin

lemma own_Update_then:
  assumes g: "may_send gw host name inUse g"
    and rest: "\<And>g'. may_send gw host name inUse g' \<Longrightarrow> safe (on_store store (owned_step gw host name)) (f g')"
  shows "safe (on_store store (owned_step gw host name)) (go_bind (k8s_Update c (GatewayObj g))
    (\<lambda>reply. case reply of Inl e \<Rightarrow> go_err (ApiError e) | Inr answer \<Rightarrow> f (as_Gateway answer)))"
proof (rule own.safe_bind_Ok)
  show "safe (on_store store (owned_step gw host name)) (k8s_Update c (GatewayObj g))"
    by (rule safe_Update) (use g in \<open>auto simp: may_send_def intro: owned_writes(2)\<close>)
  fix reply and w w' :: "'s world"
  assume run: "k8s_Update c (GatewayObj g) w = (Ok reply, w')"
  show "safe (on_store store (owned_step gw host name))
      (case reply of Inl e \<Rightarrow> go_err (ApiError e) | Inr answer \<Rightarrow> f (as_Gateway answer))"
  proof (cases reply)
    case (Inr answer)
    with run have "stamped (GatewayObj g) answer" using Update_OkD by (auto simp: updated_def)
    with Inr rest may_send_stamped [OF g] show ?thesis by simp
  qed simp
qed

lemma own_remove_unused:
  assumes r: "irClient r = c"
  shows "safe (on_store store (owned_step gw host name)) (remove_unused r inUse hosts)"
  unfolding remove_unused_def removeExternalHost_def removeByHostLabel_def r by (rule own_rules)+

lemma own_servers:
  assumes r: "irClient r = c"
  shows "may_send gw host name inUse g \<Longrightarrow> safe (on_store store (owned_step gw host name))
      (external_servers al r inUse is at servers g)"
    and "may_send gw host name inUse g \<Longrightarrow> safe (on_store store (owned_step gw host name))
      (cloudsql_servers al r inUse is at servers g)"
proof (induction "is" arbitrary: at servers g)
  case (Cons i "is")
  note unused = own_remove_unused [OF r]
  {
    case 1
    have "safe (on_store store (owned_step gw host name))
        (go_bind (k8s_Delete c (GatewayObj (write_hosts at hosts i g))) check_error)" for hosts
      by (rule own_rules)+
    with 1 Cons.IH(1) show ?case
      by (auto simp: r Let_def intro!: own.safe_seq unused own_Update_then may_send_write split: option.splits)
  next
    case 2
    with Cons.IH(2) show ?case
      by (auto simp: r Let_def intro!: own.safe_seq unused own_Update_then may_send_write split: option.splits)
  }
qed simp_all

lemma own_gateway_loop:
  assumes gw: "gw' \<in> {externalGatewayName, cloudSQLGatewayName}"
    and used: "gw' = gw \<or> host \<notin> set inUse"
    and loop: "\<And>g. may_send gw host name inUse g \<Longrightarrow> safe (on_store store (owned_step gw host name)) (f g)"
  shows "safe (on_store store (owned_step gw host name))
    (go_bind (k8s_Get c GatewayKind (EgressNamespace, gw')) (\<lambda>reply. case reply of
        Inl e \<Rightarrow> (if IsNotFound e then go_return () else go_err (ApiError e))
      | Inr ob \<Rightarrow> f (as_Gateway ob)))"
proof (rule safe_Get_bind [OF own.effect_order_axioms])
  fix ob and w :: "'s world"
  assume old: "store (ext w) (GatewayKind, (EgressNamespace, gw')) = Some ob"
  then obtain g where g: "ob = GatewayObj g" by (rule stored_gateway)
  have "on_store store (owned_step gw host name) w (snd (f g w))" if "owned gw host name (store (ext w))"
  proof -
    have "harmless gw host name (GatewayObj g)" using that old g unfolding owned_def by (meson ranI)
    with store_ref [OF old] g used have "may_send gw host name inUse g" by (auto simp: may_send_def)
    with loop show ?thesis by (simp add: safe_def)
  qed
  then show "on_store store (owned_step gw host name) w (snd ((case Inr ob of
        Inl e \<Rightarrow> (if IsNotFound e then go_return () else go_err (ApiError e))
      | Inr ob \<Rightarrow> f (as_Gateway ob)) w))"
    by (auto simp: g on_store_def owned_step_def)
qed (simp_all add: own.safe_return)

lemma own_cleanup_hosts:
  assumes r: "irClient r = c" and gw: "gw \<in> {externalGatewayName, cloudSQLGatewayName}"
    and other: "host \<notin> set (other_hosts gw utsas)"
  shows "safe (on_store store (owned_step gw host name)) (cleanupExternalHosts al r utsas)"
    and "safe (on_store store (owned_step gw host name)) (cleanupCloudSQLHosts al r utsas)"
proof -
  have used: "externalGatewayName = gw \<or> host \<notin> set (external_hosts_in_use utsas)"
    "cloudSQLGatewayName = gw \<or> host \<notin> set (cloudsql_hosts_in_use utsas)"
    using gw other by (auto simp: other_hosts_def gateways_differ)
  show "safe (on_store store (owned_step gw host name)) (cleanupExternalHosts al r utsas)"
    unfolding cleanupExternalHosts_def Let_def r by (rule own_gateway_loop [OF _ used(1) own_servers(1) [OF r]]) simp_all
  show "safe (on_store store (owned_step gw host name)) (cleanupCloudSQLHosts al r utsas)"
    unfolding cleanupCloudSQLHosts_def Let_def r by (rule own_gateway_loop [OF _ used(2) own_servers(2) [OF r]]) simp_all
qed

text \<open>
  The stages of a reconciliation. Stages about other kinds of objects keep all that
  \<open>clear_host\<close> says, and the stages that create hosts are those of an undisputed host.
\<close>

lemma clear_kinds:
  assumes "changes_kinds store K m" and "K \<inter> {UTSAKind, GatewayKind, VirtualServiceKind} = {}"
  shows "safe (on_store store (keeps (clear_host gw host name) (clear_host gw host name))) m"
  using assms(1)
proof (rule safe_mono)
  fix w w' :: "'s world"
  assume "on_store store (same_off (of_kinds K)) w w'"
  then have frame: "same_off (of_kinds K) (store (ext w)) (store (ext w'))" by (simp add: on_store_def)
  have "store (ext w') (UTSAKind, key) = store (ext w) (UTSAKind, key)" for key
    using frame by (rule same_offD) (use assms(2) in auto)
  with owned_frame [OF kube_api_axioms frame] assms(2)
  show "on_store store (keeps (clear_host gw host name) (clear_host gw host name)) w w'"
    by (auto simp: on_store_def keeps_def clear_host_def)
qed

lemma clear_owned:
  assumes "safe (on_store store (owned_step gw host name)) m" and "changes_kinds store K m" and "UTSAKind \<notin> K"
  shows "safe (on_store store (keeps (clear_host gw host name) (clear_host gw host name))) m"
proof (rule safeI)
  fix w
  have "same_off (of_kinds K) (store (ext w)) (store (ext (snd (m w))))"
    using assms(2) by (simp add: safe_def on_store_def)
  then have "store (ext (snd (m w))) (UTSAKind, key) = store (ext w) (UTSAKind, key)" for key
    by (rule same_offD) (use assms(3) in auto)
  moreover have "owned_step gw host name (store (ext w)) (store (ext (snd (m w))))"
    using assms(1) by (simp add: safe_def on_store_def)
  ultimately show "on_store store (keeps (clear_host gw host name) (clear_host gw host name)) w (snd (m w))"
    by (auto simp: on_store_def keeps_def clear_host_def owned_step_def)
qed

lemma clear_CleanupUnusedHosts:
  assumes r: "irClient r = c" and star: "gw \<noteq> externalGatewayName \<or> host \<noteq> ''*''"
  shows "safe (on_store store (keeps (clear_host gw host name) (clear_host gw host name))) (CleanupUnusedHosts al r)"
proof (rule safeI)
  fix w
  let ?lo = "\<lparr>loNamespace = None, loLabels = []\<rparr>" and ?w' = "snd (CleanupUnusedHosts al r w)"
  obtain reply w1 where list: "k8s_List c UTSAKind ?lo w = (Ok reply, w1)" and same: "store (ext w1) = store (ext w)"
    and listed: "\<And>obs ob. reply = Inr obs \<Longrightarrow> ob \<in> set obs \<Longrightarrow> kind_of ob = UTSAKind \<and> store (ext w) (ref_of ob) = Some ob"
    by (cases "k8s_List c UTSAKind ?lo w") (auto elim!: List_OkD)
  have utsas: "store (ext ?w') (UTSAKind, key) = store (ext w) (UTSAKind, key)" for key
  proof (rule same_offD)
    show "same_off (of_kinds istio_kinds) (store (ext w)) (store (ext ?w'))"
      using kinds_CleanupUnusedHosts [OF r, of al] by (simp add: safe_def on_store_def)
  qed simp
  have "owned gw host name (store (ext ?w'))" if clear: "clear_host gw host name (store (ext w))"
  proof (cases reply)
    case (Inl e)
    with clear same list show ?thesis
      by (simp add: CleanupUnusedHosts_def r go_bind_def check_reply_def go_err_def clear_host_def)
  next
    case (Inr items)
    let ?utsas = "map as_UTSA items"
    have "host \<notin> set (other_hosts gw [v])" if "v \<in> set ?utsas" for v
    proof -
      from that obtain ob where ob: "ob \<in> set items" "v = as_UTSA ob" by auto
      with listed [OF Inr] kind_UTSA have "ob = UTSAObj v" "store (ext w) (ref_of ob) = Some ob" by auto
      with clear show ?thesis by (auto simp: clear_host_def ref_of_def)
    qed
    with other_hosts_concat [OF star] have other: "host \<notin> set (other_hosts gw ?utsas)" by blast
    have gw: "gw \<in> {externalGatewayName, cloudSQLGatewayName}" using clear by (simp add: clear_host_def)
    have "safe (on_store store (owned_step gw host name)) (cleanupInternalHosts r ?utsas)"
      by (rule safe_mono [OF kinds_cleanupInternalHosts [OF r, of "{AuthorizationPolicyKind}"]])
        (auto simp: on_store_def owned_step_def intro: owned_frame [OF kube_api_axioms])
    with own_cleanup_hosts [OF r gw other]
    have "safe (on_store store (owned_step gw host name)) (go_seq (cleanupInternalHosts r ?utsas)
        (go_seq (cleanupExternalHosts al r ?utsas) (cleanupCloudSQLHosts al r ?utsas)))"
      by (intro own.safe_seq)
    moreover have "CleanupUnusedHosts al r w = go_seq (cleanupInternalHosts r ?utsas)
        (go_seq (cleanupExternalHosts al r ?utsas) (cleanupCloudSQLHosts al r ?utsas)) w1"
      using list Inr by (simp add: CleanupUnusedHosts_def r go_bind_def check_reply_def go_return_def Let_def)
    ultimately show ?thesis
      using clear same by (simp add: safe_def on_store_def owned_step_def clear_host_def)
  qed
  with utsas show "on_store store (keeps (clear_host gw host name) (clear_host gw host name)) w ?w'"
    by (auto simp: on_store_def keeps_def clear_host_def)
qed

lemma clear_reconcile_stages:
  assumes r: "ctlClient r = c" and persister: "allowlist_persister (ctlPersister r) store"
    and spec: "undisputed sas gw host name" and star: "gw \<noteq> externalGatewayName \<or> host \<noteq> ''*''"
  shows "safe (on_store store (keeps (clear_host gw host name) (clear_host gw host name)))
    (reconcile_stages r cfg env sas u)"
proof -
  have ir: "irClient (ctl_istio r) = c" and sar: "sarClient (ctl_accounts r cfg) = c"
    using r by (simp_all add: ctl_istio_def ctl_accounts_def)
  have s1: "safe (on_store store (keeps (clear_host gw host name) (clear_host gw host name))) (ctlPersister r u)"
    using persister by (rule allowlist_persister.persist_safe) (simp add: keeps_def)
  have sa: "sa_kinds \<inter> {UTSAKind, GatewayKind, VirtualServiceKind} = {}" by (simp add: sa_kinds_def)
  have policies: "{AuthorizationPolicyKind} \<inter> {UTSAKind, GatewayKind, VirtualServiceKind} = {}"
    and istio: "UTSAKind \<notin> istio_kinds" by simp_all
  note hosts = clear_owned [OF own_EnsureHosts(1) [OF ir spec] kinds_EnsureHosts(1) [OF ir] istio]
    clear_owned [OF own_EnsureHosts(2) [OF ir spec] kinds_EnsureHosts(2) [OF ir] istio]
  show ?thesis
    unfolding reconcile_stages_def reconcile_resources_def Let_def
    by (intro keeps.safe_seq s1 hosts clear_CleanupUnusedHosts [OF ir star]
        clear_kinds [OF kinds_CreateOrUpdateServiceAccounts [OF sar] sa]
        clear_kinds [OF kinds_CleanupRemovedServiceAccounts [OF sar] sa]
        clear_kinds [OF kinds_EnsureAuthorizationPolicies [OF ir insertI1] policies]
        clear_kinds [OF kinds_CleanupPolicies(1) [OF ir insertI1] policies])
qed

end

context kube_fresh
begin

lemma Reconcile_clear:
  assumes r: "ctlClient r = c" and F: "finalizer_util (ctlFinalizers r)"
    and persister: "allowlist_persister (ctlPersister r) store"
    and cfg: "ctlUnionConfig r = Some cfg"
    and stored: "store (ext w) (UTSAKind, req) = Some (UTSAObj utsa)"
    and live: "Time_IsZero (metaDeletionTimestamp (utsaMeta utsa))"
    and kinds: "ctlObjectKinds r utsa = Inr (gvk # gvks)"
    and run: "Reconcile r req w = (res, w')"
    and sas: "sas = map (mkServiceAccount (union_env cfg gvk utsa)) (specServiceAccounts (utsaSpec utsa))"
    and spec: "undisputed sas gw host name"
    and clear: "clear_host gw host name (store (ext w))"
  shows "clear_host gw host name (store (ext w'))"
  using r cfg stored kinds
proof (cases rule: Reconcile_found)
  case (failed e w1)
  with run clear show ?thesis by simp
next
  case (found w1)
  have run': "go_bind (ensure_finalizer r utsa) (reconcile_stages r cfg (union_env cfg gvk utsa) sas) w1 = (res, w')"
    using run found(2) live sas by simp
  obtain res2 w2 where fin: "ensure_finalizer r utsa w1 = (res2, w2)" by (cases "ensure_finalizer r utsa w1")
  have star: "gw \<noteq> externalGatewayName \<or> host \<noteq> ''*''"
  proof -
    have "host \<notin> set (other_hosts gw [utsa])" using clear stored unfolding clear_host_def by blast
    then show ?thesis by (auto simp: other_hosts_def cloudsql_hosts_in_use_def)
  qed
  let ?u = "fAdd (ctlFinalizers r) utsa unionFinalizer"
  note sel = finalizer_util.add_sel [OF F, where u = utsa and f = unionFinalizer]
  have ref: "ref_of (UTSAObj ?u) = (UTSAKind, req)"
    using store_ref [OF stored] sel by (simp add: ref_of_def)
  then have "safe (on_store store (same_off {(UTSAKind, req)})) (ensure_finalizer r utsa)"
    unfolding ensure_finalizer_def by (auto intro!: frame_update_utsa [OF r])
  from safeD [OF this fin] have off: "same_off {(UTSAKind, req)} (store (ext w1)) (store (ext w2))"
    by (simp add: on_store_def)
  have "\<not> removable (UTSAObj ?u)" using sel(5) by (auto simp: removable_def)
  then have "safe (on_store store (\<lambda>m m'. utsa_kept req utsa m \<longrightarrow> utsa_kept req utsa m')) (update_utsa r ?u)"
    by (intro update_utsa_keeps [OF r]) (simp_all add: sel ref)
  then have "safe (on_store store (\<lambda>m m'. utsa_kept req utsa m \<longrightarrow> utsa_kept req utsa m')) (ensure_finalizer r utsa)"
    unfolding ensure_finalizer_def by (auto simp: safe_def on_store_def go_return_def)
  from safeD [OF this fin] have kept: "utsa_kept req utsa (store (ext w2))"
    using stored found(1) by (simp add: on_store_def utsa_kept_def)
  have own2: "owned gw host name (store (ext w2))"
    by (rule owned_frame [OF kube_api_axioms same_off_mono [OF off], of "{UTSAKind}"])
      (use clear found(1) in \<open>auto simp: clear_host_def\<close>)
  have "host \<notin> set (other_hosts gw [v])" if v: "store (ext w2) (UTSAKind, key) = Some (UTSAObj v)" for key v
  proof (cases "key = req")
    case True
    with v kept have "utsaSpec v = utsaSpec utsa" by (auto simp: utsa_kept_def)
    with other_hosts_spec clear stored show ?thesis by (metis clear_host_def)
  next
    case False
    then have "store (ext w2) (UTSAKind, key) = store (ext w1) (UTSAKind, key)" by (intro same_offD [OF off]) simp
    with v found(1) have "store (ext w) (UTSAKind, key) = Some (UTSAObj v)" by simp
    with clear show ?thesis unfolding clear_host_def by blast
  qed
  with own2 clear have clear2: "clear_host gw host name (store (ext w2))" unfolding clear_host_def by blast
  show ?thesis
  proof (cases res2)
    case (Ok u)
    have "reconcile_stages r cfg (union_env cfg gvk utsa) sas u w2 = (res, w')"
      using run' fin Ok by (simp add: go_bind_def)
    from safeD [OF clear_reconcile_stages [OF r persister spec star] this] clear2 show ?thesis
      by (simp add: on_store_def keeps_def)
  qed (use run' fin clear2 in \<open>simp_all add: go_bind_def\<close>)
qed

end

section \<open>Enough attempts settle the resource\<close>

definition hosts_clear :: "ServiceAccount list \<Rightarrow> contents \<Rightarrow> bool" where
  "hosts_clear sas m \<longleftrightarrow>
     (\<forall>h \<in> set (external_hosts sas). clear_host externalGatewayName (hostHost h) (Host_Name h) m)
   \<and> (\<forall>q \<in> set (cloudsql_hosts sas). clear_host cloudSQLGatewayName (CloudSQL_Host q) (CloudSQL_Name q) m)"

text \<open>Hosts with names of their own that nobody has on the other list are undisputed.\<close>

lemma clear_undisputed:
  assumes sas: "sas = map (mkServiceAccount env) (specServiceAccounts (utsaSpec utsa))"
    and names: "names_distinct (host_names sas)" and host: "(host, name) \<in> set (host_names sas)"
    and stored: "m (UTSAKind, key) = Some (UTSAObj utsa)" and clear: "clear_host gw host name m"
  shows "undisputed sas gw host name"
proof -
  have "host \<notin> set (other_hosts gw [utsa])" using clear stored unfolding clear_host_def by blast
  then have other: "gw = externalGatewayName \<Longrightarrow> host \<notin> set (cloudsql_hosts_in_use [utsa])"
    "gw \<noteq> externalGatewayName \<Longrightarrow> host \<notin> set (external_hosts_in_use [utsa])"
    by (simp_all add: other_hosts_def)
  have gw: "gw = externalGatewayName \<or> gw = cloudSQLGatewayName" using clear by (auto simp: clear_host_def)
  have same: "host' = host" if "(host', name) \<in> set (host_names sas)" for host'
    using names host that unfolding names_distinct_def by blast
  have "hostHost h = host" if "h \<in> set (external_hosts sas)" "Host_Name h = name" for h
    using that by (intro same) (auto simp: host_names_def)
  moreover have "CloudSQL_Host q = host" if "q \<in> set (cloudsql_hosts sas)" "CloudSQL_Name q = name" for q
    using that by (intro same) (auto simp: host_names_def)
  ultimately show ?thesis
    using other gw hosts_in_use [OF sas] by (fastforce simp: undisputed_def gateways_differ)
qed

lemma hosts_clear_env:
  "hosts_clear (map (mkServiceAccount u) as) m = hosts_clear (map (mkServiceAccount v) as) m"
  by (simp add: hosts_clear_def external_hosts_def cloudsql_hosts_def comp_def)

lemma hosts_env:
  "external_hosts (map (mkServiceAccount u) as) = external_hosts (map (mkServiceAccount v) as)"
  "cloudsql_hosts (map (mkServiceAccount u) as) = cloudsql_hosts (map (mkServiceAccount v) as)"
  by (simp_all add: external_hosts_def cloudsql_hosts_def comp_def)

context kube_fresh
begin

lemma Reconcile_hosts_clear:
  assumes r: "ctlClient r = c" and F: "finalizer_util (ctlFinalizers r)"
    and persister: "allowlist_persister (ctlPersister r) store"
    and cfg: "ctlUnionConfig r = Some cfg"
    and stored: "store (ext w) (UTSAKind, req) = Some (UTSAObj utsa)"
    and live: "Time_IsZero (metaDeletionTimestamp (utsaMeta utsa))"
    and kinds: "ctlObjectKinds r utsa = Inr (gvk # gvks)"
    and run: "Reconcile r req w = (res, w')"
    and sas: "sas = map (mkServiceAccount (union_env cfg gvk utsa)) (specServiceAccounts (utsaSpec utsa))"
    and names: "names_distinct (host_names sas)" and clear: "hosts_clear sas (store (ext w))"
  shows "hosts_clear sas (store (ext w'))"
proof -
  have "clear_host gw host name (store (ext w'))"
    if "(host, name) \<in> set (host_names sas)" "clear_host gw host name (store (ext w))" for gw host name
    by (rule Reconcile_clear [OF r F persister cfg stored live kinds run sas
        clear_undisputed [OF sas names that(1) stored that(2)] that(2)])
  with clear show ?thesis by (auto simp: hosts_clear_def host_names_def)
qed

lemma Reconcile_hosts_reached:
  assumes r: "ctlClient r = c" and F: "finalizer_util (ctlFinalizers r)"
    and persister: "allowlist_persister (ctlPersister r) store"
    and cfg: "ctlUnionConfig r = Some cfg"
    and stored: "store (ext w) (UTSAKind, req) = Some (UTSAObj utsa)"
    and live: "Time_IsZero (metaDeletionTimestamp (utsaMeta utsa))"
    and kinds: "ctlObjectKinds r utsa = Inr (gvk # gvks)"
    and run: "Reconcile r req w = (Ok (), w')"
    and sas: "sas = map (mkServiceAccount (union_env cfg gvk utsa)) (specServiceAccounts (utsaSpec utsa))"
    and names: "names_distinct (host_names sas)" and clear: "hosts_clear sas (store (ext w))"
  shows "\<forall>h \<in> set (external_hosts sas). external_ready h (store (ext w'))"
    and "\<forall>q \<in> set (cloudsql_hosts sas). cloudsql_ready q (store (ext w'))"
proof -
  note spec = clear_undisputed [OF sas names, where m = "store (ext w)" and key = req]
  note ready = Reconcile_hosts_ready [of r store, unfolded r, OF kube_fresh_axioms F persister cfg stored live kinds run sas]
  show "\<forall>h \<in> set (external_hosts sas). external_ready h (store (ext w'))"
    and "\<forall>q \<in> set (cloudsql_hosts sas). cloudsql_ready q (store (ext w'))"
    using ready clear spec stored by (auto simp: hosts_clear_def host_names_def clear_host_def)
qed

end

lemma utsa_kept_live:
  assumes "utsa_kept req utsa m" and "Time_IsZero (metaDeletionTimestamp (utsaMeta utsa))"
  obtains u where "m (UTSAKind, req) = Some (UTSAObj u)" "utsaSpec u = utsaSpec utsa"
    "Time_IsZero (metaDeletionTimestamp (utsaMeta u))"
  using assms by (auto simp: utsa_kept_def split: option.splits)

context kube_fresh
begin

text \<open>The same for the resource as it was when the attempts began.\<close>

lemma attempt_hosts:
  assumes r: "ctlClient r = c" and F: "finalizer_util (ctlFinalizers r)"
    and persister: "allowlist_persister (ctlPersister r) store"
    and cfg: "ctlUnionConfig r = Some cfg" and kinds: "\<And>u. ctlObjectKinds r u = Inr (gvk # gvks)"
    and live: "Time_IsZero (metaDeletionTimestamp (utsaMeta utsa))"
    and sas: "sas = map (mkServiceAccount (union_env cfg gvk utsa)) (specServiceAccounts (utsaSpec utsa))"
    and names: "names_distinct (host_names sas)"
    and start: "utsa_kept req utsa (store (ext w))" "hosts_clear sas (store (ext w))"
    and run: "Reconcile r req w = (res, w')"
  shows "hosts_clear sas (store (ext w'))"
    and "res = Ok () \<Longrightarrow> \<forall>h \<in> set (external_hosts sas). external_ready h (store (ext w'))"
    and "res = Ok () \<Longrightarrow> \<forall>q \<in> set (cloudsql_hosts sas). cloudsql_ready q (store (ext w'))"
proof -
  obtain u where u: "store (ext w) (UTSAKind, req) = Some (UTSAObj u)" "utsaSpec u = utsaSpec utsa"
    "Time_IsZero (metaDeletionTimestamp (utsaMeta u))" using start(1) live by (rule utsa_kept_live)
  let ?sas = "map (mkServiceAccount (union_env cfg gvk u)) (specServiceAccounts (utsaSpec u))"
  have env: "hosts_clear ?sas = hosts_clear sas" "host_names ?sas = host_names sas"
    "external_hosts ?sas = external_hosts sas" "cloudsql_hosts ?sas = cloudsql_hosts sas"
    unfolding sas u(2) by (rule ext, rule hosts_clear_env, rule host_names_env, (rule hosts_env)+)
  note hyps = r F persister cfg u(1,3) kinds
  show "hosts_clear sas (store (ext w'))"
    using Reconcile_hosts_clear [OF hyps run refl] names start(2) by (simp only: env)
  show "res = Ok () \<Longrightarrow> \<forall>h \<in> set (external_hosts sas). external_ready h (store (ext w'))"
    and "res = Ok () \<Longrightarrow> \<forall>q \<in> set (cloudsql_hosts sas). cloudsql_ready q (store (ext w'))"
    using Reconcile_hosts_reached [OF hyps _ refl, unfolded env, OF _ names start(2)] run by blast+
qed

end

text \<open>
  C2. The operator settles: on servers that answer except for outages, with at most one
  more attempt for each outage a reconciliation of a live resource returns without error;
  then every service account of the resource has its identities and bindings, every
  external host and Cloud SQL address it allows is served by its gateway and has its
  resources, and the resource carries the finalizer. The hosts must have names of their
  own that nothing in the cluster disputes, the protocols of the on-premises hosts must be
  known, the cluster must be ready for the hosts, and the servers must accept objects in
  the namespaces of the resource, of its environment and of the egress.
\<close>

theorem Reconcile_settles:
  assumes "kube_serves (ctlClient r) store outages accepts" and "finalizer_util (ctlFinalizers r)"
    and "persister_serves (ctlPersister r) store outages"
    and "ctlUnionConfig r = Some cfg" and "\<And>u. ctlObjectKinds r u = Inr (gvk # gvks)"
    and "\<And>ob. namespace_of ob \<in> {fst req, Namespace (union_env cfg gvk utsa), EgressNamespace} \<Longrightarrow> accepts ob"
    and "protocols_known (ctlOnpremHosts r)"
    and "store (ext w) (UTSAKind, req) = Some (UTSAObj utsa)"
    and "Time_IsZero (metaDeletionTimestamp (utsaMeta utsa))"
    and "sas = map (mkServiceAccount (union_env cfg gvk utsa)) (specServiceAccounts (utsaSpec utsa))"
    and "names_distinct (host_names sas)" and "cluster_ready sas (store (ext w))"
    and "hosts_clear sas (store (ext w))"
  shows "\<exists>w' u. attempts (outages (ext w)) (Reconcile r req) w = (Ok (), w')
    \<and> ref_of (UTSAObj u) = (UTSAKind, req) \<and> utsaSpec u = utsaSpec utsa
    \<and> (\<forall>a \<in> set (specServiceAccounts (utsaSpec utsa)).
         account_provisioned (ctl_accounts r cfg) (mkServiceAccount (union_env cfg gvk u) a) (store (ext w')))
    \<and> (\<forall>h \<in> set (external_hosts sas). external_ready h (store (ext w')))
    \<and> (\<forall>q \<in> set (cloudsql_hosts sas). cloudsql_ready q (store (ext w')))
    \<and> (\<exists>u'. store (ext w') (UTSAKind, req) = Some (UTSAObj u') \<and> holds_finalizer u'
         \<and> utsaSpec u' = utsaSpec utsa)"
proof -
  note fresh = kube_serves.axioms(1) [OF assms(1)] and audit = persister_serves.axioms(1) [OF assms(3)]
  note attempt = kube_serves.Reconcile_attempt_live [OF assms(1) refl assms(2-7,10,11,9)]
  note hosts = kube_fresh.attempt_hosts [OF fresh refl assms(2) audit assms(4,5,9-11)]
  let ?I = "\<lambda>m. utsa_kept req utsa m \<and> cluster_ready sas m \<and> hosts_clear sas m"
  obtain w' w1 where run: "attempts (outages (ext w)) (Reconcile r req) w = (Ok (), w')"
    and kept: "?I (store (ext w1))" and last: "Reconcile r req w1 = (Ok (), w')"
  proof (rule attempts_Ok [of ?I store "Reconcile r req" outages w "outages (ext w)"])
    show "?I (store (ext w'))" if "?I (store (ext w))" "Reconcile r req w = (res, w')" for w res w'
      using attempt(2,3) hosts(1) that by blast
    show "outages (ext w') < outages (ext w) \<or> (\<exists>x. res = Ok x)"
      if "?I (store (ext w))" "Reconcile r req w = (res, w')" for w res w'
      using attempt(1) that by blast
    show "?I (store (ext w))" using assms(8,12,13) by (simp add: utsa_kept_def)
  qed (use that in auto)
  from kept assms(9) obtain u where u: "store (ext w1) (UTSAKind, req) = Some (UTSAObj u)"
    "utsaSpec u = utsaSpec utsa" "Time_IsZero (metaDeletionTimestamp (utsaMeta u))"
    by (blast elim: utsa_kept_live)
  note live = kube_fresh.Reconcile_live [OF fresh refl assms(2) audit assms(4) u(1,3) assms(5) last]
  have "ref_of (UTSAObj u) = (UTSAKind, req)"
    using kube_api.store_ref [OF kube_fresh.axioms(1) [OF fresh] u(1)] .
  moreover have "\<forall>h \<in> set (external_hosts sas). external_ready h (store (ext w'))"
    "\<forall>q \<in> set (cloudsql_hosts sas). cloudsql_ready q (store (ext w'))"
    using hosts(2,3) [OF _ _ last refl] kept by simp_all
  ultimately show ?thesis using run live(1,2) u(2) by auto
qed

theorem Reconcile_settles_witness:
  "\<exists>w'. attempts 2 (Reconcile example_ctl (''union'', ''team''))
     (faulty_world [None, Some ''timeout'', None, None, None, Some ''unavailable'']
       [UTSAObj (example_resource [example_member] [] None)]) = (Ok (), w')
   \<and> external_ready \<lparr>hostHost = ''vg.no'', hostPaths = []\<rparr> (mem_store (ext w'))
   \<and> (\<exists>u'. mem_store (ext w') (UTSAKind, (''union'', ''team'')) = Some (UTSAObj u') \<and> holds_finalizer u')"
proof -
  let ?u = "example_resource [example_member] [] None" and ?req = "(''union'', ''team'')"
  let ?w = "faulty_world [None, Some ''timeout'', None, None, None, Some ''unavailable''] [UTSAObj ?u]"
  have outages: "mem_outages (ext ?w) = 2" by (simp add: mem_outages_def faulty_world_def)
  have store: "mem_store (ext ?w) = [(UTSAKind, ?req) \<mapsto> UTSAObj ?u]"
    by (rule faulty_store) (simp_all add: removable_def example_resource_def)
  have live: "Time_IsZero (metaDeletionTimestamp (utsaMeta ?u))"
    by (simp add: example_resource_def Time_IsZero_def)
  have hosts: "external_hosts (example_accounts ?u) = [\<lparr>hostHost = ''vg.no'', hostPaths = []\<rparr>]"
    "cloudsql_hosts (example_accounts ?u) = []"
    by (simp_all add: example_accounts_def example_resource_def example_member_def mkServiceAccount_def
        external_hosts_def cloudsql_hosts_def)
  have "other_hosts externalGatewayName [?u] = [''*'']"
    by (simp add: other_hosts_def cloudsql_hosts_in_use_def example_resource_def example_member_def)
  then have "hosts_clear (example_accounts ?u) [(UTSAKind, ?req) \<mapsto> UTSAObj ?u]"
    by (simp add: hosts_clear_def hosts clear_host_def owned_def)
  with Reconcile_settles [OF example_ctl_serves(1) example_ctl_ok(2) example_ctl_serves(2-4) _
      example_ctl_serves(5) _ live example_accounts_def, where req = ?req and w = ?w] example_ready
  show ?thesis unfolding outages store hosts by auto
qed

end
