(* ===== verification/Schemes.thy ===== *)
theory Schemes
  imports Controller
begin

text \<open>
  The registration of Go types: the package variables and \<^verbatim>\<open>init\<close> functions of
  \<^verbatim>\<open>api/v1alpha1\<close>, \<^verbatim>\<open>internal/types\<close> and \<^verbatim>\<open>cmd/main.go\<close>, which build the scheme the client
  looks types up in before \<^verbatim>\<open>main\<close> runs.

  The scheme, the scheme builder, \<^verbatim>\<open>utilruntime.Must\<close> and the registrations of client-go and
  Istio are third-party code, fields of the record \<open>scheme_lib\<close>; the locale
  \<open>scheme_library\<close> states what is documented of them.
\<close>

section \<open>Groups, versions and Go types\<close>

record GroupVersion =
  gvGroup :: string
  gvVersion :: string

text \<open>A struct type of Go, by the path of its package and its name.\<close>

record go_type =
  tpPackage :: string
  tpName :: string

record ('b, 's) scheme_lib =
  slMust :: "goerror option \<Rightarrow> unit res"
  slBuilder :: "GroupVersion \<Rightarrow> 'b"
  slRegister :: "'b \<Rightarrow> go_type list \<Rightarrow> 'b"
  slAddToScheme :: "'b \<Rightarrow> 's \<Rightarrow> goerror option \<times> 's"
  slNewScheme :: 's
  slClientGo :: "'s \<Rightarrow> goerror option \<times> 's"
  slIstio :: "'s \<Rightarrow> goerror option \<times> 's"
  slIstioSecurity :: "'s \<Rightarrow> goerror option \<times> 's"
  slObjectKinds :: "'s \<Rightarrow> go_type \<Rightarrow> goerror + (GroupVersion \<times> string) list"
  slString :: "GroupVersion \<Rightarrow> string"

section \<open>The packages that define resources\<close>

definition v1alpha1_GroupVersion :: GroupVersion where
  "v1alpha1_GroupVersion = \<lparr>gvGroup = ''data.nav.no'', gvVersion = ''v1alpha1''\<rparr>"

definition v1alpha1_type :: "string \<Rightarrow> go_type" where
  "v1alpha1_type name = \<lparr>tpPackage = ''github.com/navikt/union-operator/api/v1alpha1'', tpName = name\<rparr>"

definition v1alpha1_SchemeBuilder :: "('b, 's) scheme_lib \<Rightarrow> 'b" where
  "v1alpha1_SchemeBuilder L = slBuilder L v1alpha1_GroupVersion"

definition v1alpha1_init :: "('b, 's) scheme_lib \<Rightarrow> 'b \<Rightarrow> 'b" where
  "v1alpha1_init L builder = slRegister L builder
     [v1alpha1_type ''UnionTeamServiceAccounts'', v1alpha1_type ''UnionTeamServiceAccountsList'']"

definition v1alpha1_AddToScheme :: "('b, 's) scheme_lib \<Rightarrow> 'b \<Rightarrow> 's \<Rightarrow> goerror option \<times> 's" where
  "v1alpha1_AddToScheme L builder = slAddToScheme L builder"

definition types_GroupVersion :: GroupVersion where
  "types_GroupVersion = \<lparr>gvGroup = ''iam.cnrm.cloud.google.com'', gvVersion = ''v1beta1''\<rparr>"

definition types_type :: "string \<Rightarrow> go_type" where
  "types_type name = \<lparr>tpPackage = ''github.com/navikt/union-operator/internal/types'', tpName = name\<rparr>"

definition types_SchemeBuilder :: "('b, 's) scheme_lib \<Rightarrow> 'b" where
  "types_SchemeBuilder L = slBuilder L types_GroupVersion"

definition types_init :: "('b, 's) scheme_lib \<Rightarrow> 'b \<Rightarrow> 'b" where
  "types_init L builder = slRegister L builder
     [types_type ''IAMPolicyMember'', types_type ''IAMPolicyMemberList'',
      types_type ''IAMServiceAccount'', types_type ''IAMServiceAccountList'']"

definition types_AddToScheme :: "('b, 's) scheme_lib \<Rightarrow> 'b \<Rightarrow> 's \<Rightarrow> goerror option \<times> 's" where
  "types_AddToScheme L builder = slAddToScheme L builder"

section \<open>The scheme of the manager\<close>

definition must_add :: "('b, 's) scheme_lib \<Rightarrow> ('s \<Rightarrow> goerror option \<times> 's) \<Rightarrow> ('s, unit) go" where
  "must_add L add = (\<lambda>s. case add s of (err, s') \<Rightarrow> (slMust L err, s'))"

text \<open>
  The \<^verbatim>\<open>AddToScheme\<close> of the two packages are method values of the builders behind the
  pointers, so they add what is registered by the time they are called.
\<close>

definition main_init :: "('b, 's) scheme_lib \<Rightarrow> 'b \<Rightarrow> 'b \<Rightarrow> ('s, unit) go" where
  "main_init L datanavnov1 uniontypes =
     go_seq (must_add L (slClientGo L))
    (go_seq (must_add L (v1alpha1_AddToScheme L datanavnov1))
    (go_seq (must_add L (slIstio L))
    (go_seq (must_add L (slIstioSecurity L))
            (must_add L (types_AddToScheme L uniontypes)))))"

text \<open>
  Loading the program: Go initializes the imported packages, variables before \<^verbatim>\<open>init\<close>, and
  the package \<^verbatim>\<open>main\<close> last.
\<close>

definition load_scheme :: "('b, 's) scheme_lib \<Rightarrow> unit res \<times> 's" where
  "load_scheme L =
     (let datanavnov1 = v1alpha1_init L (v1alpha1_SchemeBuilder L);
          uniontypes = types_init L (types_SchemeBuilder L) in
      main_init L datanavnov1 uniontypes (slNewScheme L))"

text \<open>\<^verbatim>\<open>r.Scheme.ObjectKinds(utsa)\<close>, with \<^verbatim>\<open>GroupVersion().String()\<close> of each answer.\<close>

definition utsa_kinds ::
    "('b, 's) scheme_lib \<Rightarrow> 's \<Rightarrow> UnionTeamServiceAccounts \<Rightarrow> goerror + GroupVersionKind list" where
  "utsa_kinds L s utsa =
     (case slObjectKinds L s (v1alpha1_type ''UnionTeamServiceAccounts'') of
        Inl e \<Rightarrow> Inl e
      | Inr gvks \<Rightarrow> Inr (map (\<lambda>(gv, kind).
          \<lparr>gvkGroupVersion = slString L gv, gvkKind = kind\<rparr>) gvks))"

section \<open>The types of the objects the operator handles\<close>

abbreviation istio_package :: string where
  "istio_package \<equiv> ''istio.io/client-go/pkg/apis/networking/v1beta1''"

abbreviation istio_security_package :: string where
  "istio_security_package \<equiv> ''istio.io/client-go/pkg/apis/security/v1beta1''"

abbreviation core_package :: string where
  "core_package \<equiv> ''k8s.io/api/core/v1''"

abbreviation meta_package :: string where
  "meta_package \<equiv> ''k8s.io/apimachinery/pkg/apis/meta/v1''"

definition istio_GroupVersion :: GroupVersion where
  "istio_GroupVersion = \<lparr>gvGroup = ''networking.istio.io'', gvVersion = ''v1beta1''\<rparr>"

definition istio_security_GroupVersion :: GroupVersion where
  "istio_security_GroupVersion = \<lparr>gvGroup = ''security.istio.io'', gvVersion = ''v1beta1''\<rparr>"

definition core_GroupVersion :: GroupVersion where
  "core_GroupVersion = \<lparr>gvGroup = [], gvVersion = ''v1''\<rparr>"

fun kind_name :: "kind \<Rightarrow> string" where
  "kind_name UTSAKind = ''UnionTeamServiceAccounts''"
| "kind_name ServiceAccountKind = ''ServiceAccount''"
| "kind_name IAMServiceAccountKind = ''IAMServiceAccount''"
| "kind_name IAMPolicyMemberKind = ''IAMPolicyMember''"
| "kind_name GatewayKind = ''Gateway''"
| "kind_name ServiceEntryKind = ''ServiceEntry''"
| "kind_name VirtualServiceKind = ''VirtualService''"
| "kind_name DestinationRuleKind = ''DestinationRule''"
| "kind_name AuthorizationPolicyKind = ''AuthorizationPolicy''"

fun kind_type :: "kind \<Rightarrow> string \<Rightarrow> go_type" where
  "kind_type UTSAKind name = v1alpha1_type name"
| "kind_type ServiceAccountKind name = \<lparr>tpPackage = core_package, tpName = name\<rparr>"
| "kind_type IAMServiceAccountKind name = types_type name"
| "kind_type IAMPolicyMemberKind name = types_type name"
| "kind_type AuthorizationPolicyKind name = \<lparr>tpPackage = istio_security_package, tpName = name\<rparr>"
| "kind_type _ name = \<lparr>tpPackage = istio_package, tpName = name\<rparr>"

fun kind_GroupVersion :: "kind \<Rightarrow> GroupVersion" where
  "kind_GroupVersion UTSAKind = v1alpha1_GroupVersion"
| "kind_GroupVersion ServiceAccountKind = core_GroupVersion"
| "kind_GroupVersion IAMServiceAccountKind = types_GroupVersion"
| "kind_GroupVersion IAMPolicyMemberKind = types_GroupVersion"
| "kind_GroupVersion AuthorizationPolicyKind = istio_security_GroupVersion"
| "kind_GroupVersion _ = istio_GroupVersion"

text \<open>The names a client needs of a kind: of its objects and of lists of them.\<close>

definition type_names :: "kind \<Rightarrow> string set" where
  "type_names k = {kind_name k, kind_name k @ ''List''}"

section \<open>What the libraries promise\<close>

text \<open>
  \<open>known s t\<close> are the kinds under which a scheme knows a type. A registration adds
  one kind to the types of the given names in a package, and touches only the types of
  some packages: the package itself and the common metadata types.
\<close>

definition registers ::
    "('s \<Rightarrow> go_type \<Rightarrow> (GroupVersion \<times> string) list) \<Rightarrow> (go_type \<Rightarrow> bool) \<Rightarrow> GroupVersion
       \<Rightarrow> (string \<Rightarrow> bool) \<Rightarrow> ('s \<Rightarrow> goerror option \<times> 's) \<Rightarrow> bool" where
  "registers known adds gv touched add \<longleftrightarrow> (\<forall>s s'. add s = (None, s') \<longrightarrow> (\<forall>t.
     (adds t \<longrightarrow> known s t = [] \<longrightarrow> known s' t = [(gv, tpName t)])
     \<and> (\<not> adds t \<longrightarrow> \<not> touched (tpPackage t) \<longrightarrow> known s' t = known s t)))"

locale scheme_library =
  fixes L :: "('b, 's) scheme_lib" and group :: "'b \<Rightarrow> GroupVersion" and content :: "'b \<Rightarrow> go_type list"
    and known :: "'s \<Rightarrow> go_type \<Rightarrow> (GroupVersion \<times> string) list"
  assumes must: "slMust L None = Ok ()" "slMust L (Some e) = Panic"
    and builder: "group (slBuilder L gv) = gv" "content (slBuilder L gv) = []"
    and register: "group (slRegister L b ts) = group b" "content (slRegister L b ts) = content b @ ts"
    and new: "known (slNewScheme L) t = []"
    and add: "registers known (\<lambda>t. t \<in> set (content b)) (group b) (\<lambda>p. p = meta_package) (slAddToScheme L b)"
    and client_go: "registers known
      (\<lambda>t. tpPackage t = core_package \<and> tpName t \<in> type_names ServiceAccountKind) core_GroupVersion
      (\<lambda>p. take 7 p = ''k8s.io/'') (slClientGo L)"
    and istio: "registers known
      (\<lambda>t. tpPackage t = istio_package \<and> (\<exists>k \<in> {GatewayKind, ServiceEntryKind, VirtualServiceKind, DestinationRuleKind}.
         tpName t \<in> type_names k)) istio_GroupVersion
      (\<lambda>p. p \<in> {istio_package, meta_package}) (slIstio L)"
    and istio_security: "registers known
      (\<lambda>t. tpPackage t = istio_security_package \<and> tpName t \<in> type_names AuthorizationPolicyKind)
      istio_security_GroupVersion (\<lambda>p. p \<in> {istio_security_package, meta_package}) (slIstioSecurity L)"
    and object_kinds: "known s t \<noteq> [] \<Longrightarrow> slObjectKinds L s t = Inr (known s t)"
    and string: "gvGroup gv \<noteq> [] \<Longrightarrow> slString L gv = gvGroup gv @ ''/'' @ gvVersion gv"

begin

lemma type_sel [simp]: "tpName (v1alpha1_type name) = name" "tpName (types_type name) = name"
  by (simp_all add: v1alpha1_type_def types_type_def)

lemma must_add_Ok: "must_add L f s = (Ok (), s') \<Longrightarrow> f s = (None, s')"
  using must by (auto simp: must_add_def split: prod.splits) (metis not_None_eq res.distinct(3))

lemma must_add_failed: "f s = (Some e, s') \<Longrightarrow> must_add L f s = (Panic, s')"
  using must by (simp add: must_add_def)

lemma registers_keep:
  "registers known adds gv touched f \<Longrightarrow> f s = (None, s') \<Longrightarrow> \<not> adds t \<Longrightarrow> \<not> touched (tpPackage t)
     \<Longrightarrow> known s' t = known s t"
  unfolding registers_def by blast

lemma registers_add:
  "registers known adds gv touched f \<Longrightarrow> f s = (None, s') \<Longrightarrow> adds t \<Longrightarrow> known s t = []
     \<Longrightarrow> known s' t = [(gv, tpName t)]"
  unfolding registers_def by blast

lemma load_steps:
  assumes "load_scheme L = (Ok (), s)"
  obtains s1 s2 s3 s4 where
    "slClientGo L (slNewScheme L) = (None, s1)"
    "slAddToScheme L (v1alpha1_init L (v1alpha1_SchemeBuilder L)) s1 = (None, s2)"
    "slIstio L s2 = (None, s3)" "slIstioSecurity L s3 = (None, s4)"
    "slAddToScheme L (types_init L (types_SchemeBuilder L)) s4 = (None, s)"
  using assms unfolding load_scheme_def main_init_def v1alpha1_AddToScheme_def types_AddToScheme_def Let_def
  by (blast elim: go_seq_OkE dest: must_add_Ok)

lemma load_known:
  assumes load: "load_scheme L = (Ok (), s)" and name: "name \<in> type_names k"
  shows "known s (kind_type k name) = [(kind_GroupVersion k, name)]"
proof -
  from load obtain s1 s2 s3 s4 where steps:
    "slClientGo L (slNewScheme L) = (None, s1)"
    "slAddToScheme L (v1alpha1_init L (v1alpha1_SchemeBuilder L)) s1 = (None, s2)"
    "slIstio L s2 = (None, s3)" "slIstioSecurity L s3 = (None, s4)"
    "slAddToScheme L (types_init L (types_SchemeBuilder L)) s4 = (None, s)" by (rule load_steps)
  have b1: "group (v1alpha1_init L (v1alpha1_SchemeBuilder L)) = v1alpha1_GroupVersion"
    "set (content (v1alpha1_init L (v1alpha1_SchemeBuilder L))) = v1alpha1_type ` type_names UTSAKind"
    by (auto simp: v1alpha1_init_def v1alpha1_SchemeBuilder_def register builder type_names_def)
  have b2: "group (types_init L (types_SchemeBuilder L)) = types_GroupVersion"
    "set (content (types_init L (types_SchemeBuilder L)))
       = types_type ` (type_names IAMPolicyMemberKind \<union> type_names IAMServiceAccountKind)"
    by (auto simp: types_init_def types_SchemeBuilder_def register builder type_names_def)
  let ?t = "kind_type k name" and ?net = "{GatewayKind, ServiceEntryKind, VirtualServiceKind, DestinationRuleKind}"
  have new': "known (slNewScheme L) ?t = []" by (rule new)
  have type: "tpName ?t = name" by (cases k) simp_all
  have own: "?t \<in> v1alpha1_type ` N \<longleftrightarrow> k = UTSAKind \<and> name \<in> N"
      "?t \<in> types_type ` N \<longleftrightarrow> k \<in> {IAMPolicyMemberKind, IAMServiceAccountKind} \<and> name \<in> N" for N
    by (cases k; auto simp: v1alpha1_type_def types_type_def)+
  have package: "tpPackage ?t = core_package \<longleftrightarrow> k = ServiceAccountKind"
      "take 7 (tpPackage ?t) = ''k8s.io/'' \<longleftrightarrow> k = ServiceAccountKind"
      "tpPackage ?t = istio_package \<longleftrightarrow> k \<in> ?net"
      "tpPackage ?t = istio_security_package \<longleftrightarrow> k = AuthorizationPolicyKind"
      "tpPackage ?t \<noteq> meta_package"
    by (cases k; simp add: v1alpha1_type_def types_type_def)+
  have k1: "known s1 ?t = (if k = ServiceAccountKind then [(core_GroupVersion, name)] else [])"
    using registers_add [OF client_go steps(1) _ new'] registers_keep [OF client_go steps(1), of ?t] new' name
    by (auto simp: package type)
  have k2: "known s2 ?t = (if k = UTSAKind then [(v1alpha1_GroupVersion, name)] else known s1 ?t)"
    using registers_add [OF add steps(2), of ?t] registers_keep [OF add steps(2), of ?t] k1 name
    by (auto simp: b1 own package type)
  have k3: "known s3 ?t = (if k \<in> ?net then [(istio_GroupVersion, name)] else known s2 ?t)"
    using registers_add [OF istio steps(3), of ?t] registers_keep [OF istio steps(3), of ?t] k1 k2 name
    by (auto simp: package type)
  have k4: "known s4 ?t = (if k = AuthorizationPolicyKind then [(istio_security_GroupVersion, name)] else known s3 ?t)"
    using registers_add [OF istio_security steps(4), of ?t] registers_keep [OF istio_security steps(4), of ?t]
      k1 k2 k3 name
    by (auto simp: package type)
  have k5: "known s ?t = (if k \<in> {IAMPolicyMemberKind, IAMServiceAccountKind} then [(types_GroupVersion, name)]
      else known s4 ?t)"
    using registers_add [OF add steps(5), of ?t] registers_keep [OF add steps(5), of ?t] k1 k2 k3 k4 name
    by (auto simp: b2 own package type)
  show ?thesis unfolding k5 k4 k3 k2 k1 by (cases k) simp_all
qed

end
section \<open>Typed calls\<close>

text \<open>
  Owner references are set on the objects in the team's namespace only; what the operator
  creates elsewhere has none.
\<close>

definition owned_by :: "GroupVersionKind \<Rightarrow> object \<Rightarrow> bool" where
  "owned_by gvk ob \<longleftrightarrow> (\<forall>owner \<in> set (metaOwnerReferences (meta_of ob)).
     ownerAPIVersion owner = gvkGroupVersion gvk \<and> ownerKind owner = gvkKind gvk)"

fun owned_call :: "GroupVersionKind \<Rightarrow> event \<Rightarrow> bool" where
  "owned_call gvk (ECreate ob r) \<longleftrightarrow> owned_by gvk ob"
| "owned_call gvk (EPatch ob base r) \<longleftrightarrow> owned_by gvk ob"
| "owned_call gvk (ECreateOrUpdate ob f r) \<longleftrightarrow> (\<forall>x y. f x = Ok y \<longrightarrow> owned_by gvk y)"
| "owned_call gvk _ \<longleftrightarrow> True"

lemma owned_bigquery: "is_bigquery e \<Longrightarrow> owned_call gvk e"
  by (cases e) auto

lemma union_object_owned:
  assumes "union_object (union_env cfg gvk utsa) ob"
  shows "owned_by gvk ob"
proof -
  from assms have "Ok (metaOwnerReferences (meta_of ob)) = OwnerReferences (union_env cfg gvk utsa)"
    by (simp add: union_object_def)
  then show ?thesis by (simp add: OwnerReferences_def union_env_def owned_by_def)
qed

lemma owned_sa_event: "sa_event (union_env cfg gvk utsa) e \<Longrightarrow> owned_call gvk e"
  by (cases e) (auto intro: union_object_owned)

lemma no_owners:
  "owned_by gvk (GatewayObj (newGateway gw h))"
  "owned_by gvk (ServiceEntryObj (newHTTPSServiceEntry host))" "owned_by gvk (ServiceEntryObj (newCloudSQLServiceEntry q))"
  "owned_by gvk (VirtualServiceObj (newVirtualServiceForExternalHost host))"
  "owned_by gvk (VirtualServiceObj (newVirtualServiceForCloudSQLHost q))"
  "owned_by gvk (DestinationRuleObj (newExternalHostDestinationRuleToGateway host))"
  "owned_by gvk (DestinationRuleObj (newExternalHostDestinationRuleFromGateway host))"
  "owned_by gvk (DestinationRuleObj (newCloudSQLDestinationRuleToGateway q))"
  "owned_by gvk (DestinationRuleObj (newCloudSQLDestinationRuleFromGateway q))"
  by (simp_all add: owned_by_def builder_defs)

lemma emits_owned_hosts:
  "emits (owned_call gvk) (EnsureExternalHosts r sas)"
  "emits (owned_call gvk) (EnsureCloudSQLHosts r sas)"
  unfolding EnsureExternalHosts_def EnsureCloudSQLHosts_def ensureExternalHost_def
    ensureCloudSQLHost_def ensure_defs Let_def
  by (rule stage_rules | simp add: no_owners)+

lemma policy_no_owners:
  "newAuthorizationPolicy sa apd parent protocol hostType = Ok ap \<Longrightarrow> owned_by gvk (AuthorizationPolicyObj ap)"
  by (auto simp: newAuthorizationPolicy_def Let_def owned_by_def split: if_splits res.splits)

lemma emits_owned_policies:
  "emits (owned_call gvk) (EnsureAuthorizationPolicies r sas)"
  "emits (owned_call gvk) (CleanupRemovedServiceAccountAuthzPolicies r utsa)"
  "emits (owned_call gvk) (IstioCleanup.CleanupAllResources r utsa)"
  unfolding EnsureAuthorizationPolicies_def ensure_internal_policies_def
    ensureAuthorizationPolicyForHost_def CleanupRemovedServiceAccountAuthzPolicies_def
    IstioCleanup.CleanupAllResources_def CleanupUTSAServiceAccountAuthzPolicies_def
    delete_policy_def Let_def
  by (rule stage_rules | simp add: policy_no_owners)+

lemma emits_owned_servers:
  "emits (owned_call gvk) (external_servers aliased r inUse is attached servers g)"
  "emits (owned_call gvk) (cloudsql_servers aliased r inUse is attached servers g)"
proof (induction "is" arbitrary: attached servers g)
  case (Cons i "is")
  have remove: "emits (owned_call gvk) (remove_unused r inUse hosts)" for hosts
    unfolding remove_unused_def removeExternalHost_def removeByHostLabel_def
    by (rule stage_rules | simp)+
  case 1
  show ?case
    unfolding external_servers.simps Let_def by (rule stage_rules remove Cons.IH | simp)+
  case 2
  show ?case
    unfolding cloudsql_servers.simps Let_def by (rule stage_rules remove Cons.IH | simp)+
qed simp_all

lemma emits_owned_stages:
  fixes u
  assumes u: "u = union_env cfg gvk utsa0" and persister: "\<And>utsa. emits is_bigquery (ctlPersister r utsa)"
  shows "emits (owned_call gvk) (reconcile_stages r cfg u (map (mkServiceAccount u) accounts) utsa)"
proof -
  have "emits (owned_call gvk) (CreateOrUpdateServiceAccounts (ctl_accounts r cfg) u (map (mkServiceAccount u) accounts))"
    "emits (owned_call gvk) (CleanupRemovedServiceAccounts (ctl_accounts r cfg) u (map (mkServiceAccount u) accounts))"
    using CreateOrUpdateServiceAccounts_emits emits_CleanupRemovedServiceAccounts unfolding u
    by (blast intro: emits_mono owned_sa_event)+
  moreover have "emits (owned_call gvk) (CleanupUnusedHosts aliased (ctl_istio r))" for aliased
    unfolding CleanupUnusedHosts_def cleanupExternalHosts_def cleanupCloudSQLHosts_def
      cleanupInternalHosts_def Let_def
    by (rule stage_rules emits_owned_servers | simp)+
  ultimately show ?thesis
    unfolding reconcile_stages_def reconcile_resources_def Let_def
    by (intro emits.safe_seq emits_owned_hosts emits_owned_policies
        emits_mono [OF persister owned_bigquery])
qed

lemma emits_owned_Reconcile:
  assumes kinds: "\<And>u. ctlObjectKinds r u = Inr [gvk]" and persister: "\<And>utsa. emits is_bigquery (ctlPersister r utsa)"
  shows "emits (owned_call gvk) (Reconcile r req)"
proof -
  have update: "emits (owned_call gvk) (update_utsa r u)" for u
    unfolding update_utsa_def by (rule stage_rules | simp)+
  have resource: "emits (owned_call gvk) (reconcile_deletion r utsa)"
      "emits (owned_call gvk) (ensure_finalizer r utsa)" for utsa
    unfolding reconcile_deletion_def ensure_finalizer_def by (rule stage_rules emits_owned_policies update)+
  show ?thesis
    unfolding Reconcile_def Let_def kinds sum.case list.case
    by (rule stage_rules resource emits_owned_stages [OF refl persister] owned_call.simps [THEN iffD2] TrueI)+
qed

section \<open>What the program registers\<close>

text \<open>The scheme knows the Go type of a kind, or of its list, by exactly one kind.\<close>

definition registered :: "('b, 's) scheme_lib \<Rightarrow> 's \<Rightarrow> kind \<Rightarrow> string \<Rightarrow> bool" where
  "registered L s k name \<longleftrightarrow> slObjectKinds L s (kind_type k name) = Inr [(kind_GroupVersion k, name)]"

definition union_gvk :: GroupVersionKind where
  "union_gvk = \<lparr>gvkGroupVersion = ''data.nav.no/v1alpha1'', gvkKind = ''UnionTeamServiceAccounts''\<rparr>"

context scheme_library
begin

lemma load_registered:
  assumes load: "load_scheme L = (Ok (), s)" and name: "name \<in> type_names k"
  shows "registered L s k name"
  using object_kinds [of s "kind_type k name"] by (simp add: registered_def load_known [OF load name])

lemma load_union_gvk:
  assumes load: "load_scheme L = (Ok (), s)"
  shows "utsa_kinds L s utsa = Inr [union_gvk]"
proof -
  have "registered L s UTSAKind ''UnionTeamServiceAccounts''"
    by (rule load_registered [OF load]) (simp add: type_names_def)
  moreover have "slString L v1alpha1_GroupVersion = ''data.nav.no/v1alpha1''"
    using string [of v1alpha1_GroupVersion] by (simp add: v1alpha1_GroupVersion_def)
  ultimately show ?thesis
    by (simp add: utsa_kinds_def registered_def union_gvk_def)
qed

lemma load_ends: "load_scheme L = (res, s) \<Longrightarrow> res \<noteq> Err e"
proof -
  have add: "fst (must_add L f s) \<noteq> Err e" for f s
    using must by (cases "fst (f s)") (auto simp: must_add_def split: prod.splits)
  have seq: "fst (go_seq (must_add L f) k s) \<noteq> Err e" if "\<And>s. fst (k s) \<noteq> Err e" for f k s
    using add [of f s] that by (auto simp: go_seq_def go_bind_def split: prod.splits res.splits)
  have "fst (load_scheme L) \<noteq> Err e"
    unfolding load_scheme_def main_init_def v1alpha1_AddToScheme_def types_AddToScheme_def Let_def by (intro seq add)
  then show "load_scheme L = (res, s) \<Longrightarrow> res \<noteq> Err e" by auto
qed

end

text \<open>
  C34. Types: the program either panics while it loads, or has a scheme that knows the Go
  type of every kind of object the operator reads or writes, and of every kind of list,
  by exactly one group, version and kind; no registration that fails goes unnoticed.
\<close>

theorem load_registers:
  assumes "scheme_library L grp content known" and "load_scheme L = (res, s)"
  shows "res = Panic \<or> res = Ok () \<and> (\<forall>k. \<forall>name \<in> type_names k. registered L s k name)"
proof (cases res)
  case (Ok x)
  with scheme_library.load_registered [OF assms(1)] assms(2) show ?thesis by simp
next
  case (Err e)
  with scheme_library.load_ends [OF assms, of e] show ?thesis by simp
qed simp

text \<open>
  C35. Owners: with the scheme the program loads, whatever the servers answer, every object
  a reconciliation creates or patches has the reconciled kind in its owner references, in
  the registered version \<^verbatim>\<open>data.nav.no/v1alpha1\<close>, or has no owner.
\<close>

theorem Reconcile_owners:
  assumes "scheme_library L grp content known" and "load_scheme L = (Ok (), s)"
    and "ctlObjectKinds r = utsa_kinds L s" and "\<And>utsa. emits is_bigquery (ctlPersister r utsa)"
  shows "emits (owned_call union_gvk) (Reconcile r req)"
proof (rule emits_owned_Reconcile)
  show "ctlObjectKinds r u = Inr [union_gvk]" for u
    unfolding assms(3) by (rule scheme_library.load_union_gvk [OF assms(1,2)])
qed (rule assms(4))

section \<open>Instances\<close>

text \<open>A library whose schemes are lists and whose registrations always succeed.\<close>

type_synonym list_scheme = "(go_type \<times> GroupVersion \<times> string) list"

definition known_in :: "list_scheme \<Rightarrow> go_type \<Rightarrow> (GroupVersion \<times> string) list" where
  "known_in s t = map snd (filter (\<lambda>e. fst e = t) s)"

definition add_types :: "GroupVersion \<Rightarrow> go_type list \<Rightarrow> list_scheme \<Rightarrow> goerror option \<times> list_scheme" where
  "add_types gv ts s = (None, s @ map (\<lambda>t. (t, gv, tpName t)) (remdups ts))"

definition package_types :: "string \<Rightarrow> kind list \<Rightarrow> go_type list" where
  "package_types p ks = concat (map (\<lambda>k.
     [\<lparr>tpPackage = p, tpName = kind_name k\<rparr>, \<lparr>tpPackage = p, tpName = kind_name k @ ''List''\<rparr>]) ks)"

definition list_lib :: "(GroupVersion \<times> go_type list, list_scheme) scheme_lib" where
  "list_lib =
     \<lparr>slMust = (\<lambda>err. case err of None \<Rightarrow> Ok () | Some e \<Rightarrow> Panic),
      slBuilder = (\<lambda>gv. (gv, [])), slRegister = (\<lambda>(gv, ts) ts'. (gv, ts @ ts')),
      slAddToScheme = (\<lambda>(gv, ts). add_types gv ts), slNewScheme = [],
      slClientGo = add_types core_GroupVersion (package_types core_package [ServiceAccountKind]),
      slIstio = add_types istio_GroupVersion (package_types istio_package
        [GatewayKind, ServiceEntryKind, VirtualServiceKind, DestinationRuleKind]),
      slIstioSecurity = add_types istio_security_GroupVersion
        (package_types istio_security_package [AuthorizationPolicyKind]),
      slObjectKinds = (\<lambda>s t. if known_in s t = [] then Inl (SchemeError (tpName t)) else Inr (known_in s t)),
      slString = (\<lambda>gv. if gvGroup gv = [] then gvVersion gv else gvGroup gv @ ''/'' @ gvVersion gv)\<rparr>"

lemma known_remdups:
  "map snd (filter (\<lambda>e. fst e = t) (map (\<lambda>t. (t, gv, tpName t)) (remdups ts)))
     = (if t \<in> set ts then [(gv, tpName t)] else [])"
  by (induction ts) auto

lemma known_add_types:
  "add_types gv ts s = (None, s') \<Longrightarrow> known_in s' t = known_in s t @ (if t \<in> set ts then [(gv, tpName t)] else [])"
  by (auto simp: add_types_def known_in_def known_remdups [unfolded map_eq_conv])

lemma registers_add_types:
  assumes "\<And>t. adds t \<longleftrightarrow> t \<in> set ts"
  shows "registers known_in adds gv touched (add_types gv ts)"
  using assms by (auto simp: registers_def known_add_types)

lemma package_types: "t \<in> set (package_types p ks) \<longleftrightarrow> tpPackage t = p \<and> (\<exists>k \<in> set ks. tpName t \<in> type_names k)"
  by (cases t) (auto simp: package_types_def type_names_def)

interpretation list_lib: scheme_library list_lib fst snd known_in
  by unfold_locales
    (auto simp: list_lib_def known_in_def package_types type_names_def split: prod.splits
      intro!: registers_add_types)

lemma list_lib_loads: "\<exists>s. load_scheme list_lib = (Ok (), s)"
  by (simp add: load_scheme_def main_init_def v1alpha1_AddToScheme_def types_AddToScheme_def must_add_def list_lib_def add_types_def go_defs
      v1alpha1_init_def v1alpha1_SchemeBuilder_def types_init_def types_SchemeBuilder_def)

theorem load_registers_witness:
  "\<exists>s. load_scheme list_lib = (Ok (), s) \<and> registered list_lib s GatewayKind ''Gateway''
     \<and> registered list_lib s IAMPolicyMemberKind ''IAMPolicyMemberList''"
proof -
  obtain s where s: "load_scheme list_lib = (Ok (), s)" using list_lib_loads by blast
  from load_registers [OF list_lib.scheme_library_axioms s]
  have known: "name \<in> type_names k \<Longrightarrow> registered list_lib s k name" for k name by simp
  have "registered list_lib s GatewayKind ''Gateway''"
    "registered list_lib s IAMPolicyMemberKind ''IAMPolicyMemberList''"
    by (rule known, simp add: type_names_def)+
  with s show ?thesis by blast
qed

theorem Reconcile_owners_witness:
  "\<exists>s. emits (owned_call union_gvk)
     (Reconcile (example_ctl\<lparr>ctlObjectKinds := utsa_kinds list_lib s\<rparr>) (''union'', ''team''))"
proof -
  obtain s where s: "load_scheme list_lib = (Ok (), s)" using list_lib_loads by blast
  show ?thesis
    by (rule exI [where x = s], rule Reconcile_owners [OF list_lib.scheme_library_axioms s])
      (simp_all add: example_ctl_def PersistAllowlist_emits)
qed

end
