(* ===== verification/HeapCopy.thy ===== *)
theory HeapCopy
  imports UnionTypes
begin

text \<open>
  Memory, and what a deep copy is: the point of one is which memory the copy shares with
  the original.

  A heap maps addresses to cells and allocates at the next free address. A slice is nil or
  a view of an array (address, offset, length), a pointer nil or an address. The locale
  \<open>deep_copier\<close> is the contract of a copy function; the three ways the code builds one
  (slices, pointers, structs) are shown to preserve it, the first two as sublocales.
  \<open>DeepCopy\<close> holds the types and functions of the code.
\<close>

section \<open>The heap\<close>

type_synonym addr = nat

record 'c heap =
  cells :: "addr \<Rightarrow> 'c"
  next_addr :: addr

definition alloc :: "'c \<Rightarrow> 'c heap \<Rightarrow> addr \<times> 'c heap" where
  "alloc c h = (next_addr h, h\<lparr>cells := (cells h)(next_addr h := c), next_addr := Suc (next_addr h)\<rparr>)"

definition store_cell :: "addr \<Rightarrow> 'c \<Rightarrow> 'c heap \<Rightarrow> 'c heap" where
  "store_cell a c h = h\<lparr>cells := (cells h)(a := c)\<rparr>"

definition grows :: "'c heap \<Rightarrow> 'c heap \<Rightarrow> bool" where
  "grows h h' \<longleftrightarrow> next_addr h \<le> next_addr h' \<and> (\<forall>a < next_addr h. cells h' a = cells h a)"

lemma grows_refl [simp]: "grows h h"
  by (simp add: grows_def)

lemma grows_trans: "grows h h' \<Longrightarrow> grows h' h'' \<Longrightarrow> grows h h''"
  by (simp add: grows_def)

lemma grows_next: "grows h h' \<Longrightarrow> next_addr h \<le> next_addr h'"
  by (simp add: grows_def)

lemma grows_cell: "grows h h' \<Longrightarrow> a < next_addr h \<Longrightarrow> cells h' a = cells h a"
  by (simp add: grows_def)

lemma grows_alloc: "alloc c h = (a, h') \<Longrightarrow> grows h h'"
  by (auto simp: alloc_def grows_def)

lemma store_cell_sel [simp]:
  "cells (store_cell a c h) b = (if b = a then c else cells h b)"
  "next_addr (store_cell a c h) = next_addr h"
  by (simp_all add: store_cell_def)

lemma grows_store: "grows h h' \<Longrightarrow> next_addr h \<le> a \<Longrightarrow> grows h (store_cell a c h')"
  by (simp add: grows_def)

section \<open>The contract\<close>

text \<open>
  \<open>val\<close> is the content of a value, \<open>addrs\<close> the addresses it reaches. Copying changes no
  memory that was allocated before, and the copy of a value has its content and reaches
  new memory only. The content depends on the reached memory alone.
\<close>

locale deep_copier =
  fixes copy :: "'a \<Rightarrow> 'c heap \<Rightarrow> 'a \<times> 'c heap"
    and val :: "'c heap \<Rightarrow> 'a \<Rightarrow> 'v"
    and addrs :: "'c heap \<Rightarrow> 'a \<Rightarrow> addr set"
  assumes copy_grows: "copy x h = (y, h') \<Longrightarrow> grows h h'"
    and copy_val: "copy x h = (y, h') \<Longrightarrow> addrs h x \<subseteq> {..<next_addr h} \<Longrightarrow> val h' y = val h x"
    and copy_fresh: "copy x h = (y, h') \<Longrightarrow> addrs h x \<subseteq> {..<next_addr h}
      \<Longrightarrow> addrs h' y \<subseteq> {next_addr h..<next_addr h'}"
    and val_local: "(\<And>a. a \<in> addrs h x \<Longrightarrow> cells h' a = cells h a) \<Longrightarrow> val h' x = val h x"
    and addrs_local: "(\<And>a. a \<in> addrs h x \<Longrightarrow> cells h' a = cells h a) \<Longrightarrow> addrs h' x = addrs h x"
begin

lemma grown:
  assumes "grows h h'" and "addrs h x \<subseteq> {..<next_addr h}"
  shows "val h' x = val h x" and "addrs h' x = addrs h x"
  using assms by (auto intro!: val_local addrs_local simp: grows_def)

text \<open>Whatever happens to the original afterwards, the copy keeps its content.\<close>

lemma independent:
  assumes run: "copy x h = (y, h')" and alloc: "addrs h x \<subseteq> {..<next_addr h}"
    and later: "\<And>a. next_addr h \<le> a \<Longrightarrow> cells h'' a = cells h' a"
  shows "val h'' y = val h x"
proof -
  have "val h'' y = val h' y"
    using copy_fresh [OF run alloc] later by (auto intro!: val_local)
  with copy_val [OF run alloc] show ?thesis by simp
qed

text \<open>And whatever happens to the copy, the original keeps its own.\<close>

lemma original_kept:
  assumes run: "copy x h = (y, h')" and alloc: "addrs h x \<subseteq> {..<next_addr h}"
    and later: "\<And>a. a \<notin> addrs h' y \<Longrightarrow> cells h'' a = cells h' a"
  shows "val h'' x = val h x"
proof (rule val_local)
  fix a
  assume "a \<in> addrs h x"
  with alloc have "a < next_addr h" by auto
  with copy_fresh [OF run alloc] have "a \<notin> addrs h' y" by auto
  with later \<open>a < next_addr h\<close> copy_grows [OF run] show "cells h'' a = cells h a"
    by (simp add: grows_cell)
qed

end

text \<open>All of it in one notion: what an isolated copy of a value is.\<close>

definition isolated_copy ::
    "('c heap \<Rightarrow> 'a \<Rightarrow> 'v) \<Rightarrow> ('c heap \<Rightarrow> 'a \<Rightarrow> addr set) \<Rightarrow> 'a \<Rightarrow> 'c heap \<Rightarrow> 'a \<Rightarrow> 'c heap \<Rightarrow> bool" where
  "isolated_copy val addrs x h y h' \<longleftrightarrow>
     grows h h' \<and> val h' y = val h x \<and> addrs h' y \<subseteq> {next_addr h..<next_addr h'}
     \<and> (\<forall>h''. (\<forall>a \<ge> next_addr h. cells h'' a = cells h' a) \<longrightarrow> val h'' y = val h x)
     \<and> (\<forall>h''. (\<forall>a. a \<notin> addrs h' y \<longrightarrow> cells h'' a = cells h' a) \<longrightarrow> val h'' x = val h x)"

context deep_copier
begin

lemma isolated:
  assumes "copy x h = (y, h')" and "addrs h x \<subseteq> {..<next_addr h}"
  shows "isolated_copy val addrs x h y h'"
  unfolding isolated_copy_def
  using copy_grows [OF assms(1)] copy_val [OF assms] copy_fresh [OF assms] independent [OF assms]
    original_kept [OF assms] by blast

end

text \<open>A value without references is copied by assignment.\<close>

definition copy_plain :: "'a \<Rightarrow> 'c heap \<Rightarrow> 'a \<times> 'c heap" where
  "copy_plain x h = (x, h)"

interpretation plain: deep_copier copy_plain "\<lambda>h x. x" "\<lambda>h x. {}"
  by unfold_locales (auto simp: copy_plain_def)

section \<open>Pointers and slices\<close>

text \<open>
  \<^verbatim>\<open>if in.P != nil { *out = new(T); (*in).DeepCopyInto(*out) }\<close>. The projection \<open>get\<close>
  reads a cell of the pointer's type, \<open>mk\<close> builds one.
\<close>

locale pointer_copier = deep_copier copy val addrs
  for copy :: "'a \<Rightarrow> 'c heap \<Rightarrow> 'a \<times> 'c heap" and val :: "'c heap \<Rightarrow> 'a \<Rightarrow> 'v"
    and addrs :: "'c heap \<Rightarrow> 'a \<Rightarrow> addr set" +
  fixes get :: "'c \<Rightarrow> 'a" and mk :: "'a \<Rightarrow> 'c" and zero :: 'a
  assumes get_mk: "get (mk x) = x"

fun copy_pointer ::
    "('c \<Rightarrow> 'a) \<Rightarrow> ('a \<Rightarrow> 'c) \<Rightarrow> 'a \<Rightarrow> ('a \<Rightarrow> 'c heap \<Rightarrow> 'a \<times> 'c heap) \<Rightarrow> addr option \<Rightarrow> 'c heap
       \<Rightarrow> addr option \<times> 'c heap" where
  "copy_pointer get mk zero copy None h = (None, h)"
| "copy_pointer get mk zero copy (Some p) h =
     (case alloc (mk zero) h of (out, h1) \<Rightarrow>
        case copy (get (cells h1 p)) h1 of (x, h2) \<Rightarrow> (Some out, store_cell out (mk x) h2))"

definition pointer_val ::
    "('c \<Rightarrow> 'a) \<Rightarrow> ('c heap \<Rightarrow> 'a \<Rightarrow> 'v) \<Rightarrow> 'c heap \<Rightarrow> addr option \<Rightarrow> 'v option" where
  "pointer_val get val h p = map_option (\<lambda>a. val h (get (cells h a))) p"

definition pointer_addrs ::
    "('c \<Rightarrow> 'a) \<Rightarrow> ('c heap \<Rightarrow> 'a \<Rightarrow> addr set) \<Rightarrow> 'c heap \<Rightarrow> addr option \<Rightarrow> addr set" where
  "pointer_addrs get addrs h p = (case p of None \<Rightarrow> {} | Some a \<Rightarrow> insert a (addrs h (get (cells h a))))"

context pointer_copier
begin

lemma copy_pointer_Some:
  fixes h h' :: "'c heap"
  assumes run: "copy_pointer get mk zero copy (Some p) h = (q, h')"
    and alloc: "insert p (addrs h (get (cells h p))) \<subseteq> {..<next_addr h}"
  shows "pointer_val get val h' q = Some (val h (get (cells h p)))"
    and "pointer_addrs get addrs h' q \<subseteq> {next_addr h..<next_addr h'}"
proof -
  let ?x = "get (cells h p)" and ?h1 = "snd (alloc (mk zero) h)"
  have grow1: "grows h ?h1" by (rule grows_alloc [of "mk zero" _ "next_addr h"]) (simp add: alloc_def)
  have next1: "next_addr ?h1 = Suc (next_addr h)" by (simp add: alloc_def)
  have same: "get (cells ?h1 p) = ?x" using grow1 alloc by (simp add: grows_cell)
  obtain y h2 where copied: "copy ?x ?h1 = (y, h2)" by (cases "copy ?x ?h1")
  with run same have q: "q = Some (next_addr h)" and h': "h' = store_cell (next_addr h) (mk y) h2"
    by (simp_all add: alloc_def)
  note kept = grown [OF grow1, of ?x]
  have alloc1: "addrs ?h1 ?x \<subseteq> {..<next_addr ?h1}"
    using kept(2) alloc next1 by auto
  have fresh: "addrs h2 y \<subseteq> {Suc (next_addr h)..<next_addr h2}"
    using copy_fresh [OF copied alloc1] next1 by simp
  have vals: "val h2 y = val h ?x"
    using copy_val [OF copied alloc1] kept(1) alloc by simp
  have off: "cells h' a = cells h2 a" if "a \<in> addrs h2 y" for a
    using that fresh by (auto simp: h')
  have later: "val h' y = val h2 y" "addrs h' y = addrs h2 y"
    by (rule val_local [OF off], assumption) (rule addrs_local [OF off])
  show "pointer_val get val h' q = Some (val h ?x)"
    using later vals by (simp add: pointer_val_def q h' get_mk)
  have "next_addr ?h1 \<le> next_addr h2" using copy_grows [OF copied] by (rule grows_next)
  with later fresh next1 show "pointer_addrs get addrs h' q \<subseteq> {next_addr h..<next_addr h'}"
    by (auto simp: pointer_addrs_def q h' get_mk)
qed

lemma copy_pointer_grows:
  assumes "copy_pointer get mk zero copy p h = (q, h')"
  shows "grows h h'"
proof (cases p)
  case (Some a)
  let ?h1 = "snd (alloc (mk zero) h)"
  obtain y h2 where copied: "copy (get (cells ?h1 a)) ?h1 = (y, h2)" by (cases "copy (get (cells ?h1 a)) ?h1")
  with assms Some have "h' = store_cell (next_addr h) (mk y) h2" by (simp add: alloc_def)
  moreover have "grows h h2"
    using grows_alloc [of "mk zero" h "next_addr h" ?h1] copy_grows [OF copied]
    by (auto simp: alloc_def intro: grows_trans)
  ultimately show ?thesis by (simp add: grows_store)
qed (use assms in simp)

end

sublocale pointer_copier \<subseteq> pointer: deep_copier
  "copy_pointer get mk zero copy" "pointer_val get val" "pointer_addrs get addrs"
proof unfold_locales
  fix p q and h h' :: "'c heap"
  assume run: "copy_pointer get mk zero copy p h = (q, h')"
  show "grows h h'" using run by (rule copy_pointer_grows)
  assume alloc: "pointer_addrs get addrs h p \<subseteq> {..<next_addr h}"
  show "pointer_val get val h' q = pointer_val get val h p"
  proof (cases p)
    case (Some a)
    with copy_pointer_Some(1) [OF run [unfolded Some]] alloc show ?thesis
      by (simp add: pointer_val_def pointer_addrs_def)
  qed (use run in \<open>simp add: pointer_val_def\<close>)
  show "pointer_addrs get addrs h' q \<subseteq> {next_addr h..<next_addr h'}"
  proof (cases p)
    case (Some a)
    with copy_pointer_Some(2) [OF run [unfolded Some]] alloc show ?thesis
      by (simp add: pointer_addrs_def)
  qed (use run in \<open>simp add: pointer_addrs_def\<close>)
next
  fix p and h h' :: "'c heap"
  assume same: "\<And>a. a \<in> pointer_addrs get addrs h p \<Longrightarrow> cells h' a = cells h a"
  show "pointer_val get val h' p = pointer_val get val h p"
  proof (cases p)
    case (Some a)
    with same have "val h' (get (cells h a)) = val h (get (cells h a))"
      by (intro val_local) (simp add: pointer_addrs_def)
    with same Some show ?thesis by (simp add: pointer_val_def pointer_addrs_def)
  qed (simp add: pointer_val_def)
  show "pointer_addrs get addrs h' p = pointer_addrs get addrs h p"
  proof (cases p)
    case (Some a)
    with same have "addrs h' (get (cells h a)) = addrs h (get (cells h a))"
      by (intro addrs_local) (simp add: pointer_addrs_def)
    with same Some show ?thesis by (simp add: pointer_addrs_def)
  qed (simp add: pointer_addrs_def)
qed

section \<open>Slices\<close>

record slice =
  slArray :: addr
  slOffset :: nat
  slLength :: nat

text \<open>The elements a slice shows, zero where the view leaves the array.\<close>

definition slice_elem :: "('c \<Rightarrow> 'a list) \<Rightarrow> 'a \<Rightarrow> 'c heap \<Rightarrow> slice \<Rightarrow> nat \<Rightarrow> 'a" where
  "slice_elem get zero h s i =
     (let array = get (cells h (slArray s)) in
      if slOffset s + i < length array then array ! (slOffset s + i) else zero)"

text \<open>
  \<^verbatim>\<open>*out = make([]T, len(*in)); for i := range *in { (*in)[i].DeepCopyInto(&(*out)[i]) }\<close>:
  \<open>copy_elems\<close> is the loop up to an index. The built-in \<^verbatim>\<open>copy\<close> is the loop that assigns.
\<close>

primrec copy_elems ::
    "('c \<Rightarrow> 'a list) \<Rightarrow> ('a list \<Rightarrow> 'c) \<Rightarrow> 'a \<Rightarrow> ('a \<Rightarrow> 'c heap \<Rightarrow> 'a \<times> 'c heap) \<Rightarrow> slice \<Rightarrow> addr
       \<Rightarrow> nat \<Rightarrow> 'c heap \<Rightarrow> 'c heap" where
  "copy_elems get mk zero copy s out 0 h = h"
| "copy_elems get mk zero copy s out (Suc i) h =
     (let h1 = copy_elems get mk zero copy s out i h in
      case copy (slice_elem get zero h1 s i) h1 of
        (x, h2) \<Rightarrow> store_cell out (mk ((get (cells h2 out))[i := x])) h2)"

fun copy_slice ::
    "('c \<Rightarrow> 'a list) \<Rightarrow> ('a list \<Rightarrow> 'c) \<Rightarrow> 'a \<Rightarrow> ('a \<Rightarrow> 'c heap \<Rightarrow> 'a \<times> 'c heap) \<Rightarrow> slice option
       \<Rightarrow> 'c heap \<Rightarrow> slice option \<times> 'c heap" where
  "copy_slice get mk zero copy None h = (None, h)"
| "copy_slice get mk zero copy (Some s) h =
     (case alloc (mk (replicate (slLength s) zero)) h of (out, h1) \<Rightarrow>
        (Some \<lparr>slArray = out, slOffset = 0, slLength = slLength s\<rparr>,
         copy_elems get mk zero copy s out (slLength s) h1))"

definition slice_val ::
    "('c \<Rightarrow> 'a list) \<Rightarrow> 'a \<Rightarrow> ('c heap \<Rightarrow> 'a \<Rightarrow> 'v) \<Rightarrow> 'c heap \<Rightarrow> slice option \<Rightarrow> 'v list option" where
  "slice_val get zero val h s =
     map_option (\<lambda>s. map (\<lambda>i. val h (slice_elem get zero h s i)) [0..<slLength s]) s"

definition slice_addrs ::
    "('c \<Rightarrow> 'a list) \<Rightarrow> 'a \<Rightarrow> ('c heap \<Rightarrow> 'a \<Rightarrow> addr set) \<Rightarrow> 'c heap \<Rightarrow> slice option \<Rightarrow> addr set" where
  "slice_addrs get zero addrs h s =
     (case s of None \<Rightarrow> {}
      | Some s \<Rightarrow> insert (slArray s) (\<Union>i < slLength s. addrs h (slice_elem get zero h s i)))"

locale slice_copier = deep_copier copy val addrs
  for copy :: "'a \<Rightarrow> 'c heap \<Rightarrow> 'a \<times> 'c heap" and val :: "'c heap \<Rightarrow> 'a \<Rightarrow> 'v"
    and addrs :: "'c heap \<Rightarrow> 'a \<Rightarrow> addr set" +
  fixes get :: "'c \<Rightarrow> 'a list" and mk :: "'a list \<Rightarrow> 'c" and zero :: 'a
  assumes get_mk: "get (mk xs) = xs"
begin

lemma slice_elem_cong: "cells h' (slArray s) = cells h (slArray s)
    \<Longrightarrow> slice_elem get zero h' s i = slice_elem get zero h s i"
  by (simp add: slice_elem_def)

text \<open>The loop has filled the new array up to an index.\<close>

lemma copy_elems_run:
  fixes h h1 :: "'c heap"
  assumes grow: "grows h h1" and out: "out = next_addr h" "out < next_addr h1"
    and array: "cells h1 out = mk (replicate n zero)"
    and alloc: "slArray s < next_addr h" "\<And>i. i < n \<Longrightarrow> addrs h (slice_elem get zero h s i) \<subseteq> {..<next_addr h}"
    and "i \<le> n" and "copy_elems get mk zero copy s out i h1 = h2"
  shows "\<exists>xs. grows h h2 \<and> out < next_addr h2 \<and> cells h2 out = mk xs \<and> length xs = n
    \<and> (\<forall>j < i. val h2 (xs ! j) = val h (slice_elem get zero h s j)
         \<and> addrs h2 (xs ! j) \<subseteq> {Suc out..<next_addr h2})"
  using assms(7,8)
proof (induction i arbitrary: h2)
  case 0
  then show ?case using grow out array by (intro exI [of _ "replicate n zero"]) simp
next
  case (Suc i h5)
  define h2 where loop: "h2 = copy_elems get mk zero copy s out i h1"
  with Suc obtain xs where grow2: "grows h h2"
    and out2: "out < next_addr h2" and array2: "cells h2 out = mk xs" "length xs = n"
    and filled: "\<And>j. j < i \<Longrightarrow> val h2 (xs ! j) = val h (slice_elem get zero h s j)"
      "\<And>j. j < i \<Longrightarrow> addrs h2 (xs ! j) \<subseteq> {Suc out..<next_addr h2}"
    by auto
  let ?x = "slice_elem get zero h s i"
  have same: "slice_elem get zero h2 s i = ?x"
    using grow2 alloc(1) by (intro slice_elem_cong grows_cell)
  obtain y h3 where copied: "copy ?x h2 = (y, h3)" by (cases "copy ?x h2")
  let ?h4 = "store_cell out (mk (xs[i := y])) h3"
  have grow3: "grows h2 h3" using copied by (rule copy_grows)
  have array3: "cells h3 out = mk xs" using grows_cell [OF grow3 out2] array2 by simp
  have result: "h5 = ?h4"
    using Suc.prems(2) copied by (simp flip: loop add: same array3 get_mk Let_def)
  have "addrs h ?x \<subseteq> {..<next_addr h}" using alloc(2) Suc.prems by simp
  note kept = grown [OF grow2 this]
  have alloc2: "addrs h2 ?x \<subseteq> {..<next_addr h2}"
    using kept(2) alloc(2) [of i] Suc.prems grows_next [OF grow2] by auto
  have fresh: "addrs h3 y \<subseteq> {next_addr h2..<next_addr h3}" using copied alloc2 by (rule copy_fresh)
  have grow4: "grows h ?h4"
    using grows_trans [OF grow2 grow3] out(1) by (simp add: grows_store)
  have next4: "next_addr h2 \<le> next_addr ?h4" using grows_next [OF grow3] by simp
  have "val ?h4 ((xs[i := y]) ! j) = val h (slice_elem get zero h s j)
      \<and> addrs ?h4 ((xs[i := y]) ! j) \<subseteq> {Suc out..<next_addr ?h4}" if j: "j < Suc i" for j
  proof (cases "j = i")
    case True
    have off: "cells ?h4 a = cells h3 a" if "a \<in> addrs h3 y" for a
      using that fresh out2 by auto
    have "val ?h4 y = val h3 y" "addrs ?h4 y = addrs h3 y"
      by (rule val_local [OF off], assumption) (rule addrs_local [OF off])
    moreover have "val h3 y = val h ?x" using copy_val [OF copied alloc2] kept(1) by simp
    ultimately show ?thesis using True fresh out2 array2 Suc.prems by auto
  next
    case False
    with j have j: "j < i" by simp
    have off: "cells ?h4 a = cells h2 a" if "a \<in> addrs h2 (xs ! j)" for a
      using that filled(2) [OF j] grow3 by (auto simp: grows_def)
    have "val ?h4 (xs ! j) = val h2 (xs ! j)" "addrs ?h4 (xs ! j) = addrs h2 (xs ! j)"
      by (rule val_local [OF off], assumption) (rule addrs_local [OF off])
    with filled [OF j] False next4 show ?thesis by auto
  qed
  with result grow4 out2 next4 array2 show ?case by (intro exI [of _ "xs[i := y]"]) auto
qed

lemma copy_elems_grows:
  fixes h h1 :: "'c heap"
  shows "grows h h1 \<Longrightarrow> next_addr h \<le> out \<Longrightarrow> grows h (copy_elems get mk zero copy s out i h1)"
proof (induction i)
  case (Suc i)
  let ?h2 = "copy_elems get mk zero copy s out i h1"
  obtain y h3 where copied: "copy (slice_elem get zero ?h2 s i) ?h2 = (y, h3)"
    by (cases "copy (slice_elem get zero ?h2 s i) ?h2")
  from Suc copy_grows [OF copied] have "grows h h3" by (blast intro: grows_trans)
  with Suc.prems copied show ?case by (simp add: Let_def grows_store)
qed simp

lemma copy_slice_Some:
  fixes h h' :: "'c heap"
  assumes run: "copy_slice get mk zero copy (Some s) h = (t, h')"
    and alloc: "slice_addrs get zero addrs h (Some s) \<subseteq> {..<next_addr h}"
  shows "slice_val get zero val h' t = slice_val get zero val h (Some s)"
    and "slice_addrs get zero addrs h' t \<subseteq> {next_addr h..<next_addr h'}"
proof -
  let ?n = "slLength s" and ?out = "next_addr h"
  let ?h1 = "h\<lparr>cells := (cells h)(?out := mk (replicate ?n zero)), next_addr := Suc ?out\<rparr>"
  let ?t = "\<lparr>slArray = ?out, slOffset = 0, slLength = ?n\<rparr>"
  from run have t: "t = Some ?t" and h': "copy_elems get mk zero copy s ?out ?n ?h1 = h'"
    by (simp_all add: alloc_def)
  have grow1: "grows h ?h1" by (simp add: grows_def)
  have elems: "addrs h (slice_elem get zero h s i) \<subseteq> {..<next_addr h}" if "i < ?n" for i
    using alloc that by (auto simp: slice_addrs_def)
  obtain xs where grow: "grows h h'" and out: "?out < next_addr h'" and array: "cells h' ?out = mk xs"
    "length xs = ?n" and all: "\<And>j. j < ?n \<Longrightarrow> val h' (xs ! j) = val h (slice_elem get zero h s j)"
    "\<And>j. j < ?n \<Longrightarrow> addrs h' (xs ! j) \<subseteq> {Suc ?out..<next_addr h'}"
    using copy_elems_run [OF grow1 refl _ _ _ elems order_refl h'] alloc
    by (auto simp: slice_addrs_def)
  have elem: "slice_elem get zero h' ?t j = xs ! j" if "j < ?n" for j
    using that array by (simp add: slice_elem_def get_mk Let_def)
  show "slice_val get zero val h' t = slice_val get zero val h (Some s)"
    by (simp add: slice_val_def t elem all(1))
  show "slice_addrs get zero addrs h' t \<subseteq> {next_addr h..<next_addr h'}"
    using out all(2) by (auto simp: slice_addrs_def t elem) (meson Suc_leD atLeastLessThan_iff subsetD)+
qed

end

sublocale slice_copier \<subseteq> slice: deep_copier
  "copy_slice get mk zero copy" "slice_val get zero val" "slice_addrs get zero addrs"
proof unfold_locales
  fix s t and h h' :: "'c heap"
  assume run: "copy_slice get mk zero copy s h = (t, h')"
  show "grows h h'"
  proof (cases s)
    case (Some s')
    with run show ?thesis
      using copy_elems_grows [of h _ "next_addr h"] by (auto simp: alloc_def grows_def [of h "h\<lparr>cells := _, next_addr := _\<rparr>"])
  qed (use run in simp)
  assume alloc: "slice_addrs get zero addrs h s \<subseteq> {..<next_addr h}"
  show "slice_val get zero val h' t = slice_val get zero val h s"
    using copy_slice_Some(1) run alloc by (cases s) (auto simp: slice_val_def)
  show "slice_addrs get zero addrs h' t \<subseteq> {next_addr h..<next_addr h'}"
    using copy_slice_Some(2) run alloc by (cases s) (auto simp: slice_addrs_def)
next
  fix s and h h' :: "'c heap"
  assume same: "\<And>a. a \<in> slice_addrs get zero addrs h s \<Longrightarrow> cells h' a = cells h a"
  show "slice_val get zero val h' s = slice_val get zero val h s"
  proof (cases s)
    case (Some s')
    with same have array: "cells h' (slArray s') = cells h (slArray s')" by (simp add: slice_addrs_def)
    have "val h' (slice_elem get zero h s' i) = val h (slice_elem get zero h s' i)" if "i < slLength s'" for i
      using same Some that by (intro val_local) (auto simp: slice_addrs_def)
    with Some slice_elem_cong [OF array] show ?thesis by (simp add: slice_val_def)
  qed (simp add: slice_val_def)
  show "slice_addrs get zero addrs h' s = slice_addrs get zero addrs h s"
  proof (cases s)
    case (Some s')
    with same have array: "cells h' (slArray s') = cells h (slArray s')" by (simp add: slice_addrs_def)
    have "addrs h' (slice_elem get zero h s' i) = addrs h (slice_elem get zero h s' i)" if "i < slLength s'" for i
      using same Some that by (intro addrs_local) (auto simp: slice_addrs_def)
    with Some slice_elem_cong [OF array] show ?thesis by (simp add: slice_addrs_def)
  qed (simp add: slice_addrs_def)
qed

context pointer_copier
begin

lemma deep: "deep_copier (copy_pointer get mk zero copy) (pointer_val get val) (pointer_addrs get addrs)"
  by (rule pointer.deep_copier_axioms)

end

context slice_copier
begin

lemma deep: "deep_copier (copy_slice get mk zero copy) (slice_val get zero val) (slice_addrs get zero addrs)"
  by (rule slice.deep_copier_axioms)

end

lemma pointer_deep_copier:
  assumes "deep_copier copy val addrs" and "\<And>x. get (mk x) = x"
  shows "deep_copier (copy_pointer get mk zero copy) (pointer_val get val) (pointer_addrs get addrs)"
  by (rule pointer_copier.deep, rule pointer_copier.intro [OF assms(1)], unfold_locales) (rule assms(2))

lemma slice_deep_copier:
  assumes "deep_copier copy val addrs" and "\<And>xs. get (mk xs) = xs"
  shows "deep_copier (copy_slice get mk zero copy) (slice_val get zero val) (slice_addrs get zero addrs)"
  by (rule slice_copier.deep, rule slice_copier.intro [OF assms(1)], unfold_locales) (rule assms(2))

section \<open>Structs\<close>

text \<open>
  A struct is copied by assignment and then by the copies of the fields that hold
  references, one after the other: \<open>view\<close> takes these fields out of it, \<open>put\<close> replaces
  them.
\<close>

definition copy_pair ::
    "('a \<Rightarrow> 'c heap \<Rightarrow> 'a \<times> 'c heap) \<Rightarrow> ('b \<Rightarrow> 'c heap \<Rightarrow> 'b \<times> 'c heap) \<Rightarrow> 'a \<times> 'b \<Rightarrow> 'c heap
       \<Rightarrow> ('a \<times> 'b) \<times> 'c heap" where
  "copy_pair copy1 copy2 p h =
     (case copy1 (fst p) h of (x, h1) \<Rightarrow> case copy2 (snd p) h1 of (y, h2) \<Rightarrow> ((x, y), h2))"

lemma pair_deep_copier:
  fixes copy1 :: "'a \<Rightarrow> 'c heap \<Rightarrow> 'a \<times> 'c heap" and copy2 :: "'b \<Rightarrow> 'c heap \<Rightarrow> 'b \<times> 'c heap"
  assumes "deep_copier copy1 val1 addrs1" and "deep_copier copy2 val2 addrs2"
  shows "deep_copier (copy_pair copy1 copy2) (\<lambda>h p. (val1 h (fst p), val2 h (snd p)))
    (\<lambda>h p. addrs1 h (fst p) \<union> addrs2 h (snd p))"
proof
  fix p q and h h' :: "'c heap"
  assume "copy_pair copy1 copy2 p h = (q, h')"
  then obtain h1 where first: "copy1 (fst p) h = (fst q, h1)" and second: "copy2 (snd p) h1 = (snd q, h')"
    by (auto simp: copy_pair_def split: prod.splits)
  have grow1: "grows h h1" using assms(1) first by (rule deep_copier.copy_grows)
  have grow2: "grows h1 h'" using assms(2) second by (rule deep_copier.copy_grows)
  from grow1 grow2 show "grows h h'" by (rule grows_trans)
  assume "addrs1 h (fst p) \<union> addrs2 h (snd p) \<subseteq> {..<next_addr h}"
  then have alloc1: "addrs1 h (fst p) \<subseteq> {..<next_addr h}" and "addrs2 h (snd p) \<subseteq> {..<next_addr h}"
    by simp_all
  note kept2 = deep_copier.grown [OF assms(2) grow1 this(2)]
  have alloc2: "addrs2 h1 (snd p) \<subseteq> {..<next_addr h1}"
    using \<open>addrs2 h (snd p) \<subseteq> {..<next_addr h}\<close> kept2(2) grows_next [OF grow1] by auto
  note fresh1 = deep_copier.copy_fresh [OF assms(1) first alloc1]
  note fresh2 = deep_copier.copy_fresh [OF assms(2) second alloc2]
  have "addrs1 h1 (fst q) \<subseteq> {..<next_addr h1}" using fresh1 by auto
  note kept1 = deep_copier.grown [OF assms(1) grow2 this]
  show "(val1 h' (fst q), val2 h' (snd q)) = (val1 h (fst p), val2 h (snd p))"
    using kept1(1) kept2(1) deep_copier.copy_val [OF assms(1) first alloc1]
      deep_copier.copy_val [OF assms(2) second alloc2] by simp
  show "addrs1 h' (fst q) \<union> addrs2 h' (snd q) \<subseteq> {next_addr h..<next_addr h'}"
    using kept1(2) fresh1 fresh2 grows_next [OF grow1] grows_next [OF grow2] by fastforce
next
  fix p and h h' :: "'c heap"
  assume same: "\<And>a. a \<in> addrs1 h (fst p) \<union> addrs2 h (snd p) \<Longrightarrow> cells h' a = cells h a"
  show "(val1 h' (fst p), val2 h' (snd p)) = (val1 h (fst p), val2 h (snd p))"
    using same deep_copier.val_local [OF assms(1), of h "fst p" h']
      deep_copier.val_local [OF assms(2), of h "snd p" h'] by simp
  show "addrs1 h' (fst p) \<union> addrs2 h' (snd p) = addrs1 h (fst p) \<union> addrs2 h (snd p)"
    using same deep_copier.addrs_local [OF assms(1), of h "fst p" h']
      deep_copier.addrs_local [OF assms(2), of h "snd p" h'] by simp
qed

lemma struct_deep_copier:
  fixes copy0 :: "'a \<Rightarrow> 'c heap \<Rightarrow> 'a \<times> 'c heap" and copy :: "'r \<Rightarrow> 'c heap \<Rightarrow> 'r \<times> 'c heap"
  assumes fields: "deep_copier copy0 val0 addrs0"
    and copy: "\<And>x h. copy x h = (case copy0 (view x) h of (y, h1) \<Rightarrow> (put y x, h1))"
    and val: "\<And>h x. val h x = combine (plain x) (val0 h (view x))"
    and addrs: "\<And>h x. addrs h x = addrs0 h (view x)"
    and put: "\<And>y x. view (put y x) = y" "\<And>y x. plain (put y x) = plain x"
  shows "deep_copier copy val addrs"
proof
  fix x y and h h' :: "'c heap"
  assume "copy x h = (y, h')"
  then obtain z where z: "copy0 (view x) h = (z, h')" "y = put z x"
    by (auto simp: copy split: prod.splits)
  show "grows h h'" using fields z(1) by (rule deep_copier.copy_grows)
  assume alloc: "addrs h x \<subseteq> {..<next_addr h}"
  show "val h' y = val h x"
    using deep_copier.copy_val [OF fields z(1)] alloc by (simp add: val z(2) put addrs)
  show "addrs h' y \<subseteq> {next_addr h..<next_addr h'}"
    using deep_copier.copy_fresh [OF fields z(1)] alloc by (simp add: z(2) put addrs)
next
  fix x and h h' :: "'c heap"
  assume same: "\<And>a. a \<in> addrs h x \<Longrightarrow> cells h' a = cells h a"
  show "val h' x = val h x"
    using deep_copier.val_local [OF fields, of h "view x" h'] same by (simp add: val addrs)
  show "addrs h' x = addrs h x"
    using deep_copier.addrs_local [OF fields, of h "view x" h'] same by (simp add: addrs)
qed

end
