(* ===== verification/DeepCopy.thy ===== *)
theory DeepCopy
  imports HeapCopy
begin

text \<open>
  The deep copies of the API types (\<^verbatim>\<open>zz_generated.deepcopy.go\<close> of \<^verbatim>\<open>api/v1alpha1\<close>,
  and those of \<^verbatim>\<open>internal/types/iam.go\<close>), over the heap of \<open>HeapCopy\<close>.

  The method \<^verbatim>\<open>x.DeepCopyInto(out)\<close> is a function that returns what it stores in \<^verbatim>\<open>*out\<close>;
  \<^verbatim>\<open>out\<close> is another variable than the receiver. The assignment \<^verbatim>\<open>*out = *in\<close> is the record
  that is updated in the end. The metadata types of Kubernetes are third-party: their values
  are opaque, of types \<open>'m\<close> (ObjectMeta) and \<open>'l\<close> (ListMeta), and their copy functions
  parameters, with the locale \<open>metav1\<close> as their contract.
\<close>

section \<open>The types as they lie in memory\<close>

record GoHost =
  goHost :: string
  goPaths :: "slice option"

record GoAccount =
  goaName :: string
  goaExternalAllowlist :: "slice option"
  goaInternalAllowlist :: "slice option"
  goaCloudSQL :: "slice option"

record GoSpec =
  gosProject :: string
  gosDomain :: string
  gosServiceAccounts :: "slice option"

record GoStatus =
  gostConditions :: "slice option"

record TypeMeta =
  tmKind :: string
  tmAPIVersion :: string

record 'm GoUTSA =
  gouTypeMeta :: TypeMeta
  gouObjectMeta :: 'm
  gouSpec :: GoSpec
  gouStatus :: GoStatus

text \<open>The three list types have the same fields.\<close>

record 'l GoList =
  golTypeMeta :: TypeMeta
  golListMeta :: 'l
  golItems :: "slice option"

record GoResourceRef =
  gorApiVersion :: string
  gorExternal :: "addr option"
  gorKind :: string
  gorName :: "addr option"

record GoPMSpec =
  gopMember :: string
  gopRole :: string
  gopCondition :: "addr option"
  gopResourceRef :: GoResourceRef

record GoPMStatus =
  gopsConditions :: "slice option"
  gopsObservedGeneration :: int

record 'm GoPolicyMember =
  gopmTypeMeta :: TypeMeta
  gopmObjectMeta :: 'm
  gopmSpec :: GoPMSpec
  gopmStatus :: GoPMStatus

record 'm GoIAMAccount =
  goiTypeMeta :: TypeMeta
  goiObjectMeta :: 'm
  goiDisplayName :: string

text \<open>Zero values, what \<^verbatim>\<open>new\<close> and \<^verbatim>\<open>make\<close> fill memory with.\<close>

definition zero_type_meta :: TypeMeta where
  "zero_type_meta = \<lparr>tmKind = [], tmAPIVersion = []\<rparr>"

definition zero_host :: GoHost where
  "zero_host = \<lparr>goHost = [], goPaths = None\<rparr>"

definition zero_cloudsql :: CloudSQLInstance where
  "zero_cloudsql = \<lparr>sqlIP = []\<rparr>"

definition zero_account :: GoAccount where
  "zero_account = \<lparr>goaName = [], goaExternalAllowlist = None, goaInternalAllowlist = None,
     goaCloudSQL = None\<rparr>"

definition zero_spec :: GoSpec where
  "zero_spec = \<lparr>gosProject = [], gosDomain = [], gosServiceAccounts = None\<rparr>"

definition zero_status :: GoStatus where
  "zero_status = \<lparr>gostConditions = None\<rparr>"

definition zero_condition :: MetaCondition where
  "zero_condition = \<lparr>mcType = [], mcStatus = [], mcObservedGeneration = 0,
     mcLastTransitionTime = 0, mcReason = [], mcMessage = []\<rparr>"

definition zero_utsa :: "'m \<Rightarrow> 'm GoUTSA" where
  "zero_utsa z = \<lparr>gouTypeMeta = zero_type_meta, gouObjectMeta = z, gouSpec = zero_spec,
     gouStatus = zero_status\<rparr>"

definition zero_list :: "'l \<Rightarrow> 'l GoList" where
  "zero_list z = \<lparr>golTypeMeta = zero_type_meta, golListMeta = z, golItems = None\<rparr>"

definition zero_iam_condition :: IAMCondition where
  "zero_iam_condition = \<lparr>condTitle = [], condDescription = [], condExpression = []\<rparr>"

definition zero_resource_ref :: GoResourceRef where
  "zero_resource_ref = \<lparr>gorApiVersion = [], gorExternal = None, gorKind = [], gorName = None\<rparr>"

definition zero_pm_spec :: GoPMSpec where
  "zero_pm_spec = \<lparr>gopMember = [], gopRole = [], gopCondition = None,
     gopResourceRef = zero_resource_ref\<rparr>"

definition zero_pm_status :: GoPMStatus where
  "zero_pm_status = \<lparr>gopsConditions = None, gopsObservedGeneration = 0\<rparr>"

definition zero_policy_member :: "'m \<Rightarrow> 'm GoPolicyMember" where
  "zero_policy_member z = \<lparr>gopmTypeMeta = zero_type_meta, gopmObjectMeta = z,
     gopmSpec = zero_pm_spec, gopmStatus = zero_pm_status\<rparr>"

definition zero_iam_account :: "'m \<Rightarrow> 'm GoIAMAccount" where
  "zero_iam_account z = \<lparr>goiTypeMeta = zero_type_meta, goiObjectMeta = z, goiDisplayName = []\<rparr>"

text \<open>What a cell of memory holds: an array, or the target of a pointer.\<close>

datatype ('m, 'l) cell =
    StringsCell "string list"
  | HostsCell "GoHost list"
  | CloudSQLsCell "CloudSQLInstance list"
  | AccountsCell "GoAccount list"
  | ConditionsCell "MetaCondition list"
  | UTSAsCell "'m GoUTSA list"
  | PolicyMembersCell "'m GoPolicyMember list"
  | IAMAccountsCell "'m GoIAMAccount list"
  | StringCell "string"
  | IAMConditionCell "IAMCondition"
  | CloudSQLCell "CloudSQLInstance"
  | HostCell "GoHost"
  | AccountCell "GoAccount"
  | SpecCell "GoSpec"
  | StatusCell "GoStatus"
  | UTSACell "'m GoUTSA"
  | UTSAListCell "'l GoList"
  | ResourceRefCell "GoResourceRef"
  | PMSpecCell "GoPMSpec"
  | PMStatusCell "GoPMStatus"
  | PolicyMemberCell "'m GoPolicyMember"
  | PolicyMemberListCell "'l GoList"
  | IAMAccountCell "'m GoIAMAccount"
  | IAMAccountListCell "'l GoList"

text \<open>Reading a cell at a type; memory is typed, so a cell of another type is never read.\<close>

fun strings_of :: "('m, 'l) cell \<Rightarrow> string list" where
  "strings_of (StringsCell xs) = xs"
| "strings_of _ = []"

fun hosts_of :: "('m, 'l) cell \<Rightarrow> GoHost list" where
  "hosts_of (HostsCell xs) = xs"
| "hosts_of _ = []"

fun cloudsqls_of :: "('m, 'l) cell \<Rightarrow> CloudSQLInstance list" where
  "cloudsqls_of (CloudSQLsCell xs) = xs"
| "cloudsqls_of _ = []"

fun accounts_of :: "('m, 'l) cell \<Rightarrow> GoAccount list" where
  "accounts_of (AccountsCell xs) = xs"
| "accounts_of _ = []"

fun conditions_of :: "('m, 'l) cell \<Rightarrow> MetaCondition list" where
  "conditions_of (ConditionsCell xs) = xs"
| "conditions_of _ = []"

fun utsas_of :: "('m, 'l) cell \<Rightarrow> 'm GoUTSA list" where
  "utsas_of (UTSAsCell xs) = xs"
| "utsas_of _ = []"

fun policy_members_of :: "('m, 'l) cell \<Rightarrow> 'm GoPolicyMember list" where
  "policy_members_of (PolicyMembersCell xs) = xs"
| "policy_members_of _ = []"

fun iam_accounts_of :: "('m, 'l) cell \<Rightarrow> 'm GoIAMAccount list" where
  "iam_accounts_of (IAMAccountsCell xs) = xs"
| "iam_accounts_of _ = []"

fun string_of :: "('m, 'l) cell \<Rightarrow> string" where
  "string_of (StringCell x) = x"
| "string_of _ = []"

fun iam_condition_of :: "('m, 'l) cell \<Rightarrow> IAMCondition" where
  "iam_condition_of (IAMConditionCell x) = x"
| "iam_condition_of _ = zero_iam_condition"

fun cloudsql_of :: "('m, 'l) cell \<Rightarrow> CloudSQLInstance" where
  "cloudsql_of (CloudSQLCell x) = x"
| "cloudsql_of _ = zero_cloudsql"

fun host_of :: "('m, 'l) cell \<Rightarrow> GoHost" where
  "host_of (HostCell x) = x"
| "host_of _ = zero_host"

fun account_of :: "('m, 'l) cell \<Rightarrow> GoAccount" where
  "account_of (AccountCell x) = x"
| "account_of _ = zero_account"

fun spec_of :: "('m, 'l) cell \<Rightarrow> GoSpec" where
  "spec_of (SpecCell x) = x"
| "spec_of _ = zero_spec"

fun status_of :: "('m, 'l) cell \<Rightarrow> GoStatus" where
  "status_of (StatusCell x) = x"
| "status_of _ = zero_status"

fun utsa_of :: "'m \<Rightarrow> ('m, 'l) cell \<Rightarrow> 'm GoUTSA" where
  "utsa_of z (UTSACell x) = x"
| "utsa_of z _ = zero_utsa z"

fun utsa_list_of :: "'l \<Rightarrow> ('m, 'l) cell \<Rightarrow> 'l GoList" where
  "utsa_list_of z (UTSAListCell x) = x"
| "utsa_list_of z _ = zero_list z"

fun resource_ref_of :: "('m, 'l) cell \<Rightarrow> GoResourceRef" where
  "resource_ref_of (ResourceRefCell x) = x"
| "resource_ref_of _ = zero_resource_ref"

fun pm_spec_of :: "('m, 'l) cell \<Rightarrow> GoPMSpec" where
  "pm_spec_of (PMSpecCell x) = x"
| "pm_spec_of _ = zero_pm_spec"

fun pm_status_of :: "('m, 'l) cell \<Rightarrow> GoPMStatus" where
  "pm_status_of (PMStatusCell x) = x"
| "pm_status_of _ = zero_pm_status"

fun policy_member_of :: "'m \<Rightarrow> ('m, 'l) cell \<Rightarrow> 'm GoPolicyMember" where
  "policy_member_of z (PolicyMemberCell x) = x"
| "policy_member_of z _ = zero_policy_member z"

fun policy_member_list_of :: "'l \<Rightarrow> ('m, 'l) cell \<Rightarrow> 'l GoList" where
  "policy_member_list_of z (PolicyMemberListCell x) = x"
| "policy_member_list_of z _ = zero_list z"

fun iam_account_of :: "'m \<Rightarrow> ('m, 'l) cell \<Rightarrow> 'm GoIAMAccount" where
  "iam_account_of z (IAMAccountCell x) = x"
| "iam_account_of z _ = zero_iam_account z"

fun iam_account_list_of :: "'l \<Rightarrow> ('m, 'l) cell \<Rightarrow> 'l GoList" where
  "iam_account_list_of z (IAMAccountListCell x) = x"
| "iam_account_list_of z _ = zero_list z"

section \<open>The copy functions\<close>

text \<open>
  The copy functions of \<^verbatim>\<open>metav1.ObjectMeta\<close>, \<^verbatim>\<open>metav1.ListMeta\<close> and \<^verbatim>\<open>metav1.Condition\<close>,
  and the zero values of the first two.
\<close>

record ('m, 'l) meta_ops =
  moCopy :: "'m \<Rightarrow> ('m, 'l) cell heap \<Rightarrow> 'm \<times> ('m, 'l) cell heap"
  moZero :: 'm
  mlCopy :: "'l \<Rightarrow> ('m, 'l) cell heap \<Rightarrow> 'l \<times> ('m, 'l) cell heap"
  mlZero :: 'l
  mcCopy :: "MetaCondition \<Rightarrow> ('m, 'l) cell heap \<Rightarrow> MetaCondition \<times> ('m, 'l) cell heap"

definition CloudSQLInstance_DeepCopyInto ::
    "CloudSQLInstance \<Rightarrow> ('m, 'l) cell heap \<Rightarrow> CloudSQLInstance \<times> ('m, 'l) cell heap" where
  "CloudSQLInstance_DeepCopyInto = copy_plain"

definition CloudSQLInstance_DeepCopy ::
    "addr option \<Rightarrow> ('m, 'l) cell heap \<Rightarrow> addr option \<times> ('m, 'l) cell heap" where
  "CloudSQLInstance_DeepCopy = copy_pointer cloudsql_of CloudSQLCell zero_cloudsql
     CloudSQLInstance_DeepCopyInto"

definition Host_DeepCopyInto ::
    "GoHost \<Rightarrow> ('m, 'l) cell heap \<Rightarrow> GoHost \<times> ('m, 'l) cell heap" where
  "Host_DeepCopyInto x h =
     (case copy_slice strings_of StringsCell [] copy_plain
          (goPaths x) h of (paths, h1) \<Rightarrow>
       (x\<lparr>goPaths := paths\<rparr>, h1))"

definition Host_DeepCopy ::
    "addr option \<Rightarrow> ('m, 'l) cell heap \<Rightarrow> addr option \<times> ('m, 'l) cell heap" where
  "Host_DeepCopy = copy_pointer host_of HostCell zero_host
     Host_DeepCopyInto"

definition UnionServiceAccount_DeepCopyInto ::
    "GoAccount \<Rightarrow> ('m, 'l) cell heap \<Rightarrow> GoAccount \<times> ('m, 'l) cell heap" where
  "UnionServiceAccount_DeepCopyInto x h =
     (case copy_slice hosts_of HostsCell zero_host Host_DeepCopyInto
          (goaExternalAllowlist x) h of (external, h1) \<Rightarrow>
      (case copy_slice hosts_of HostsCell zero_host Host_DeepCopyInto
           (goaInternalAllowlist x) h1 of (internal, h2) \<Rightarrow>
       (case copy_slice cloudsqls_of CloudSQLsCell zero_cloudsql CloudSQLInstance_DeepCopyInto
            (goaCloudSQL x) h2 of (cloudSQL, h3) \<Rightarrow>
         (x\<lparr>goaExternalAllowlist := external, goaInternalAllowlist := internal, goaCloudSQL := cloudSQL\<rparr>, h3))))"

definition UnionServiceAccount_DeepCopy ::
    "addr option \<Rightarrow> ('m, 'l) cell heap \<Rightarrow> addr option \<times> ('m, 'l) cell heap" where
  "UnionServiceAccount_DeepCopy = copy_pointer account_of AccountCell zero_account
     UnionServiceAccount_DeepCopyInto"

definition UnionTeamServiceAccountsSpec_DeepCopyInto ::
    "GoSpec \<Rightarrow> ('m, 'l) cell heap \<Rightarrow> GoSpec \<times> ('m, 'l) cell heap" where
  "UnionTeamServiceAccountsSpec_DeepCopyInto x h =
     (case copy_slice accounts_of AccountsCell zero_account UnionServiceAccount_DeepCopyInto
          (gosServiceAccounts x) h of (accounts, h1) \<Rightarrow>
       (x\<lparr>gosServiceAccounts := accounts\<rparr>, h1))"

definition UnionTeamServiceAccountsSpec_DeepCopy ::
    "addr option \<Rightarrow> ('m, 'l) cell heap \<Rightarrow> addr option \<times> ('m, 'l) cell heap" where
  "UnionTeamServiceAccountsSpec_DeepCopy = copy_pointer spec_of SpecCell zero_spec
     UnionTeamServiceAccountsSpec_DeepCopyInto"

definition UnionTeamServiceAccountsStatus_DeepCopyInto ::
    "('m, 'l) meta_ops \<Rightarrow> GoStatus \<Rightarrow> ('m, 'l) cell heap \<Rightarrow> GoStatus \<times> ('m, 'l) cell heap" where
  "UnionTeamServiceAccountsStatus_DeepCopyInto M x h =
     (case copy_slice conditions_of ConditionsCell zero_condition (mcCopy M)
          (gostConditions x) h of (conditions, h1) \<Rightarrow>
       (x\<lparr>gostConditions := conditions\<rparr>, h1))"

definition UnionTeamServiceAccountsStatus_DeepCopy ::
    "('m, 'l) meta_ops \<Rightarrow> addr option \<Rightarrow> ('m, 'l) cell heap \<Rightarrow> addr option \<times> ('m, 'l) cell heap" where
  "UnionTeamServiceAccountsStatus_DeepCopy M = copy_pointer status_of StatusCell zero_status
     (UnionTeamServiceAccountsStatus_DeepCopyInto M)"

definition UnionTeamServiceAccounts_DeepCopyInto ::
    "('m, 'l) meta_ops \<Rightarrow> 'm GoUTSA \<Rightarrow> ('m, 'l) cell heap \<Rightarrow> 'm GoUTSA \<times> ('m, 'l) cell heap" where
  "UnionTeamServiceAccounts_DeepCopyInto M x h =
     (case moCopy M
          (gouObjectMeta x) h of (meta, h1) \<Rightarrow>
      (case UnionTeamServiceAccountsSpec_DeepCopyInto
           (gouSpec x) h1 of (spec, h2) \<Rightarrow>
       (case UnionTeamServiceAccountsStatus_DeepCopyInto M
            (gouStatus x) h2 of (status, h3) \<Rightarrow>
         (x\<lparr>gouObjectMeta := meta, gouSpec := spec, gouStatus := status\<rparr>, h3))))"

definition UnionTeamServiceAccounts_DeepCopy ::
    "('m, 'l) meta_ops \<Rightarrow> addr option \<Rightarrow> ('m, 'l) cell heap \<Rightarrow> addr option \<times> ('m, 'l) cell heap" where
  "UnionTeamServiceAccounts_DeepCopy M = copy_pointer (utsa_of (moZero M)) UTSACell (zero_utsa (moZero M))
     (UnionTeamServiceAccounts_DeepCopyInto M)"

definition UnionTeamServiceAccountsList_DeepCopyInto ::
    "('m, 'l) meta_ops \<Rightarrow> 'l GoList \<Rightarrow> ('m, 'l) cell heap \<Rightarrow> 'l GoList \<times> ('m, 'l) cell heap" where
  "UnionTeamServiceAccountsList_DeepCopyInto M x h =
     (case mlCopy M
          (golListMeta x) h of (meta, h1) \<Rightarrow>
      (case copy_slice utsas_of UTSAsCell (zero_utsa (moZero M)) (UnionTeamServiceAccounts_DeepCopyInto M)
           (golItems x) h1 of (items, h2) \<Rightarrow>
        (x\<lparr>golListMeta := meta, golItems := items\<rparr>, h2)))"

definition UnionTeamServiceAccountsList_DeepCopy ::
    "('m, 'l) meta_ops \<Rightarrow> addr option \<Rightarrow> ('m, 'l) cell heap \<Rightarrow> addr option \<times> ('m, 'l) cell heap" where
  "UnionTeamServiceAccountsList_DeepCopy M = copy_pointer (utsa_list_of (mlZero M)) UTSAListCell (zero_list (mlZero M))
     (UnionTeamServiceAccountsList_DeepCopyInto M)"

definition ResourceRef_DeepCopyInto ::
    "GoResourceRef \<Rightarrow> ('m, 'l) cell heap \<Rightarrow> GoResourceRef \<times> ('m, 'l) cell heap" where
  "ResourceRef_DeepCopyInto x h =
     (case copy_pointer string_of StringCell [] copy_plain
          (gorExternal x) h of (external, h1) \<Rightarrow>
      (case copy_pointer string_of StringCell [] copy_plain
           (gorName x) h1 of (name, h2) \<Rightarrow>
        (x\<lparr>gorExternal := external, gorName := name\<rparr>, h2)))"

definition ResourceRef_DeepCopy ::
    "addr option \<Rightarrow> ('m, 'l) cell heap \<Rightarrow> addr option \<times> ('m, 'l) cell heap" where
  "ResourceRef_DeepCopy = copy_pointer resource_ref_of ResourceRefCell zero_resource_ref
     ResourceRef_DeepCopyInto"

definition IAMPolicyMemberSpec_DeepCopyInto ::
    "GoPMSpec \<Rightarrow> ('m, 'l) cell heap \<Rightarrow> GoPMSpec \<times> ('m, 'l) cell heap" where
  "IAMPolicyMemberSpec_DeepCopyInto x h =
     (case copy_pointer iam_condition_of IAMConditionCell zero_iam_condition copy_plain
          (gopCondition x) h of (condition, h1) \<Rightarrow>
      (case ResourceRef_DeepCopyInto
           (gopResourceRef x) h1 of (ref, h2) \<Rightarrow>
        (x\<lparr>gopCondition := condition, gopResourceRef := ref\<rparr>, h2)))"

definition IAMPolicyMemberSpec_DeepCopy ::
    "addr option \<Rightarrow> ('m, 'l) cell heap \<Rightarrow> addr option \<times> ('m, 'l) cell heap" where
  "IAMPolicyMemberSpec_DeepCopy = copy_pointer pm_spec_of PMSpecCell zero_pm_spec
     IAMPolicyMemberSpec_DeepCopyInto"

definition IAMPolicyMemberStatus_DeepCopyInto ::
    "('m, 'l) meta_ops \<Rightarrow> GoPMStatus \<Rightarrow> ('m, 'l) cell heap \<Rightarrow> GoPMStatus \<times> ('m, 'l) cell heap" where
  "IAMPolicyMemberStatus_DeepCopyInto M x h =
     (case copy_slice conditions_of ConditionsCell zero_condition (mcCopy M)
          (gopsConditions x) h of (conditions, h1) \<Rightarrow>
       (x\<lparr>gopsConditions := conditions\<rparr>, h1))"

definition IAMPolicyMemberStatus_DeepCopy ::
    "('m, 'l) meta_ops \<Rightarrow> addr option \<Rightarrow> ('m, 'l) cell heap \<Rightarrow> addr option \<times> ('m, 'l) cell heap" where
  "IAMPolicyMemberStatus_DeepCopy M = copy_pointer pm_status_of PMStatusCell zero_pm_status
     (IAMPolicyMemberStatus_DeepCopyInto M)"

definition IAMPolicyMember_DeepCopyInto ::
    "('m, 'l) meta_ops \<Rightarrow> 'm GoPolicyMember \<Rightarrow> ('m, 'l) cell heap \<Rightarrow> 'm GoPolicyMember \<times> ('m, 'l) cell heap" where
  "IAMPolicyMember_DeepCopyInto M x h =
     (case moCopy M
          (gopmObjectMeta x) h of (meta, h1) \<Rightarrow>
      (case IAMPolicyMemberSpec_DeepCopyInto
           (gopmSpec x) h1 of (spec, h2) \<Rightarrow>
       (case IAMPolicyMemberStatus_DeepCopyInto M
            (gopmStatus x) h2 of (status, h3) \<Rightarrow>
         (x\<lparr>gopmObjectMeta := meta, gopmSpec := spec, gopmStatus := status\<rparr>, h3))))"

definition IAMPolicyMember_DeepCopy ::
    "('m, 'l) meta_ops \<Rightarrow> addr option \<Rightarrow> ('m, 'l) cell heap \<Rightarrow> addr option \<times> ('m, 'l) cell heap" where
  "IAMPolicyMember_DeepCopy M = copy_pointer (policy_member_of (moZero M)) PolicyMemberCell (zero_policy_member (moZero M))
     (IAMPolicyMember_DeepCopyInto M)"

definition IAMPolicyMemberList_DeepCopyInto ::
    "('m, 'l) meta_ops \<Rightarrow> 'l GoList \<Rightarrow> ('m, 'l) cell heap \<Rightarrow> 'l GoList \<times> ('m, 'l) cell heap" where
  "IAMPolicyMemberList_DeepCopyInto M x h =
     (case mlCopy M
          (golListMeta x) h of (meta, h1) \<Rightarrow>
      (case copy_slice policy_members_of PolicyMembersCell (zero_policy_member (moZero M)) (IAMPolicyMember_DeepCopyInto M)
           (golItems x) h1 of (items, h2) \<Rightarrow>
        (x\<lparr>golListMeta := meta, golItems := items\<rparr>, h2)))"

definition IAMPolicyMemberList_DeepCopy ::
    "('m, 'l) meta_ops \<Rightarrow> addr option \<Rightarrow> ('m, 'l) cell heap \<Rightarrow> addr option \<times> ('m, 'l) cell heap" where
  "IAMPolicyMemberList_DeepCopy M = copy_pointer (policy_member_list_of (mlZero M)) PolicyMemberListCell (zero_list (mlZero M))
     (IAMPolicyMemberList_DeepCopyInto M)"

definition IAMServiceAccount_DeepCopyInto ::
    "('m, 'l) meta_ops \<Rightarrow> 'm GoIAMAccount \<Rightarrow> ('m, 'l) cell heap \<Rightarrow> 'm GoIAMAccount \<times> ('m, 'l) cell heap" where
  "IAMServiceAccount_DeepCopyInto M x h =
     (case moCopy M
          (goiObjectMeta x) h of (meta, h1) \<Rightarrow>
       (x\<lparr>goiObjectMeta := meta\<rparr>, h1))"

definition IAMServiceAccount_DeepCopy ::
    "('m, 'l) meta_ops \<Rightarrow> addr option \<Rightarrow> ('m, 'l) cell heap \<Rightarrow> addr option \<times> ('m, 'l) cell heap" where
  "IAMServiceAccount_DeepCopy M = copy_pointer (iam_account_of (moZero M)) IAMAccountCell (zero_iam_account (moZero M))
     (IAMServiceAccount_DeepCopyInto M)"

definition IAMServiceAccountList_DeepCopyInto ::
    "('m, 'l) meta_ops \<Rightarrow> 'l GoList \<Rightarrow> ('m, 'l) cell heap \<Rightarrow> 'l GoList \<times> ('m, 'l) cell heap" where
  "IAMServiceAccountList_DeepCopyInto M x h =
     (case mlCopy M
          (golListMeta x) h of (meta, h1) \<Rightarrow>
      (case copy_slice iam_accounts_of IAMAccountsCell (zero_iam_account (moZero M)) (IAMServiceAccount_DeepCopyInto M)
           (golItems x) h1 of (items, h2) \<Rightarrow>
        (x\<lparr>golListMeta := meta, golItems := items\<rparr>, h2)))"

definition IAMServiceAccountList_DeepCopy ::
    "('m, 'l) meta_ops \<Rightarrow> addr option \<Rightarrow> ('m, 'l) cell heap \<Rightarrow> addr option \<times> ('m, 'l) cell heap" where
  "IAMServiceAccountList_DeepCopy M = copy_pointer (iam_account_list_of (mlZero M)) IAMAccountListCell (zero_list (mlZero M))
     (IAMServiceAccountList_DeepCopyInto M)"

text \<open>
  \<^verbatim>\<open>DeepCopyObject\<close> returns an interface. A nil interface is not an interface that holds a nil
  pointer.
\<close>

datatype object_type = UTSAType | UTSAListType | IAMPolicyMemberType | IAMPolicyMemberListType
  | IAMServiceAccountType | IAMServiceAccountListType

datatype runtime_object = NilObject | Object object_type "addr option"

definition as_object ::
    "object_type \<Rightarrow> (addr option \<Rightarrow> 'c heap \<Rightarrow> addr option \<times> 'c heap) \<Rightarrow> addr option \<Rightarrow> 'c heap
       \<Rightarrow> runtime_object \<times> 'c heap" where
  "as_object t DeepCopy p h =
     (case DeepCopy p h of (c, h1) \<Rightarrow> (if c \<noteq> None then Object t c else NilObject, h1))"

definition UnionTeamServiceAccounts_DeepCopyObject ::
    "('m, 'l) meta_ops \<Rightarrow> addr option \<Rightarrow> ('m, 'l) cell heap \<Rightarrow> runtime_object \<times> ('m, 'l) cell heap" where
  "UnionTeamServiceAccounts_DeepCopyObject M = as_object UTSAType (UnionTeamServiceAccounts_DeepCopy M)"

definition UnionTeamServiceAccountsList_DeepCopyObject ::
    "('m, 'l) meta_ops \<Rightarrow> addr option \<Rightarrow> ('m, 'l) cell heap \<Rightarrow> runtime_object \<times> ('m, 'l) cell heap" where
  "UnionTeamServiceAccountsList_DeepCopyObject M = as_object UTSAListType (UnionTeamServiceAccountsList_DeepCopy M)"

definition IAMPolicyMember_DeepCopyObject ::
    "('m, 'l) meta_ops \<Rightarrow> addr option \<Rightarrow> ('m, 'l) cell heap \<Rightarrow> runtime_object \<times> ('m, 'l) cell heap" where
  "IAMPolicyMember_DeepCopyObject M = as_object IAMPolicyMemberType (IAMPolicyMember_DeepCopy M)"

definition IAMPolicyMemberList_DeepCopyObject ::
    "('m, 'l) meta_ops \<Rightarrow> addr option \<Rightarrow> ('m, 'l) cell heap \<Rightarrow> runtime_object \<times> ('m, 'l) cell heap" where
  "IAMPolicyMemberList_DeepCopyObject M = as_object IAMPolicyMemberListType (IAMPolicyMemberList_DeepCopy M)"

definition IAMServiceAccount_DeepCopyObject ::
    "('m, 'l) meta_ops \<Rightarrow> addr option \<Rightarrow> ('m, 'l) cell heap \<Rightarrow> runtime_object \<times> ('m, 'l) cell heap" where
  "IAMServiceAccount_DeepCopyObject M = as_object IAMServiceAccountType (IAMServiceAccount_DeepCopy M)"

definition IAMServiceAccountList_DeepCopyObject ::
    "('m, 'l) meta_ops \<Rightarrow> addr option \<Rightarrow> ('m, 'l) cell heap \<Rightarrow> runtime_object \<times> ('m, 'l) cell heap" where
  "IAMServiceAccountList_DeepCopyObject M = as_object IAMServiceAccountListType (IAMServiceAccountList_DeepCopy M)"

section \<open>Contents, and the memory a value reaches\<close>

text \<open>
  The content of a value is a tuple of its plain fields and the contents of the others, nil
  being different from empty.
\<close>

definition Host_value where
  "Host_value h x =
     (goHost x,
      slice_val strings_of [] (\<lambda>h x. x) h (goPaths x))"

definition Host_addrs where
  "Host_addrs h x =
     slice_addrs strings_of [] (\<lambda>h x. {}) h (goPaths x)"

definition UnionServiceAccount_value where
  "UnionServiceAccount_value h x =
     (goaName x,
      slice_val hosts_of zero_host Host_value h (goaExternalAllowlist x),
      slice_val hosts_of zero_host Host_value h (goaInternalAllowlist x),
      slice_val cloudsqls_of zero_cloudsql (\<lambda>h x. x) h (goaCloudSQL x))"

definition UnionServiceAccount_addrs where
  "UnionServiceAccount_addrs h x =
     slice_addrs hosts_of zero_host Host_addrs h (goaExternalAllowlist x)
     \<union> slice_addrs hosts_of zero_host Host_addrs h (goaInternalAllowlist x)
     \<union> slice_addrs cloudsqls_of zero_cloudsql (\<lambda>h x. {}) h (goaCloudSQL x)"

definition UnionTeamServiceAccountsSpec_value where
  "UnionTeamServiceAccountsSpec_value h x =
     ((gosProject x, gosDomain x),
      slice_val accounts_of zero_account UnionServiceAccount_value h (gosServiceAccounts x))"

definition UnionTeamServiceAccountsSpec_addrs where
  "UnionTeamServiceAccountsSpec_addrs h x =
     slice_addrs accounts_of zero_account UnionServiceAccount_addrs h (gosServiceAccounts x)"

definition UnionTeamServiceAccountsStatus_value where
  "UnionTeamServiceAccountsStatus_value h x =
     ((),
      slice_val conditions_of zero_condition (\<lambda>h x. x) h (gostConditions x))"

definition UnionTeamServiceAccountsStatus_addrs where
  "UnionTeamServiceAccountsStatus_addrs h x =
     slice_addrs conditions_of zero_condition (\<lambda>h x. {}) h (gostConditions x)"

definition UnionTeamServiceAccounts_value where
  "UnionTeamServiceAccounts_value om_val h x =
     (gouTypeMeta x,
      om_val h (gouObjectMeta x),
      UnionTeamServiceAccountsSpec_value h (gouSpec x),
      UnionTeamServiceAccountsStatus_value h (gouStatus x))"

definition UnionTeamServiceAccounts_addrs where
  "UnionTeamServiceAccounts_addrs om_addrs h x =
     om_addrs h (gouObjectMeta x)
     \<union> UnionTeamServiceAccountsSpec_addrs h (gouSpec x)
     \<union> UnionTeamServiceAccountsStatus_addrs h (gouStatus x)"

definition UnionTeamServiceAccountsList_value where
  "UnionTeamServiceAccountsList_value M om_val lm_val h x =
     (golTypeMeta x,
      lm_val h (golListMeta x),
      slice_val utsas_of (zero_utsa (moZero M)) (UnionTeamServiceAccounts_value om_val) h (golItems x))"

definition UnionTeamServiceAccountsList_addrs where
  "UnionTeamServiceAccountsList_addrs M om_addrs lm_addrs h x =
     lm_addrs h (golListMeta x)
     \<union> slice_addrs utsas_of (zero_utsa (moZero M)) (UnionTeamServiceAccounts_addrs om_addrs) h (golItems x)"

definition ResourceRef_value where
  "ResourceRef_value h x =
     ((gorApiVersion x, gorKind x),
      pointer_val string_of (\<lambda>h x. x) h (gorExternal x),
      pointer_val string_of (\<lambda>h x. x) h (gorName x))"

definition ResourceRef_addrs where
  "ResourceRef_addrs h x =
     pointer_addrs string_of (\<lambda>h x. {}) h (gorExternal x)
     \<union> pointer_addrs string_of (\<lambda>h x. {}) h (gorName x)"

definition IAMPolicyMemberSpec_value where
  "IAMPolicyMemberSpec_value h x =
     ((gopMember x, gopRole x),
      pointer_val iam_condition_of (\<lambda>h x. x) h (gopCondition x),
      ResourceRef_value h (gopResourceRef x))"

definition IAMPolicyMemberSpec_addrs where
  "IAMPolicyMemberSpec_addrs h x =
     pointer_addrs iam_condition_of (\<lambda>h x. {}) h (gopCondition x)
     \<union> ResourceRef_addrs h (gopResourceRef x)"

definition IAMPolicyMemberStatus_value where
  "IAMPolicyMemberStatus_value h x =
     (gopsObservedGeneration x,
      slice_val conditions_of zero_condition (\<lambda>h x. x) h (gopsConditions x))"

definition IAMPolicyMemberStatus_addrs where
  "IAMPolicyMemberStatus_addrs h x =
     slice_addrs conditions_of zero_condition (\<lambda>h x. {}) h (gopsConditions x)"

definition IAMPolicyMember_value where
  "IAMPolicyMember_value om_val h x =
     (gopmTypeMeta x,
      om_val h (gopmObjectMeta x),
      IAMPolicyMemberSpec_value h (gopmSpec x),
      IAMPolicyMemberStatus_value h (gopmStatus x))"

definition IAMPolicyMember_addrs where
  "IAMPolicyMember_addrs om_addrs h x =
     om_addrs h (gopmObjectMeta x)
     \<union> IAMPolicyMemberSpec_addrs h (gopmSpec x)
     \<union> IAMPolicyMemberStatus_addrs h (gopmStatus x)"

definition IAMPolicyMemberList_value where
  "IAMPolicyMemberList_value M om_val lm_val h x =
     (golTypeMeta x,
      lm_val h (golListMeta x),
      slice_val policy_members_of (zero_policy_member (moZero M)) (IAMPolicyMember_value om_val) h (golItems x))"

definition IAMPolicyMemberList_addrs where
  "IAMPolicyMemberList_addrs M om_addrs lm_addrs h x =
     lm_addrs h (golListMeta x)
     \<union> slice_addrs policy_members_of (zero_policy_member (moZero M)) (IAMPolicyMember_addrs om_addrs) h (golItems x)"

definition IAMServiceAccount_value where
  "IAMServiceAccount_value om_val h x =
     ((goiTypeMeta x, goiDisplayName x),
      om_val h (goiObjectMeta x))"

definition IAMServiceAccount_addrs where
  "IAMServiceAccount_addrs om_addrs h x =
     om_addrs h (goiObjectMeta x)"

definition IAMServiceAccountList_value where
  "IAMServiceAccountList_value M om_val lm_val h x =
     (golTypeMeta x,
      lm_val h (golListMeta x),
      slice_val iam_accounts_of (zero_iam_account (moZero M)) (IAMServiceAccount_value om_val) h (golItems x))"

definition IAMServiceAccountList_addrs where
  "IAMServiceAccountList_addrs M om_addrs lm_addrs h x =
     lm_addrs h (golListMeta x)
     \<union> slice_addrs iam_accounts_of (zero_iam_account (moZero M)) (IAMServiceAccount_addrs om_addrs) h (golItems x)"

section \<open>Every copy function meets the contract\<close>

lemmas plain_deep_copier = plain.deep_copier_axioms

lemma CloudSQLInstance_deep: "deep_copier CloudSQLInstance_DeepCopyInto (\<lambda>h x. x) (\<lambda>h x. {})"
  unfolding CloudSQLInstance_DeepCopyInto_def by (rule plain_deep_copier)

lemma Host_deep:
  "deep_copier Host_DeepCopyInto Host_value
     Host_addrs"
  by (rule struct_deep_copier 
      [OF slice_deep_copier [where get = strings_of and mk = StringsCell and zero = "[]",
        OF plain_deep_copier strings_of.simps(1)],
      where combine = Pair and plain = "\<lambda>x. goHost x"
        and view = "\<lambda>x. goPaths x"
        and put = "\<lambda>paths x. x\<lparr>goPaths := paths\<rparr>"])
    (simp_all add: Host_DeepCopyInto_def Host_value_def
      Host_addrs_def copy_pair_def split_beta Un_assoc)

lemma UnionServiceAccount_deep:
  "deep_copier UnionServiceAccount_DeepCopyInto UnionServiceAccount_value
     UnionServiceAccount_addrs"
  by (rule struct_deep_copier [OF pair_deep_copier 
      [OF slice_deep_copier [where get = hosts_of and mk = HostsCell and zero = "zero_host",
        OF Host_deep hosts_of.simps(1)]
      pair_deep_copier 
      [OF slice_deep_copier [where get = hosts_of and mk = HostsCell and zero = "zero_host",
        OF Host_deep hosts_of.simps(1)]
      slice_deep_copier [where get = cloudsqls_of and mk = CloudSQLsCell and zero = "zero_cloudsql",
        OF CloudSQLInstance_deep cloudsqls_of.simps(1)]]],
      where combine = Pair and plain = "\<lambda>x. goaName x"
        and view = "\<lambda>x. (goaExternalAllowlist x, (goaInternalAllowlist x, goaCloudSQL x))"
        and put = "\<lambda>(external, (internal, cloudSQL)) x. 
          x\<lparr>goaExternalAllowlist := external, goaInternalAllowlist := internal, goaCloudSQL := cloudSQL\<rparr>"])
    (simp_all add: UnionServiceAccount_DeepCopyInto_def UnionServiceAccount_value_def
      UnionServiceAccount_addrs_def copy_pair_def split_beta Un_assoc)

lemma UnionTeamServiceAccountsSpec_deep:
  "deep_copier UnionTeamServiceAccountsSpec_DeepCopyInto UnionTeamServiceAccountsSpec_value
     UnionTeamServiceAccountsSpec_addrs"
  by (rule struct_deep_copier 
      [OF slice_deep_copier [where get = accounts_of and mk = AccountsCell and zero = "zero_account",
        OF UnionServiceAccount_deep accounts_of.simps(1)],
      where combine = Pair and plain = "\<lambda>x. (gosProject x, gosDomain x)"
        and view = "\<lambda>x. gosServiceAccounts x"
        and put = "\<lambda>accounts x. x\<lparr>gosServiceAccounts := accounts\<rparr>"])
    (simp_all add: UnionTeamServiceAccountsSpec_DeepCopyInto_def UnionTeamServiceAccountsSpec_value_def
      UnionTeamServiceAccountsSpec_addrs_def copy_pair_def split_beta Un_assoc)

lemma ResourceRef_deep:
  "deep_copier ResourceRef_DeepCopyInto ResourceRef_value
     ResourceRef_addrs"
  by (rule struct_deep_copier [OF pair_deep_copier 
      [OF pointer_deep_copier [where get = string_of and mk = StringCell and zero = "[]",
        OF plain_deep_copier string_of.simps(1)]
      pointer_deep_copier [where get = string_of and mk = StringCell and zero = "[]",
        OF plain_deep_copier string_of.simps(1)]],
      where combine = Pair and plain = "\<lambda>x. (gorApiVersion x, gorKind x)"
        and view = "\<lambda>x. (gorExternal x, gorName x)"
        and put = "\<lambda>(external, name) x. 
          x\<lparr>gorExternal := external, gorName := name\<rparr>"])
    (simp_all add: ResourceRef_DeepCopyInto_def ResourceRef_value_def
      ResourceRef_addrs_def copy_pair_def split_beta Un_assoc)

lemma IAMPolicyMemberSpec_deep:
  "deep_copier IAMPolicyMemberSpec_DeepCopyInto IAMPolicyMemberSpec_value
     IAMPolicyMemberSpec_addrs"
  by (rule struct_deep_copier [OF pair_deep_copier 
      [OF pointer_deep_copier [where get = iam_condition_of and mk = IAMConditionCell and zero = "zero_iam_condition",
        OF plain_deep_copier iam_condition_of.simps(1)]
      ResourceRef_deep],
      where combine = Pair and plain = "\<lambda>x. (gopMember x, gopRole x)"
        and view = "\<lambda>x. (gopCondition x, gopResourceRef x)"
        and put = "\<lambda>(condition, ref) x. 
          x\<lparr>gopCondition := condition, gopResourceRef := ref\<rparr>"])
    (simp_all add: IAMPolicyMemberSpec_DeepCopyInto_def IAMPolicyMemberSpec_value_def
      IAMPolicyMemberSpec_addrs_def copy_pair_def split_beta Un_assoc)

text \<open>
  The contract of the metadata's copy functions; a \<^verbatim>\<open>metav1.Condition\<close> holds no references.
\<close>

locale metav1 =
  object_meta: deep_copier "moCopy M" om_val om_addrs +
  list_meta: deep_copier "mlCopy M" lm_val lm_addrs +
  condition: deep_copier "mcCopy M" "\<lambda>h x. x" "\<lambda>h x. {}"
  for M :: "('m, 'l) meta_ops"
    and om_val :: "('m, 'l) cell heap \<Rightarrow> 'm \<Rightarrow> 'mv" and om_addrs :: "('m, 'l) cell heap \<Rightarrow> 'm \<Rightarrow> addr set"
    and lm_val :: "('m, 'l) cell heap \<Rightarrow> 'l \<Rightarrow> 'lv" and lm_addrs :: "('m, 'l) cell heap \<Rightarrow> 'l \<Rightarrow> addr set"
begin

lemma UnionTeamServiceAccountsStatus_deep:
  "deep_copier (UnionTeamServiceAccountsStatus_DeepCopyInto M) UnionTeamServiceAccountsStatus_value
     UnionTeamServiceAccountsStatus_addrs"
  by (rule struct_deep_copier 
      [OF slice_deep_copier [where get = conditions_of and mk = ConditionsCell and zero = "zero_condition",
        OF condition.deep_copier_axioms conditions_of.simps(1)],
      where combine = Pair and plain = "\<lambda>x. ()"
        and view = "\<lambda>x. gostConditions x"
        and put = "\<lambda>conditions x. x\<lparr>gostConditions := conditions\<rparr>"])
    (simp_all add: UnionTeamServiceAccountsStatus_DeepCopyInto_def UnionTeamServiceAccountsStatus_value_def
      UnionTeamServiceAccountsStatus_addrs_def copy_pair_def split_beta Un_assoc)

lemma UnionTeamServiceAccounts_deep:
  "deep_copier (UnionTeamServiceAccounts_DeepCopyInto M) (UnionTeamServiceAccounts_value om_val)
     (UnionTeamServiceAccounts_addrs om_addrs)"
  by (rule struct_deep_copier [OF pair_deep_copier [OF object_meta.deep_copier_axioms
      pair_deep_copier [OF UnionTeamServiceAccountsSpec_deep
      UnionTeamServiceAccountsStatus_deep]],
      where combine = Pair and plain = "\<lambda>x. gouTypeMeta x"
        and view = "\<lambda>x. (gouObjectMeta x, (gouSpec x, gouStatus x))"
        and put = "\<lambda>(meta, (spec, status)) x. 
          x\<lparr>gouObjectMeta := meta, gouSpec := spec, gouStatus := status\<rparr>"])
    (simp_all add: UnionTeamServiceAccounts_DeepCopyInto_def UnionTeamServiceAccounts_value_def
      UnionTeamServiceAccounts_addrs_def copy_pair_def split_beta Un_assoc)

lemma UnionTeamServiceAccountsList_deep:
  "deep_copier (UnionTeamServiceAccountsList_DeepCopyInto M) (UnionTeamServiceAccountsList_value M om_val lm_val)
     (UnionTeamServiceAccountsList_addrs M om_addrs lm_addrs)"
  by (rule struct_deep_copier [OF pair_deep_copier [OF list_meta.deep_copier_axioms
      slice_deep_copier [where get = utsas_of and mk = UTSAsCell and zero = "zero_utsa (moZero M)",
        OF UnionTeamServiceAccounts_deep utsas_of.simps(1)]],
      where combine = Pair and plain = "\<lambda>x. golTypeMeta x"
        and view = "\<lambda>x. (golListMeta x, golItems x)"
        and put = "\<lambda>(meta, items) x. 
          x\<lparr>golListMeta := meta, golItems := items\<rparr>"])
    (simp_all add: UnionTeamServiceAccountsList_DeepCopyInto_def UnionTeamServiceAccountsList_value_def
      UnionTeamServiceAccountsList_addrs_def copy_pair_def split_beta Un_assoc)

lemma IAMPolicyMemberStatus_deep:
  "deep_copier (IAMPolicyMemberStatus_DeepCopyInto M) IAMPolicyMemberStatus_value
     IAMPolicyMemberStatus_addrs"
  by (rule struct_deep_copier 
      [OF slice_deep_copier [where get = conditions_of and mk = ConditionsCell and zero = "zero_condition",
        OF condition.deep_copier_axioms conditions_of.simps(1)],
      where combine = Pair and plain = "\<lambda>x. gopsObservedGeneration x"
        and view = "\<lambda>x. gopsConditions x"
        and put = "\<lambda>conditions x. x\<lparr>gopsConditions := conditions\<rparr>"])
    (simp_all add: IAMPolicyMemberStatus_DeepCopyInto_def IAMPolicyMemberStatus_value_def
      IAMPolicyMemberStatus_addrs_def copy_pair_def split_beta Un_assoc)

lemma IAMPolicyMember_deep:
  "deep_copier (IAMPolicyMember_DeepCopyInto M) (IAMPolicyMember_value om_val)
     (IAMPolicyMember_addrs om_addrs)"
  by (rule struct_deep_copier [OF pair_deep_copier [OF object_meta.deep_copier_axioms
      pair_deep_copier [OF IAMPolicyMemberSpec_deep
      IAMPolicyMemberStatus_deep]],
      where combine = Pair and plain = "\<lambda>x. gopmTypeMeta x"
        and view = "\<lambda>x. (gopmObjectMeta x, (gopmSpec x, gopmStatus x))"
        and put = "\<lambda>(meta, (spec, status)) x. 
          x\<lparr>gopmObjectMeta := meta, gopmSpec := spec, gopmStatus := status\<rparr>"])
    (simp_all add: IAMPolicyMember_DeepCopyInto_def IAMPolicyMember_value_def
      IAMPolicyMember_addrs_def copy_pair_def split_beta Un_assoc)

lemma IAMPolicyMemberList_deep:
  "deep_copier (IAMPolicyMemberList_DeepCopyInto M) (IAMPolicyMemberList_value M om_val lm_val)
     (IAMPolicyMemberList_addrs M om_addrs lm_addrs)"
  by (rule struct_deep_copier [OF pair_deep_copier [OF list_meta.deep_copier_axioms
      slice_deep_copier [where get = policy_members_of and mk = PolicyMembersCell and zero = "zero_policy_member (moZero M)",
        OF IAMPolicyMember_deep policy_members_of.simps(1)]],
      where combine = Pair and plain = "\<lambda>x. golTypeMeta x"
        and view = "\<lambda>x. (golListMeta x, golItems x)"
        and put = "\<lambda>(meta, items) x. 
          x\<lparr>golListMeta := meta, golItems := items\<rparr>"])
    (simp_all add: IAMPolicyMemberList_DeepCopyInto_def IAMPolicyMemberList_value_def
      IAMPolicyMemberList_addrs_def copy_pair_def split_beta Un_assoc)

lemma IAMServiceAccount_deep:
  "deep_copier (IAMServiceAccount_DeepCopyInto M) (IAMServiceAccount_value om_val)
     (IAMServiceAccount_addrs om_addrs)"
  by (rule struct_deep_copier [OF object_meta.deep_copier_axioms,
      where combine = Pair and plain = "\<lambda>x. (goiTypeMeta x, goiDisplayName x)"
        and view = "\<lambda>x. goiObjectMeta x"
        and put = "\<lambda>meta x. x\<lparr>goiObjectMeta := meta\<rparr>"])
    (simp_all add: IAMServiceAccount_DeepCopyInto_def IAMServiceAccount_value_def
      IAMServiceAccount_addrs_def copy_pair_def split_beta Un_assoc)

lemma IAMServiceAccountList_deep:
  "deep_copier (IAMServiceAccountList_DeepCopyInto M) (IAMServiceAccountList_value M om_val lm_val)
     (IAMServiceAccountList_addrs M om_addrs lm_addrs)"
  by (rule struct_deep_copier [OF pair_deep_copier [OF list_meta.deep_copier_axioms
      slice_deep_copier [where get = iam_accounts_of and mk = IAMAccountsCell and zero = "zero_iam_account (moZero M)",
        OF IAMServiceAccount_deep iam_accounts_of.simps(1)]],
      where combine = Pair and plain = "\<lambda>x. golTypeMeta x"
        and view = "\<lambda>x. (golListMeta x, golItems x)"
        and put = "\<lambda>(meta, items) x. 
          x\<lparr>golListMeta := meta, golItems := items\<rparr>"])
    (simp_all add: IAMServiceAccountList_DeepCopyInto_def IAMServiceAccountList_value_def
      IAMServiceAccountList_addrs_def copy_pair_def split_beta Un_assoc)

end

section \<open>Copies are isolated\<close>

context metav1
begin

lemma UnionTeamServiceAccountsList_copy_isolated:
  assumes "UnionTeamServiceAccountsList_DeepCopy M p h = (q, h')"
    and "pointer_addrs (utsa_list_of (mlZero M)) (UnionTeamServiceAccountsList_addrs M om_addrs lm_addrs) h p
      \<subseteq> {..<next_addr h}"
  shows "isolated_copy (pointer_val (utsa_list_of (mlZero M)) (UnionTeamServiceAccountsList_value M om_val lm_val))
    (pointer_addrs (utsa_list_of (mlZero M)) (UnionTeamServiceAccountsList_addrs M om_addrs lm_addrs)) p h q h'"
  by (rule deep_copier.isolated [OF pointer_deep_copier [OF UnionTeamServiceAccountsList_deep] _ assms(2)])
    (use assms(1) in \<open>simp_all add: UnionTeamServiceAccountsList_DeepCopy_def\<close>)

lemma IAMPolicyMemberList_copy_isolated:
  assumes "IAMPolicyMemberList_DeepCopy M p h = (q, h')"
    and "pointer_addrs (policy_member_list_of (mlZero M)) (IAMPolicyMemberList_addrs M om_addrs lm_addrs) h p
      \<subseteq> {..<next_addr h}"
  shows "isolated_copy (pointer_val (policy_member_list_of (mlZero M)) (IAMPolicyMemberList_value M om_val lm_val))
    (pointer_addrs (policy_member_list_of (mlZero M)) (IAMPolicyMemberList_addrs M om_addrs lm_addrs)) p h q h'"
  by (rule deep_copier.isolated [OF pointer_deep_copier [OF IAMPolicyMemberList_deep] _ assms(2)])
    (use assms(1) in \<open>simp_all add: IAMPolicyMemberList_DeepCopy_def\<close>)

lemma IAMServiceAccountList_copy_isolated:
  assumes "IAMServiceAccountList_DeepCopy M p h = (q, h')"
    and "pointer_addrs (iam_account_list_of (mlZero M)) (IAMServiceAccountList_addrs M om_addrs lm_addrs) h p
      \<subseteq> {..<next_addr h}"
  shows "isolated_copy (pointer_val (iam_account_list_of (mlZero M)) (IAMServiceAccountList_value M om_val lm_val))
    (pointer_addrs (iam_account_list_of (mlZero M)) (IAMServiceAccountList_addrs M om_addrs lm_addrs)) p h q h'"
  by (rule deep_copier.isolated [OF pointer_deep_copier [OF IAMServiceAccountList_deep] _ assms(2)])
    (use assms(1) in \<open>simp_all add: IAMServiceAccountList_DeepCopy_def\<close>)

end

text \<open>
  An instance: an ObjectMeta that is its slice of finalizers, and a list of one resource
  whose account allows one host with one path.
\<close>

definition example_meta :: "(slice option, string) meta_ops" where
  "example_meta = \<lparr>moCopy = copy_slice strings_of StringsCell [] copy_plain, moZero = None,
     mlCopy = copy_plain, mlZero = [], mcCopy = copy_plain\<rparr>"

interpretation example_meta: metav1 example_meta
  "slice_val strings_of [] (\<lambda>h x. x)" "slice_addrs strings_of [] (\<lambda>h x. {})" "\<lambda>h x. x" "\<lambda>h x. {}"
proof (intro metav1.intro)
  show "deep_copier (moCopy example_meta) (slice_val strings_of [] (\<lambda>h x. x))
      (slice_addrs strings_of [] (\<lambda>h x. {}))"
    using slice_deep_copier [where get = strings_of and mk = StringsCell and zero = "[]",
        OF plain_deep_copier strings_of.simps(1)]
    by (simp add: example_meta_def)
qed (simp_all add: example_meta_def plain_deep_copier)

definition one :: "addr \<Rightarrow> slice option" where
  "one a = Some \<lparr>slArray = a, slOffset = 0, slLength = 1\<rparr>"

definition example_heap :: "(slice option, string) cell heap" where
  "example_heap =
     \<lparr>cells = (\<lambda>_. StringsCell [])
        (0 := UTSAListCell ((zero_list [])\<lparr>golItems := one 1\<rparr>),
         1 := UTSAsCell [(zero_utsa (one 2))\<lparr>gouSpec := zero_spec\<lparr>gosServiceAccounts := one 3\<rparr>\<rparr>],
         2 := StringsCell [''data.nav.no/finalizer''],
         3 := AccountsCell [zero_account\<lparr>goaName := ''sa'', goaExternalAllowlist := one 4\<rparr>],
         4 := HostsCell [\<lparr>goHost = ''vg.no'', goPaths = one 5\<rparr>],
         5 := StringsCell [''/news'']),
      next_addr = 6\<rparr>"

definition example_iam_heap :: "(slice option, string) cell heap" where
  "example_iam_heap =
     \<lparr>cells = (\<lambda>_. StringsCell [])
        (0 := PolicyMemberListCell ((zero_list [])\<lparr>golItems := one 1\<rparr>),
         1 := PolicyMembersCell [(zero_policy_member None)\<lparr>gopmSpec := zero_pm_spec
           \<lparr>gopCondition := Some 2, gopResourceRef := zero_resource_ref\<lparr>gorExternal := Some 3\<rparr>\<rparr>\<rparr>],
         2 := IAMConditionCell zero_iam_condition,
         3 := StringCell ''bucket'',
         4 := IAMAccountListCell ((zero_list [])\<lparr>golItems := one 5\<rparr>),
         5 := IAMAccountsCell [zero_iam_account (one 6)],
         6 := StringsCell [''f'']),
      next_addr = 7\<rparr>"

text \<open>
  C39. The deep copy of a list of resources, down to the paths of their hosts, is
  isolated: it has the content of the original, nil and empty slices told apart; making it
  changes no memory that was in use; it reaches new memory only; and from then on neither
  a change of the original's memory shows in the copy, nor the other way round.
\<close>

theorem UnionTeamServiceAccountsList_DeepCopy_isolated:
  assumes "metav1 M om_val om_addrs lm_val lm_addrs"
    and "UnionTeamServiceAccountsList_DeepCopy M p h = (q, h')"
    and "pointer_addrs (utsa_list_of (mlZero M)) (UnionTeamServiceAccountsList_addrs M om_addrs lm_addrs) h p
      \<subseteq> {..<next_addr h}"
  shows "isolated_copy (pointer_val (utsa_list_of (mlZero M)) (UnionTeamServiceAccountsList_value M om_val lm_val))
    (pointer_addrs (utsa_list_of (mlZero M)) (UnionTeamServiceAccountsList_addrs M om_addrs lm_addrs)) p h q h'"
  by (rule metav1.UnionTeamServiceAccountsList_copy_isolated [OF assms])

theorem UnionTeamServiceAccountsList_DeepCopy_isolated_witness:
  "case UnionTeamServiceAccountsList_DeepCopy example_meta (Some 0) example_heap of (q, h') \<Rightarrow>
     isolated_copy (pointer_val (utsa_list_of []) (UnionTeamServiceAccountsList_value example_meta
         (slice_val strings_of [] (\<lambda>h x. x)) (\<lambda>h x. x)))
       (pointer_addrs (utsa_list_of []) (UnionTeamServiceAccountsList_addrs example_meta
         (slice_addrs strings_of [] (\<lambda>h x. {})) (\<lambda>h x. {}))) (Some 0) example_heap q h'"
proof -
  obtain q h' where run: "UnionTeamServiceAccountsList_DeepCopy example_meta (Some 0) example_heap = (q, h')"
    by (cases "UnionTeamServiceAccountsList_DeepCopy example_meta (Some 0) example_heap")
  have "pointer_addrs (utsa_list_of (mlZero example_meta)) (UnionTeamServiceAccountsList_addrs example_meta
      (slice_addrs strings_of [] (\<lambda>h x. {})) (\<lambda>h x. {})) example_heap (Some 0)
    \<subseteq> {..<next_addr example_heap}"
    by (auto simp: pointer_addrs_def slice_addrs_def slice_elem_def example_heap_def one_def example_meta_def
        zero_list_def UnionTeamServiceAccountsList_addrs_def UnionTeamServiceAccounts_addrs_def
        UnionTeamServiceAccountsSpec_addrs_def UnionTeamServiceAccountsStatus_addrs_def
        UnionServiceAccount_addrs_def Host_addrs_def zero_utsa_def zero_spec_def zero_status_def
        zero_account_def split: option.splits)
  from UnionTeamServiceAccountsList_DeepCopy_isolated [OF example_meta.metav1_axioms run this] run
  show ?thesis by (simp add: example_meta_def)
qed

text \<open>
  C40. The deep copy of a list of policy members, with their conditions and the two
  optional strings of a resource reference, is isolated in the same sense.
\<close>

theorem IAMPolicyMemberList_DeepCopy_isolated:
  assumes "metav1 M om_val om_addrs lm_val lm_addrs"
    and "IAMPolicyMemberList_DeepCopy M p h = (q, h')"
    and "pointer_addrs (policy_member_list_of (mlZero M)) (IAMPolicyMemberList_addrs M om_addrs lm_addrs) h p
      \<subseteq> {..<next_addr h}"
  shows "isolated_copy (pointer_val (policy_member_list_of (mlZero M)) (IAMPolicyMemberList_value M om_val lm_val))
    (pointer_addrs (policy_member_list_of (mlZero M)) (IAMPolicyMemberList_addrs M om_addrs lm_addrs)) p h q h'"
  by (rule metav1.IAMPolicyMemberList_copy_isolated [OF assms])

theorem IAMPolicyMemberList_DeepCopy_isolated_witness:
  "case IAMPolicyMemberList_DeepCopy example_meta (Some 0) example_iam_heap of (q, h') \<Rightarrow>
     isolated_copy (pointer_val (policy_member_list_of []) (IAMPolicyMemberList_value example_meta
         (slice_val strings_of [] (\<lambda>h x. x)) (\<lambda>h x. x)))
       (pointer_addrs (policy_member_list_of []) (IAMPolicyMemberList_addrs example_meta
         (slice_addrs strings_of [] (\<lambda>h x. {})) (\<lambda>h x. {}))) (Some 0) example_iam_heap q h'"
proof -
  obtain q h' where run: "IAMPolicyMemberList_DeepCopy example_meta (Some 0) example_iam_heap = (q, h')"
    by (cases "IAMPolicyMemberList_DeepCopy example_meta (Some 0) example_iam_heap")
  have "pointer_addrs (policy_member_list_of (mlZero example_meta)) (IAMPolicyMemberList_addrs example_meta
      (slice_addrs strings_of [] (\<lambda>h x. {})) (\<lambda>h x. {})) example_iam_heap (Some 0)
    \<subseteq> {..<next_addr example_iam_heap}"
    by (auto simp: pointer_addrs_def slice_addrs_def slice_elem_def example_iam_heap_def one_def example_meta_def
        zero_list_def IAMPolicyMemberList_addrs_def IAMPolicyMember_addrs_def IAMPolicyMemberSpec_addrs_def
        IAMPolicyMemberStatus_addrs_def ResourceRef_addrs_def zero_policy_member_def zero_pm_spec_def
        zero_pm_status_def zero_resource_ref_def split: option.splits)
  from IAMPolicyMemberList_DeepCopy_isolated [OF example_meta.metav1_axioms run this] run
  show ?thesis by (simp add: example_meta_def)
qed

text \<open>
  The deep copy of a list of Google service accounts is isolated in the same sense.
\<close>

lemma IAMServiceAccountList_DeepCopy_isolated:
  assumes "metav1 M om_val om_addrs lm_val lm_addrs"
    and "IAMServiceAccountList_DeepCopy M p h = (q, h')"
    and "pointer_addrs (iam_account_list_of (mlZero M)) (IAMServiceAccountList_addrs M om_addrs lm_addrs) h p
      \<subseteq> {..<next_addr h}"
  shows "isolated_copy (pointer_val (iam_account_list_of (mlZero M)) (IAMServiceAccountList_value M om_val lm_val))
    (pointer_addrs (iam_account_list_of (mlZero M)) (IAMServiceAccountList_addrs M om_addrs lm_addrs)) p h q h'"
  by (rule metav1.IAMServiceAccountList_copy_isolated [OF assms])

lemma IAMServiceAccountList_DeepCopy_isolated_witness:
  "case IAMServiceAccountList_DeepCopy example_meta (Some 4) example_iam_heap of (q, h') \<Rightarrow>
     isolated_copy (pointer_val (iam_account_list_of []) (IAMServiceAccountList_value example_meta
         (slice_val strings_of [] (\<lambda>h x. x)) (\<lambda>h x. x)))
       (pointer_addrs (iam_account_list_of []) (IAMServiceAccountList_addrs example_meta
         (slice_addrs strings_of [] (\<lambda>h x. {})) (\<lambda>h x. {}))) (Some 4) example_iam_heap q h'"
proof -
  obtain q h' where run: "IAMServiceAccountList_DeepCopy example_meta (Some 4) example_iam_heap = (q, h')"
    by (cases "IAMServiceAccountList_DeepCopy example_meta (Some 4) example_iam_heap")
  have "pointer_addrs (iam_account_list_of (mlZero example_meta)) (IAMServiceAccountList_addrs example_meta
      (slice_addrs strings_of [] (\<lambda>h x. {})) (\<lambda>h x. {})) example_iam_heap (Some 4)
    \<subseteq> {..<next_addr example_iam_heap}"
    by (auto simp: pointer_addrs_def slice_addrs_def slice_elem_def example_iam_heap_def one_def example_meta_def
        zero_list_def IAMServiceAccountList_addrs_def IAMServiceAccount_addrs_def zero_iam_account_def split: option.splits)
  from IAMServiceAccountList_DeepCopy_isolated [OF example_meta.metav1_axioms run this] run
  show ?thesis by (simp add: example_meta_def)
qed

text \<open>
  \<^verbatim>\<open>DeepCopyObject\<close> of a nil pointer is the nil interface, for every type, and never an
  interface that holds a nil pointer; otherwise it holds a new object of its own type.
\<close>

lemma DeepCopyObject_nil:
  "list_all (\<lambda>(copy, t). copy None h = (NilObject, h)
       \<and> fst (copy (Some p) h) = Object t (Some (next_addr h)))
     [(UnionTeamServiceAccounts_DeepCopyObject M, UTSAType),
      (UnionTeamServiceAccountsList_DeepCopyObject M, UTSAListType),
      (IAMPolicyMember_DeepCopyObject M, IAMPolicyMemberType),
      (IAMPolicyMemberList_DeepCopyObject M, IAMPolicyMemberListType),
      (IAMServiceAccount_DeepCopyObject M, IAMServiceAccountType),
      (IAMServiceAccountList_DeepCopyObject M, IAMServiceAccountListType)]"
proof -
  have nil: "as_object t (copy_pointer get mk zero copy) None h = (NilObject, h)" for t get mk zero copy
    by (simp add: as_object_def)
  have new: "fst (as_object t (copy_pointer get mk zero copy) (Some p) h) = Object t (Some (next_addr h))"
    for t get mk zero copy by (simp add: as_object_def alloc_def split: prod.split)
  show ?thesis
    by (simp add: nil new UnionTeamServiceAccounts_DeepCopyObject_def UnionTeamServiceAccounts_DeepCopy_def
        UnionTeamServiceAccountsList_DeepCopyObject_def UnionTeamServiceAccountsList_DeepCopy_def
        IAMPolicyMember_DeepCopyObject_def IAMPolicyMember_DeepCopy_def
        IAMPolicyMemberList_DeepCopyObject_def IAMPolicyMemberList_DeepCopy_def
        IAMServiceAccount_DeepCopyObject_def IAMServiceAccount_DeepCopy_def
        IAMServiceAccountList_DeepCopyObject_def IAMServiceAccountList_DeepCopy_def)
qed

end
