(* ===== verification/Startup.thy ===== *)
theory Startup
  imports UnionTypes Persist
begin

text \<open>
  \<^verbatim>\<open>cmd/main.go\<close>: the start of the operator. It loads the configuration, parses the command
  line, builds the options of the manager (TLS, webhook and metrics servers), reads the
  on-premises hosts, and sets the controller up before it starts the manager. Any failure
  ends the process.

  The environment, the file system, the YAML decoder and controller-runtime are the fields
  of a record \<open>platform\<close>; the command line is parsed as Go's package \<^verbatim>\<open>flag\<close> does it, except
  for the flags that libraries register (zap's, \<^verbatim>\<open>kubeconfig\<close>), which are part of the platform. Every step is logged with
  its success.
\<close>

section \<open>Flags\<close>

record flags =
  metricsAddr :: string
  probeAddr :: string
  enableLeaderElection :: bool
  secureMetrics :: bool
  webhookCertPath :: string
  webhookCertName :: string
  webhookCertKey :: string
  metricsCertPath :: string
  metricsCertName :: string
  metricsCertKey :: string
  enableHTTP2 :: bool

definition default_flags :: flags where
  "default_flags =
     \<lparr>metricsAddr = ''0'', probeAddr = '':8081'', enableLeaderElection = False, secureMetrics = True,
      webhookCertPath = [], webhookCertName = ''tls.crt'', webhookCertKey = ''tls.key'',
      metricsCertPath = [], metricsCertName = ''tls.crt'', metricsCertKey = ''tls.key'',
      enableHTTP2 = False\<rparr>"

text \<open>A registered flag is a string, a boolean, or a library's (is it boolean, which values are valid).\<close>

datatype flag =
    StringVar "string \<Rightarrow> flags \<Rightarrow> flags"
  | BoolVar "bool \<Rightarrow> flags \<Rightarrow> flags"
  | LibraryFlag bool "string \<Rightarrow> bool"

definition declared_flags :: "(string \<times> flag) list" where
  "declared_flags =
     [(''metrics-bind-address'', StringVar (\<lambda>v f. f\<lparr>metricsAddr := v\<rparr>)),
      (''health-probe-bind-address'', StringVar (\<lambda>v f. f\<lparr>probeAddr := v\<rparr>)),
      (''leader-elect'', BoolVar (\<lambda>b f. f\<lparr>enableLeaderElection := b\<rparr>)),
      (''metrics-secure'', BoolVar (\<lambda>b f. f\<lparr>secureMetrics := b\<rparr>)),
      (''webhook-cert-path'', StringVar (\<lambda>v f. f\<lparr>webhookCertPath := v\<rparr>)),
      (''webhook-cert-name'', StringVar (\<lambda>v f. f\<lparr>webhookCertName := v\<rparr>)),
      (''webhook-cert-key'', StringVar (\<lambda>v f. f\<lparr>webhookCertKey := v\<rparr>)),
      (''metrics-cert-path'', StringVar (\<lambda>v f. f\<lparr>metricsCertPath := v\<rparr>)),
      (''metrics-cert-name'', StringVar (\<lambda>v f. f\<lparr>metricsCertName := v\<rparr>)),
      (''metrics-cert-key'', StringVar (\<lambda>v f. f\<lparr>metricsCertKey := v\<rparr>)),
      (''enable-http2'', BoolVar (\<lambda>b f. f\<lparr>enableHTTP2 := b\<rparr>))]"

type_synonym library_flags = "string \<rightharpoonup> bool \<times> (string \<Rightarrow> bool)"

definition lookup_flag :: "library_flags \<Rightarrow> string \<Rightarrow> flag option" where
  "lookup_flag lib name =
     (case map_of declared_flags name of
        Some f \<Rightarrow> Some f
      | None \<Rightarrow> map_option (\<lambda>(b, valid). LibraryFlag b valid) (lib name))"

text \<open>\<^verbatim>\<open>strconv.ParseBool\<close>.\<close>

definition ParseBool :: "string \<Rightarrow> bool option" where
  "ParseBool s =
     (if s \<in> set [''1'', ''t'', ''T'', ''TRUE'', ''true'', ''True''] then Some True
      else if s \<in> set [''0'', ''f'', ''F'', ''FALSE'', ''false'', ''False''] then Some False
      else None)"

text \<open>
  \<^verbatim>\<open>flag.Parse\<close> of the command line's set, which exits with status 2 on an error and with 0
  when help is asked for: the left side is an exit status. \<open>flag_name\<close> takes the dashes and
  the value off an argument.
\<close>

definition flag_body :: "string \<Rightarrow> string" where
  "flag_body s = (if s ! 1 = CHR ''-'' then drop 2 s else drop 1 s)"

definition flag_name :: "string \<Rightarrow> string" where
  "flag_name s = takeWhile (\<lambda>c. c \<noteq> CHR ''='') (flag_body s)"

definition flag_value :: "string \<Rightarrow> string option" where
  "flag_value s = (case dropWhile (\<lambda>c. c \<noteq> CHR ''='') (flag_body s) of [] \<Rightarrow> None | _ # v \<Rightarrow> Some v)"

fun parse_args :: "library_flags \<Rightarrow> string list \<Rightarrow> flags \<Rightarrow> int + flags" where
  "parse_args lib [] f = Inr f"
| "parse_args lib (s # args) f =
     (if length s < 2 \<or> s ! 0 \<noteq> CHR ''-'' \<or> s = ''--'' then Inr f
      else if flag_body s = [] \<or> flag_body s ! 0 \<in> {CHR ''-'', CHR ''=''} then Inl 2
      else case lookup_flag lib (flag_name s) of
        None \<Rightarrow> Inl (if flag_name s \<in> {''help'', ''h''} then 0 else 2)
      | Some (BoolVar set_flag) \<Rightarrow> (case flag_value s of
          None \<Rightarrow> parse_args lib args (set_flag True f)
        | Some v \<Rightarrow> (case ParseBool v of
            None \<Rightarrow> Inl 2
          | Some b \<Rightarrow> parse_args lib args (set_flag b f)))
      | Some (StringVar set_flag) \<Rightarrow> (case flag_value s of
          Some v \<Rightarrow> parse_args lib args (set_flag v f)
        | None \<Rightarrow> (case args of
            [] \<Rightarrow> Inl 2
          | v # args' \<Rightarrow> parse_args lib args' (set_flag v f)))
      | Some (LibraryFlag is_bool valid) \<Rightarrow> (case flag_value s of
          Some v \<Rightarrow> if valid v then parse_args lib args f else Inl 2
        | None \<Rightarrow>
            if is_bool then (if valid ''true'' then parse_args lib args f else Inl 2)
            else (case args of
              [] \<Rightarrow> Inl 2
            | v # args' \<Rightarrow> if valid v then parse_args lib args' f else Inl 2)))"

section \<open>The options of the manager\<close>

text \<open>Of a \<^verbatim>\<open>tls.Config\<close>, the field the program writes.\<close>

record tls_config =
  tlsNextProtos :: "string list"

type_synonym tls_opt = "tls_config \<Rightarrow> tls_config"

definition disableHTTP2 :: tls_opt where
  "disableHTTP2 c = c\<lparr>tlsNextProtos := [''http/1.1'']\<rparr>"

definition tls_opts :: "flags \<Rightarrow> tls_opt list" where
  "tls_opts f = (if \<not> enableHTTP2 f then [disableHTTP2] else [])"

record webhook_options =
  whTLSOpts :: "tls_opt list"
  whCertDir :: string
  whCertName :: string
  whKeyName :: string

definition webhook_server_options :: "flags \<Rightarrow> webhook_options" where
  "webhook_server_options f =
     (let options = \<lparr>whTLSOpts = tls_opts f, whCertDir = [], whCertName = [], whKeyName = []\<rparr> in
      if length (webhookCertPath f) > 0
      then options\<lparr>whCertDir := webhookCertPath f, whCertName := webhookCertName f,
             whKeyName := webhookCertKey f\<rparr>
      else options)"

text \<open>The filter is \<^verbatim>\<open>filters.WithAuthenticationAndAuthorization\<close> or none.\<close>

datatype filter_provider = NoFilter | WithAuthenticationAndAuthorization

record metrics_options =
  msBindAddress :: string
  msSecureServing :: bool
  msTLSOpts :: "tls_opt list"
  msFilterProvider :: filter_provider
  msCertDir :: string
  msCertName :: string
  msKeyName :: string

definition metrics_server_options :: "flags \<Rightarrow> metrics_options" where
  "metrics_server_options f =
     (let options = \<lparr>msBindAddress = metricsAddr f, msSecureServing = secureMetrics f,
            msTLSOpts = tls_opts f, msFilterProvider = NoFilter, msCertDir = [], msCertName = [],
            msKeyName = []\<rparr>;
          filtered = (if secureMetrics f
            then options\<lparr>msFilterProvider := WithAuthenticationAndAuthorization\<rparr> else options) in
      if length (metricsCertPath f) > 0
      then filtered\<lparr>msCertDir := metricsCertPath f, msCertName := metricsCertName f,
             msKeyName := metricsCertKey f\<rparr>
      else filtered)"

record manager_options =
  mgrMetrics :: metrics_options
  mgrWebhook :: webhook_options
  mgrProbeAddress :: string
  mgrLeaderElection :: bool
  mgrLeaderElectionID :: string

definition manager_options_of :: "flags \<Rightarrow> manager_options" where
  "manager_options_of f =
     \<lparr>mgrMetrics = metrics_server_options f, mgrWebhook = webhook_server_options f,
      mgrProbeAddress = probeAddr f, mgrLeaderElection = enableLeaderElection f,
      mgrLeaderElectionID = ''5df56114.data.nav.no''\<rparr>"

section \<open>The main function\<close>

text \<open>A step answers and changes the state of the world outside.\<close>

record 's platform =
  plArgs :: "string list"
  plLibraryFlags :: library_flags
  plGetenv :: "string \<Rightarrow> string"
  plReadFile :: "string \<Rightarrow> 's \<Rightarrow> (string + string) \<times> 's"
  plUnmarshalConfig :: "string \<Rightarrow> UnionDataplaneConfig \<Rightarrow> string + UnionDataplaneConfig"
  plUnmarshalHosts :: "string \<Rightarrow> OnpremHostMap \<Rightarrow> string + OnpremHostMap"
  plGetConfig :: "'s \<Rightarrow> bool \<times> 's"
  plNewManager :: "manager_options \<Rightarrow> 's \<Rightarrow> bool \<times> 's"
  plComplete :: "'s \<Rightarrow> bool \<times> 's"
  plAddHealthzCheck :: "'s \<Rightarrow> bool \<times> 's"
  plAddReadyzCheck :: "'s \<Rightarrow> bool \<times> 's"
  plStart :: "'s \<Rightarrow> bool \<times> 's"

datatype startup_step =
    LoadConfig string
  | ParseFlags
  | KubeConfig
  | NewManager manager_options
  | ReadHosts string
  | DecodeHosts
  | SetupController OnpremHostMap UnionDataplaneConfig Persister
  | AddHealthz
  | AddReadyz
  | StartManager

record 's process =
  procExt :: 's
  procLog :: "(startup_step \<times> bool) list"

text \<open>
  A step with an answer \<open>Inl code\<close> ends the process with that status; \<open>os.Exit(1)\<close> is the
  answer to every error.
\<close>

definition run_step ::
    "startup_step \<Rightarrow> ('s \<Rightarrow> (int + 'a) \<times> 's) \<Rightarrow> ('a \<Rightarrow> 's process \<Rightarrow> (int + 'b) \<times> 's process)
       \<Rightarrow> 's process \<Rightarrow> (int + 'b) \<times> 's process" where
  "run_step e f k p =
     (case f (procExt p) of
        (Inl code, s) \<Rightarrow> (Inl code, p\<lparr>procExt := s, procLog := procLog p @ [(e, False)]\<rparr>)
      | (Inr x, s) \<Rightarrow> k x (p\<lparr>procExt := s, procLog := procLog p @ [(e, True)]\<rparr>))"

definition or_exit :: "('s \<Rightarrow> bool \<times> 's) \<Rightarrow> 's \<Rightarrow> (int + unit) \<times> 's" where
  "or_exit f s = (case f s of (ok, s') \<Rightarrow> (if ok then Inr () else Inl 1, s'))"

definition exit_1 :: "(string + 'a) \<Rightarrow> int + 'a" where
  "exit_1 r = (case r of Inl err \<Rightarrow> Inl 1 | Inr x \<Rightarrow> Inr x)"

definition zero_config :: UnionDataplaneConfig where
  "zero_config = \<lparr>cfgGCPProjectName = [], cfgFastRegistrationBucket = [], cfgDataBucket = [],
     cfgOnpremHostMapFilePath = [],
     cfgAllowlistHistory = \<lparr>ahProject = [], ahBigqueryDataset = [], ahTableName = []\<rparr>\<rparr>"

definition LoadFromFile ::
    "'s platform \<Rightarrow> UnionDataplaneConfig \<Rightarrow> string \<Rightarrow> 's \<Rightarrow> (string + UnionDataplaneConfig) \<times> 's" where
  "LoadFromFile P c path s =
     (case plReadFile P path s of
        (Inl err, s') \<Rightarrow> (Inl err, s')
      | (Inr data, s') \<Rightarrow> (plUnmarshalConfig P data c, s'))"

definition history_sink :: "UnionDataplaneConfig \<Rightarrow> BigQuery" where
  "history_sink cfg = \<lparr>bqProjectID = ahProject (cfgAllowlistHistory cfg),
     bqDatasetID = ahBigqueryDataset (cfgAllowlistHistory cfg),
     bqTableID = ahTableName (cfgAllowlistHistory cfg)\<rparr>"

text \<open>The function in four parts, each with the values the ones before it have computed.\<close>

definition main_with_hosts ::
    "'s platform \<Rightarrow> UnionDataplaneConfig \<Rightarrow> OnpremHostMap \<Rightarrow> 's process \<Rightarrow> (int + unit) \<times> 's process"
  where
  "main_with_hosts P unionConfig onpremHosts =
     (let persister = NewPersister (history_sink unionConfig) in
      run_step (SetupController onpremHosts unionConfig persister) (or_exit (plComplete P))
     (\<lambda>_. run_step AddHealthz (or_exit (plAddHealthzCheck P))
     (\<lambda>_. run_step AddReadyz (or_exit (plAddReadyzCheck P))
     (\<lambda>_. run_step StartManager (or_exit (plStart P))
     (\<lambda>_ p. (Inr (), p))))))"

definition main_with_flags ::
    "'s platform \<Rightarrow> UnionDataplaneConfig \<Rightarrow> flags \<Rightarrow> 's process \<Rightarrow> (int + unit) \<times> 's process" where
  "main_with_flags P unionConfig f =
     run_step KubeConfig (or_exit (plGetConfig P))
     (\<lambda>_.
      run_step (NewManager (manager_options_of f)) (or_exit (plNewManager P (manager_options_of f)))
     (\<lambda>_.
      run_step (ReadHosts (cfgOnpremHostMapFilePath unionConfig))
        (\<lambda>s. case plReadFile P (cfgOnpremHostMapFilePath unionConfig) s of (r, s') \<Rightarrow> (exit_1 r, s'))
     (\<lambda>onpremHostData.
      run_step DecodeHosts (\<lambda>s. (exit_1 (plUnmarshalHosts P onpremHostData Map.empty), s))
     (\<lambda>onpremHosts. main_with_hosts P unionConfig onpremHosts))))"

definition main_with_config ::
    "'s platform \<Rightarrow> UnionDataplaneConfig \<Rightarrow> 's process \<Rightarrow> (int + unit) \<times> 's process" where
  "main_with_config P unionConfig =
     run_step ParseFlags (\<lambda>s. (parse_args (plLibraryFlags P) (plArgs P) default_flags, s))
       (\<lambda>f. main_with_flags P unionConfig f)"

definition main :: "'s platform \<Rightarrow> 's process \<Rightarrow> (int + unit) \<times> 's process" where
  "main P =
     (let config_path = plGetenv P ''MANAGER_CONFIG_PATH'' in
      run_step (LoadConfig config_path)
        (\<lambda>s. case LoadFromFile P zero_config config_path s of (r, s') \<Rightarrow> (exit_1 r, s'))
        (\<lambda>unionConfig. main_with_config P unionConfig))"

section \<open>Command lines\<close>

declare parse_args.simps(2) [simp del]

text \<open>A command line that sets every flag.\<close>

definition print_bool :: "bool \<Rightarrow> string" where
  "print_bool b = (if b then ''true'' else ''false'')"

definition assign_flag :: "string \<Rightarrow> string \<Rightarrow> string" where
  "assign_flag name v = ''--'' @ name @ ''='' @ v"

definition print_flags :: "flags \<Rightarrow> string list" where
  "print_flags f =
     [assign_flag ''metrics-bind-address'' (metricsAddr f),
      assign_flag ''health-probe-bind-address'' (probeAddr f),
      assign_flag ''leader-elect'' (print_bool (enableLeaderElection f)),
      assign_flag ''metrics-secure'' (print_bool (secureMetrics f)),
      assign_flag ''webhook-cert-path'' (webhookCertPath f),
      assign_flag ''webhook-cert-name'' (webhookCertName f),
      assign_flag ''webhook-cert-key'' (webhookCertKey f),
      assign_flag ''metrics-cert-path'' (metricsCertPath f),
      assign_flag ''metrics-cert-name'' (metricsCertName f),
      assign_flag ''metrics-cert-key'' (metricsCertKey f),
      assign_flag ''enable-http2'' (print_bool (enableHTTP2 f))]"

lemma ParseBool_print: "ParseBool (print_bool b) = Some b"
  by (simp add: ParseBool_def print_bool_def)

text \<open>Only the first equals sign separates; the value may contain more.\<close>

lemma flag_parts:
  assumes "CHR ''='' \<notin> set name"
  shows "flag_name (assign_flag name v) = name" and "flag_value (assign_flag name v) = Some v"
proof -
  have body: "flag_body (assign_flag name v) = name @ CHR ''='' # v"
    by (simp add: flag_body_def assign_flag_def)
  have "takeWhile (\<lambda>c. c \<noteq> CHR ''='') (name @ CHR ''='' # v) = name"
    and "dropWhile (\<lambda>c. c \<noteq> CHR ''='') (name @ CHR ''='' # v) = CHR ''='' # v"
    using assms by (induction name) auto
  with body show "flag_name (assign_flag name v) = name" and "flag_value (assign_flag name v) = Some v"
    by (simp_all add: flag_name_def flag_value_def)
qed

lemma parse_assign:
  assumes "CHR ''='' \<notin> set name" and "name \<noteq> []" and "hd name \<noteq> CHR ''-''"
  shows "lookup_flag lib name = Some (StringVar g)
      \<Longrightarrow> parse_args lib (assign_flag name v # args) f = parse_args lib args (g v f)"
    and "lookup_flag lib name = Some (BoolVar h) \<Longrightarrow> ParseBool v = Some b
      \<Longrightarrow> parse_args lib (assign_flag name v # args) f = parse_args lib args (h b f)"
proof -
  have "hd name \<noteq> CHR ''=''" using assms(1,2) by (cases name) auto
  with assms have shape: "\<not> (length (assign_flag name v) < 2 \<or> assign_flag name v ! 0 \<noteq> CHR ''-'' \<or> assign_flag name v = ''--'')"
    "\<not> (flag_body (assign_flag name v) = [] \<or> flag_body (assign_flag name v) ! 0 \<in> {CHR ''-'', CHR ''=''})"
    by (cases name; simp add: assign_flag_def flag_body_def)+
  note step = parse_args.simps(2) [of lib "assign_flag name v" args f, unfolded if_not_P [OF shape(1)] if_not_P [OF shape(2)]]
  show "lookup_flag lib name = Some (StringVar g)
      \<Longrightarrow> parse_args lib (assign_flag name v # args) f = parse_args lib args (g v f)"
    and "lookup_flag lib name = Some (BoolVar h) \<Longrightarrow> ParseBool v = Some b
      \<Longrightarrow> parse_args lib (assign_flag name v # args) f = parse_args lib args (h b f)"
    unfolding step flag_parts [OF assms(1)] by simp_all
qed

text \<open>
  C37. The command line round trip: whatever flags the libraries add, parsing the command
  line that sets every flag to a value returns those values, from any earlier state, also
  when a value is empty or contains dashes or equals signs.
\<close>

theorem parse_print_flags: "parse_args lib (print_flags f) g = Inr f"
  unfolding print_flags_def
  by (simp add: parse_assign lookup_flag_def declared_flags_def ParseBool_print)

section \<open>Secure by default\<close>

lemma lookup_keeps:
  "lookup_flag lib n = Some (BoolVar g) \<Longrightarrow> n \<noteq> ''enable-http2'' \<Longrightarrow> n \<noteq> ''metrics-secure''
     \<Longrightarrow> enableHTTP2 (g b f) = enableHTTP2 f \<and> secureMetrics (g b f) = secureMetrics f"
  "lookup_flag lib n = Some (StringVar h)
     \<Longrightarrow> enableHTTP2 (h v f) = enableHTTP2 f \<and> secureMetrics (h v f) = secureMetrics f"
  by (auto simp: lookup_flag_def declared_flags_def split: if_splits option.splits)

definition keeps_secure :: "flags \<Rightarrow> flags \<Rightarrow> bool" where
  "keeps_secure f f' \<longleftrightarrow> enableHTTP2 f' = enableHTTP2 f \<and> secureMetrics f' = secureMetrics f"

text \<open>
  One step of the parser: it stops, it exits with status 0 or 2, or it sets a flag and goes
  on with fewer arguments.
\<close>

definition step_outcome :: "library_flags \<Rightarrow> string \<Rightarrow> string list \<Rightarrow> flags \<Rightarrow> int + flags \<Rightarrow> bool" where
  "step_outcome lib name args f r \<longleftrightarrow> r = Inr f \<or> r = Inl 0 \<or> r = Inl 2
     \<or> (\<exists>args' f'. set args' \<subseteq> set args \<and> length args' \<le> length args
          \<and> (name \<noteq> ''enable-http2'' \<longrightarrow> name \<noteq> ''metrics-secure'' \<longrightarrow> keeps_secure f f')
          \<and> r = parse_args lib args' f')"

lemma step_outcomeI [intro, simp]:
  "step_outcome lib name args f (Inr f)"
  "step_outcome lib name args f (Inl 0)"
  "step_outcome lib name args f (Inl 2)"
  by (simp_all add: step_outcome_def)

lemma step_outcome_go:
  "(name \<noteq> ''enable-http2'' \<Longrightarrow> name \<noteq> ''metrics-secure'' \<Longrightarrow> keeps_secure f f')
     \<Longrightarrow> step_outcome lib name args f (parse_args lib args f')"
  "(name \<noteq> ''enable-http2'' \<Longrightarrow> name \<noteq> ''metrics-secure'' \<Longrightarrow> keeps_secure f f')
     \<Longrightarrow> step_outcome lib name (v # args) f (parse_args lib args f')"
  unfolding step_outcome_def by (fastforce intro: exI [of _ args])+

lemma keeps_secure_refl [simp]: "keeps_secure f f"
  by (simp add: keeps_secure_def)

lemma parse_args_step: "step_outcome lib (flag_name s) args f (parse_args lib (s # args) f)"
proof (cases "length s < 2 \<or> s ! 0 \<noteq> CHR ''-'' \<or> s = ''--''")
  case True
  then show ?thesis by (simp add: parse_args.simps(2))
next
  case dashes: False
  show ?thesis
  proof (cases "flag_body s = [] \<or> flag_body s ! 0 \<in> {CHR ''-'', CHR ''=''}")
    case True
    show ?thesis by (simp only: parse_args.simps(2) dashes True if_True if_False step_outcomeI)
  next
    case False
    note run = parse_args.simps(2) [of lib s args f, unfolded if_not_P [OF dashes] if_not_P [OF False]]
    show ?thesis
    proof (cases "lookup_flag lib (flag_name s)")
      case None
      then show ?thesis by (simp add: run)
    next
      case flag: (Some flag)
      show ?thesis
      proof (cases flag)
        case (BoolVar g)
        with lookup_keeps(1) [of lib "flag_name s" g] show ?thesis
          by (simp add: run flag step_outcome_go keeps_secure_def split: option.split)
      next
        case (StringVar h)
        with lookup_keeps(2) [of lib "flag_name s" h] show ?thesis
          by (simp add: run flag step_outcome_go keeps_secure_def split: option.split list.split)
      next
        case (LibraryFlag is_bool valid)
        then show ?thesis by (simp add: run flag step_outcome_go split: option.split list.split)
      qed
    qed
  qed
qed

lemma parse_args_keeps:
  "parse_args lib args f = Inr f'
     \<Longrightarrow> list_all (\<lambda>s. flag_name s \<noteq> ''enable-http2'' \<and> flag_name s \<noteq> ''metrics-secure'') args
     \<Longrightarrow> keeps_secure f f'"
proof (induction args arbitrary: f rule: length_induct)
  case (1 args)
  show ?case
  proof (cases args)
    case (Cons s rest)
    with parse_args_step [of lib s rest f] "1.prems" consider "f = f'"
      | args' f1 where "set args' \<subseteq> set rest" "length args' \<le> length rest" "keeps_secure f f1"
        "parse_args lib args' f1 = Inr f'"
      unfolding step_outcome_def by auto
    then show ?thesis
    proof cases
      case (2 args' f1)
      have "keeps_secure f1 f'"
        by (rule "1.IH" [rule_format, of args']) (use 2 "1.prems"(2) Cons in \<open>auto simp: list_all_iff\<close>)
      with 2(3) show ?thesis by (simp add: keeps_secure_def)
    qed simp
  qed (use 1 in simp)
qed

lemma parse_args_exit: "parse_args lib args f = Inl code \<Longrightarrow> code = 0 \<or> code = 2"
proof (induction args arbitrary: f rule: length_induct)
  case (1 args)
  show ?case
  proof (cases args)
    case (Cons s rest)
    with parse_args_step [of lib s rest f] "1.prems" consider "code = 0 \<or> code = 2"
      | args' f1 where "length args' \<le> length rest" "parse_args lib args' f1 = Inl code"
      unfolding step_outcome_def by fastforce
    then show ?thesis
    proof cases
      case (2 args' f1)
      show ?thesis by (rule "1.IH" [rule_format, of args']) (use 2 Cons in simp_all)
    qed
  qed (use 1 in simp)
qed

text \<open>
  C38. When neither \<^verbatim>\<open>enable-http2\<close> nor \<^verbatim>\<open>metrics-secure\<close> is on the command line, and it is
  accepted, whatever else it sets: both servers speak HTTP/1.1 only, and the metrics
  endpoint is served over TLS to authenticated and authorized clients.
\<close>

theorem secure_by_default:
  assumes "parse_args lib args default_flags = Inr f"
    and "list_all (\<lambda>s. flag_name s \<noteq> ''enable-http2'' \<and> flag_name s \<noteq> ''metrics-secure'') args"
  shows "tlsNextProtos (foldl (\<lambda>c opt. opt c) c (whTLSOpts (mgrWebhook (manager_options_of f)))) = [''http/1.1'']
    \<and> tlsNextProtos (foldl (\<lambda>c opt. opt c) c (msTLSOpts (mgrMetrics (manager_options_of f)))) = [''http/1.1'']
    \<and> msSecureServing (mgrMetrics (manager_options_of f))
    \<and> msFilterProvider (mgrMetrics (manager_options_of f)) = WithAuthenticationAndAuthorization"
  using parse_args_keeps [OF assms]
  by (simp add: keeps_secure_def default_flags_def manager_options_of_def webhook_server_options_def
      metrics_server_options_def tls_opts_def disableHTTP2_def Let_def)

theorem secure_by_default_witness:
  "\<exists>f. parse_args Map.empty [''--leader-elect'', ''-metrics-bind-address'', '':8443''] default_flags = Inr f
     \<and> metricsAddr f = '':8443'' \<and> enableLeaderElection f
     \<and> tlsNextProtos (foldl (\<lambda>c opt. opt c) \<lparr>tlsNextProtos = [''h2'']\<rparr>
          (whTLSOpts (mgrWebhook (manager_options_of f)))) = [''http/1.1'']"
proof -
  let ?args = "[''--leader-elect'', ''-metrics-bind-address'', '':8443'']"
  let ?f = "default_flags\<lparr>enableLeaderElection := True, metricsAddr := '':8443''\<rparr>"
  have run: "parse_args Map.empty ?args default_flags = Inr ?f"
    by (simp add: parse_args.simps(2) flag_body_def flag_name_def flag_value_def lookup_flag_def
        declared_flags_def)
  have names: "list_all (\<lambda>s. flag_name s \<noteq> ''enable-http2'' \<and> flag_name s \<noteq> ''metrics-secure'') ?args"
    by (simp add: flag_body_def flag_name_def)
  from secure_by_default [OF run names] run show ?thesis
    by (intro exI [of _ ?f]) simp
qed

section \<open>The order of the start\<close>

fun position :: "startup_step \<Rightarrow> nat" where
  "position (LoadConfig _) = 0"
| "position ParseFlags = 1"
| "position KubeConfig = 2"
| "position (NewManager _) = 3"
| "position (ReadHosts _) = 4"
| "position DecodeHosts = 5"
| "position (SetupController _ _ _) = 6"
| "position AddHealthz = 7"
| "position AddReadyz = 8"
| "position StartManager = 9"

text \<open>What the steps are given: the parsed flags, the decoded files.\<close>

fun wired :: "'s platform \<Rightarrow> startup_step \<Rightarrow> bool" where
  "wired P (NewManager options) \<longleftrightarrow>
     (\<exists>f. parse_args (plLibraryFlags P) (plArgs P) default_flags = Inr f \<and> options = manager_options_of f)"
| "wired P (SetupController hosts cfg persister) \<longleftrightarrow>
     (\<exists>file. plUnmarshalConfig P file zero_config = Inr cfg)
     \<and> (\<exists>file. plUnmarshalHosts P file Map.empty = Inr hosts)
     \<and> persister = NewPersister (history_sink cfg)"
| "wired P _ \<longleftrightarrow> True"

definition in_order ::
    "'s platform \<Rightarrow> nat \<Rightarrow> (startup_step \<times> bool) list \<Rightarrow> int + unit \<Rightarrow> bool" where
  "in_order P n es res \<longleftrightarrow>
     map (\<lambda>e. position (fst e)) es = [n..<n + length es] \<and> list_all (\<lambda>e. wired P (fst e)) es
     \<and> (case res of
          Inr _ \<Rightarrow> list_all snd es \<and> n + length es = 10
        | Inl code \<Rightarrow> es \<noteq> [] \<and> list_all snd (butlast es) \<and> \<not> snd (last es)
            \<and> (if fst (last es) = ParseFlags then code \<in> {0, 2} else code = 1))"

lemma run_step_in_order:
  assumes "position e = n" and "wired P e"
    and exit: "\<And>s code s'. f s = (Inl code, s') \<Longrightarrow> (if e = ParseFlags then code \<in> {0, 2} else code = 1)"
    and later: "\<And>x s s' p. f s = (Inr x, s') \<Longrightarrow>
      \<exists>es. procLog (snd (k x p)) = procLog p @ es \<and> in_order P (Suc n) es (fst (k x p))"
  shows "\<exists>es. procLog (snd (run_step e f k p)) = procLog p @ es
    \<and> in_order P n es (fst (run_step e f k p))"
proof -
  obtain r s where r: "f (procExt p) = (r, s)" by (cases "f (procExt p)")
  show ?thesis
  proof (cases r)
    case (Inl code)
    with r exit [of "procExt p" code s] assms(1,2) show ?thesis
      by (intro exI [of _ "[(e, False)]"]) (simp add: run_step_def in_order_def)
  next
    case (Inr x)
    let ?p = "p\<lparr>procExt := s, procLog := procLog p @ [(e, True)]\<rparr>"
    from later [of "procExt p" x s ?p] r Inr obtain es where
      es: "procLog (snd (k x ?p)) = procLog p @ (e, True) # es" "in_order P (Suc n) es (fst (k x ?p))"
      by auto
    have "in_order P n ((e, True) # es) (fst (k x ?p))"
      using es(2) assms(1,2)
      by (auto simp: in_order_def upt_conv_Cons simp del: upt_Suc split: sum.splits)
    with es(1) r Inr show ?thesis
      by (intro exI [of _ "(e, True) # es"]) (simp add: run_step_def)
  qed
qed

lemma or_exit_Inl: "or_exit f s = (Inl code, s') \<Longrightarrow> code = 1"
  by (auto simp: or_exit_def split: prod.splits if_splits)

lemma exit_1_Inl: "exit_1 r = Inl code \<Longrightarrow> code = 1"
  by (auto simp: exit_1_def split: sum.splits)

lemma exit_1_Inr: "exit_1 r = Inr x \<longleftrightarrow> r = Inr x"
  by (auto simp: exit_1_def split: sum.splits)

lemma or_exit_in_order:
  assumes "position e = n" and "wired P e" and "e \<noteq> ParseFlags"
    and "\<And>p. \<exists>es. procLog (snd (k () p)) = procLog p @ es \<and> in_order P (Suc n) es (fst (k () p))"
  shows "\<exists>es. procLog (snd (run_step e (or_exit f) k p)) = procLog p @ es
    \<and> in_order P n es (fst (run_step e (or_exit f) k p))"
  by (rule run_step_in_order [OF assms(1,2)]) (use assms(3,4) in \<open>auto dest: or_exit_Inl\<close>)

lemma exit_1_in_order:
  assumes "position e = n" and "wired P e" and "e \<noteq> ParseFlags"
    and "\<And>x s s' p. g s = (Inr x, s')
      \<Longrightarrow> \<exists>es. procLog (snd (k x p)) = procLog p @ es \<and> in_order P (Suc n) es (fst (k x p))"
  shows "\<exists>es. procLog (snd (run_step e (\<lambda>s. case g s of (r, s') \<Rightarrow> (exit_1 r, s')) k p)) = procLog p @ es
    \<and> in_order P n es (fst (run_step e (\<lambda>s. case g s of (r, s') \<Rightarrow> (exit_1 r, s')) k p))"
proof (rule run_step_in_order [OF assms(1,2)])
  fix s code s'
  assume "(case g s of (r, s') \<Rightarrow> (exit_1 r, s')) = (Inl code, s')"
  then show "if e = ParseFlags then code \<in> {0, 2} else code = 1"
    using assms(3) by (auto dest: exit_1_Inl split: prod.splits)
next
  fix x s s' p
  assume "(case g s of (r, s') \<Rightarrow> (exit_1 r, s')) = (Inr x, s')"
  then show "\<exists>es. procLog (snd (k x p)) = procLog p @ es \<and> in_order P (Suc n) es (fst (k x p))"
    using assms(4) by (auto simp: exit_1_Inr split: prod.splits)
qed

lemma LoadFromFile_decoded:
  "LoadFromFile P c path s = (Inr cfg, s') \<Longrightarrow> \<exists>file. plUnmarshalConfig P file c = Inr cfg"
  by (auto simp: LoadFromFile_def split: prod.splits sum.splits)

text \<open>
  C36. The process goes through its ten steps in their order, each only after all before it
  succeeded: the manager is built from the parsed flags, the controller gets the decoded
  configuration and hosts and a persister for the configured table, and the manager starts
  only after the controller and both health checks are registered. The process ends with
  status 0 only when the manager ran to its end, or the flags asked for help; a wrong
  command line gives status 2, any other failure status 1.
\<close>

theorem main_in_order:
  "\<exists>es. procLog (snd (main P p)) = procLog p @ es \<and> in_order P 0 es (fst (main P p))"
  unfolding main_def Let_def
proof (rule exit_1_in_order, simp, simp, simp)
  fix cfg s s' p
  assume "LoadFromFile P zero_config (plGetenv P ''MANAGER_CONFIG_PATH'') s = (Inr cfg, s')"
  then have cfg: "\<exists>file. plUnmarshalConfig P file zero_config = Inr cfg" by (rule LoadFromFile_decoded)
  show "\<exists>es. procLog (snd (main_with_config P cfg p)) = procLog p @ es
    \<and> in_order P (Suc 0) es (fst (main_with_config P cfg p))"
    unfolding main_with_config_def Let_def
  proof (rule run_step_in_order, simp, simp)
    fix s code s'
    assume "(parse_args (plLibraryFlags P) (plArgs P) default_flags, s) = (Inl code, s')"
    then show "if ParseFlags = ParseFlags then code \<in> {0, 2} else code = 1"
      by (auto dest: parse_args_exit)
  next
    fix f s s' p
    assume "(parse_args (plLibraryFlags P) (plArgs P) default_flags, s) = (Inr f, s')"
    then have flags: "wired P (NewManager (manager_options_of f))" by auto
    show "\<exists>es. procLog (snd (main_with_flags P cfg f p)) = procLog p @ es
        \<and> in_order P (Suc (Suc 0)) es (fst (main_with_flags P cfg f p))"
      unfolding main_with_flags_def
    proof (rule or_exit_in_order, simp, simp, simp, rule or_exit_in_order, simp, rule flags, simp,
        rule exit_1_in_order, simp, simp, simp, rule run_step_in_order, simp, simp)
      fix data s code s'
      assume "(exit_1 (plUnmarshalHosts P data Map.empty), s) = (Inl code, s')"
      then show "if DecodeHosts = ParseFlags then code \<in> {0, 2} else code = 1"
        by (auto dest: exit_1_Inl)
    next
      fix data hosts s s' p
      assume "(exit_1 (plUnmarshalHosts P data Map.empty), s) = (Inr hosts, s')"
      then have "wired P (SetupController hosts cfg (NewPersister (history_sink cfg)))"
        using cfg by (auto simp: exit_1_Inr)
      then show "\<exists>es. procLog (snd (main_with_hosts P cfg hosts p)) = procLog p @ es
          \<and> in_order P (Suc (Suc (Suc (Suc (Suc (Suc 0)))))) es (fst (main_with_hosts P cfg hosts p))"
        unfolding main_with_hosts_def Let_def
        by (intro or_exit_in_order exI [of _ "[]"]) (simp_all add: in_order_def)
    qed
  qed
qed

end
