(* ===== verification/Spec2Isabelle.thy ===== *)
theory Spec2Isabelle
  imports Settled Schemes DeepCopy Startup
begin

text \<open>
  A verification development of the Union operator, a Kubernetes operator that reconciles
  one kind of resource, \<^verbatim>\<open>UnionTeamServiceAccounts\<close> (here UTSA): a team's project and domain,
  and service accounts with the hosts each may reach.

  \<^bold>\<open>The program.\<close> \<^verbatim>\<open>cmd/main.go\<close> loads a configuration, parses flags, and starts a
  controller-runtime manager with one reconciler, \<^verbatim>\<open>internal/controller\<close>. For a UTSA it
  puts a finalizer on the resource, stores the allowlists in BigQuery
  (\<^verbatim>\<open>internal/persist\<close>), creates and removes service accounts with their Google accounts
  and IAM policy members (\<^verbatim>\<open>internal/serviceaccount\<close>), and creates and removes the Istio
  resources that open the egress to the allowed hosts (\<^verbatim>\<open>internal/istio\<close>). When the UTSA
  is being deleted it removes the accounts' AuthorizationPolicies and then the finalizer;
  the objects in the team's namespace are owned by the UTSA and left to Kubernetes' garbage
  collector.

  \<^bold>\<open>How programs are modelled\<close> (\<open>Prelude\<close>, \<open>Cluster\<close>). A Go function with effects is a
  function from a world to a result and a world. A result is a value, a returned error or a
  panic (a nil dereference is one). A world is an external state of arbitrary type and
  the log of the calls made. Loops over slices are recursion over lists; every definition
  is total, so every modelled function returns, and it is executable. The manager calls
  \<open>Reconcile\<close> again after an error; \<open>attempts n\<close> is at most \<open>n\<close> further calls.

  The client of controller-runtime is third-party code: a record of functions over the
  external state. Theorems over the log hold for \<^emph>\<open>every\<close> client, however it answers, so
  also when the cluster changes between two calls. Theorems over the contents of the
  cluster assume one of two locales of \<open>ApiContract\<close>: \<open>kube_api\<close>, where a read may miss
  recent objects (a cache) and a failed write may have been applied, and \<open>kube_fresh\<close>,
  where reads are complete. Both suppose that nobody else writes during the run. A third,
  \<open>kube_serves\<close> in \<open>Responsive\<close>, extends \<open>kube_fresh\<close> with what a server does answer: a
  measure of the outages that are left, which no call increases; a call that does not
  decrease it succeeds as documented. \<open>MemStore\<close> is an in-memory server that satisfies all
  three, with errors injected by a script; the witnesses run the operator against it.

  \<^bold>\<open>Theories and sources.\<close>
  \<^item> \<open>Prelude\<close>: the runtime, with two kinds of statements about programs: \<open>safe R m\<close>
    (every run relates its first and last world by \<open>R\<close>; rules in the locale
    \<open>effect_order\<close>) and \<open>ok_post P m Q\<close> (a run without error ends in \<open>Q\<close>).
  \<^item> \<open>ApiTypes\<close>: \<^verbatim>\<open>api/v1alpha1/unionteamserviceaccounts_types.go\<close>.
  \<^item> \<open>Sha256\<close>, \<open>UnionTypes\<close>: \<^verbatim>\<open>internal/types\<close>, with Go's SHA-256 on 32-bit words, since
    the generated names depend on it; bounds on names and what a name determines.
  \<^item> \<open>IstioModels\<close>: the builders of Istio resources in \<^verbatim>\<open>internal/istio\<close>. The lemmas
    relate the resources of a host to each other, and give a policy its meaning: a
    predicate on requests.
  \<^item> \<open>Cluster\<close>, \<open>ApiContract\<close>, \<open>MemStore\<close>: the API server, as above.
  \<^item> \<open>ServiceAccounts\<close>: \<^verbatim>\<open>internal/serviceaccount\<close> (\<^verbatim>\<open>reconciler.go\<close>, \<^verbatim>\<open>iam.go\<close>,
    \<^verbatim>\<open>cleanup.go\<close>). What is written, that accounts are provisioned, and what removal
    removes and leaves behind.
  \<^item> \<open>IstioReconciler\<close>: the \<^verbatim>\<open>Ensure...\<close> operations of \<^verbatim>\<open>internal/istio\<close>: least privilege,
    completeness, convergence, name clashes.
  \<^item> \<open>IstioCleanup\<close>: \<^verbatim>\<open>internal/istio/cleanup.go\<close>: what each cleanup deletes, exactly.
  \<^item> \<open>Persist\<close>: \<^verbatim>\<open>internal/persist/persist.go\<close> over any BigQuery client (\<open>bigquery\<close>), with
    the interface \<^verbatim>\<open>AllowlistPersister\<close> as the locale \<open>allowlist_persister\<close>.
  \<^item> \<open>StageFrames\<close>: which kinds of objects each stage may change.
  \<^item> \<open>Controller\<close>: \<^verbatim>\<open>Reconcile\<close>, by which the stages are composed: the finalizer protocol,
    the result of a run without error, deletion, and the audit record before any effect.
  \<^item> \<open>Reachability\<close>: the stages that create and the stages that clean up together: a host
    on an allowlist stays reachable to the end of a reconciliation.
  \<^item> \<open>Responsive\<close>: total correctness up to outages. \<open>progress d store P m Q\<close> says that
    \<open>m\<close>, started in a cluster with \<open>P\<close>, meets an outage or returns a value with \<open>Q\<close>; rules
    for every call and combinator.
  \<^item> \<open>Progress\<close>, \<open>ProgressCleanup\<close>: every stage makes progress, the ones that create from
    a cluster in which the names of the hosts are free and the gateways can be extended.
  \<^item> \<open>Readiness\<close>: every stage, however it ends, leaves such a cluster, so an attempt that
    was cut short can be repeated.
  \<^item> \<open>Liveness\<close>: with both, an attempt at a live resource, and at one being deleted, meets
    an outage or succeeds, and the deletion completes.
  \<^item> \<open>Revocation\<close>: what the reconciliation of a live resource does not take back: access to
    an undisputed host that an account has dropped while another resource still allows it.
  \<^item> \<open>Settled\<close>: the operator's whole promise for a live resource: after at most as many
    further attempts as there are outages it is reconciled and its hosts are reachable.
  \<^item> \<open>Schemes\<close>: the package variables and \<^verbatim>\<open>init\<close> functions that register Go types, and
    what the scheme they build gives a reconciliation: typed requests and owner references.
  \<^item> \<open>HeapCopy\<close>, \<open>DeepCopy\<close>: \<^verbatim>\<open>zz_generated.deepcopy.go\<close> and the hand-written copies of
    \<^verbatim>\<open>internal/types/iam.go\<close>, over an explicit heap; a copy shares no memory with the
    original. In the other theories values have no identity, which these theorems justify
    for the objects a client hands out as copies.
  \<^item> \<open>Startup\<close>: \<^verbatim>\<open>cmd/main.go\<close> and \<^verbatim>\<open>LoadFromFile\<close>; the order of the start, the parser of the
    command line (a round trip), and that the defaults are secure.

  \<^bold>\<open>Parameters.\<close> Code that is not in the repository is an argument: the client, the
  BigQuery client, the scheme and its builders (locale \<open>scheme_library\<close>), the three finalizer
  functions (locale \<open>finalizer_util\<close>), the metadata copies (locale \<open>metav1\<close>), the platform of \<open>Startup\<close>
  (environment, files, YAML, manager), and a flag \<open>aliased\<close> that says whether the client
  decodes an answer into the objects a loop is ranging over (see \<open>IstioCleanup\<close>; it matters
  only for a gateway with several servers). Every locale has an interpretation.

  \<^bold>\<open>Abstractions.\<close> Strings are lists of characters, one for each byte; a nil and an empty
  map, and outside of \<open>DeepCopy\<close> a nil and an empty slice, are the same value; of Kubernetes
  and Istio messages the records hold the fields the operator sets or reads; a time is a
  number with 0 for Go's zero time. The iteration order of Go maps does not show: the keys
  that are collected are sorted. The merge patch is its effect on metadata.

  \<^bold>\<open>Bounds.\<close> The one bound in the model is the number of further attempts, which the
  liveness theorems take to be the number of outages: an attempt without a new outage
  succeeds, and an attempt leaves what the next one needs.

  \<^bold>\<open>Not modelled.\<close> Logging; the JSON and YAML tags and the RBAC markers, which generators
  read; \<^verbatim>\<open>SetupWithManager\<close>'s call into controller-runtime (a step of \<open>Startup\<close> that may
  fail); the manager's queue beyond the retry after an error (back-off, periodic and
  event-driven calls, several workers): the theorems on \<open>Reconcile\<close> hold for each run by
  itself.
\<close>

end
